(* ===== verification/Prelude.thy ===== *)
theory Prelude
  imports Main "HOL-Library.Word"
begin

text \<open>
  What every component shares: the ways a Rust function of the agent can fail, the
  result of a pure function that may panic, the state-passing program that keeps the
  state reached when a panic unwinds, the inversion rules that take a run apart, and a
  small calculus of pre- and postconditions over such programs.
\<close>

section \<open>Failure\<close>

text \<open>
  One constructor per panic message of the sources; the payload is what the message
  prints. \<open>UnwrapNone\<close> and \<open>UnwrapErr\<close> are the library's own panics of
  \<open>unwrap\<close> on \<open>None\<close> and on an error value that carries no interesting data.
\<close>

datatype panic =
    UnwrapNone
  | UnwrapErr
  | BarePanic
  | ParseFailed
  | AssertionFailed
  | UnreachableReached
  | UnexpectedOptionPair
  | ExecWithoutValue
  | ExecEmptyValue
  | UnrecognizedOption string
  | UnexpectedBoolValue string
  | OptionsNotUtf8
  | JvmtiCheckFailed "32 word"
  | UnfamiliarPhase
  | StorageAlreadyInitialized
  | StorageNotInitialized
  | StorageMissing
  | AllocationMisaligned
  | ZeroSizedAllocation
  | ParentMissing

text \<open>
  Undefined behaviour is kept apart from a panic: the code has \<open>unsafe\<close> blocks whose
  soundness is one of the things to prove.
\<close>

datatype undefined_behaviour =
    DanglingRead
  | DanglingWrite
  | InvalidBool
  | ReadUninit
  | NullCall
  | InvalidFree

datatype fault = Panicked panic | Undefined undefined_behaviour

type_synonym 'a result = "fault + 'a"

text \<open>
  A program takes the state, may fail, and returns the state it has reached either way:
  a panic unwinds the stack but undoes no effect.
\<close>

type_synonym ('s, 'a) prog = "'s \<Rightarrow> (fault + 'a) \<times> 's"

section \<open>Programs\<close>

named_theorems prog_simps \<open>defining equations of the program combinators\<close>

definition ret :: "'a \<Rightarrow> ('s, 'a) prog" where [prog_simps]:
  "ret x = (\<lambda>s. (Inr x, s))"

definition throw :: "fault \<Rightarrow> ('s, 'a) prog" where [prog_simps]:
  "throw e = (\<lambda>s. (Inl e, s))"

abbreviation panic :: "panic \<Rightarrow> ('s, 'a) prog" where
  "panic p \<equiv> throw (Panicked p)"

definition bnd :: "('s, 'a) prog \<Rightarrow> ('a \<Rightarrow> ('s, 'b) prog) \<Rightarrow> ('s, 'b) prog" where [prog_simps]:
  "bnd m f = (\<lambda>s. case m s of (Inl e, t) \<Rightarrow> (Inl e, t) | (Inr x, t) \<Rightarrow> f x t)"

abbreviation seq :: "('s, unit) prog \<Rightarrow> ('s, 'b) prog \<Rightarrow> ('s, 'b) prog" where
  "seq m n \<equiv> bnd m (\<lambda>_. n)"

definition gets :: "('s \<Rightarrow> 'a) \<Rightarrow> ('s, 'a) prog" where [prog_simps]:
  "gets f = (\<lambda>s. (Inr (f s), s))"

definition update :: "('s \<Rightarrow> 's) \<Rightarrow> ('s, unit) prog" where [prog_simps]:
  "update f = (\<lambda>s. (Inr (), f s))"

definition of_result :: "'a result \<Rightarrow> ('s, 'a) prog" where [prog_simps]:
  "of_result r = (\<lambda>s. (r, s))"

lemma run_if [prog_simps]: "(if b then m else n) s = (if b then m s else n s)"
  by simp

text \<open>\<open>Option::unwrap\<close> and \<open>Option::expect\<close>: panic with the given message on \<open>None\<close>.\<close>

definition expect :: "panic \<Rightarrow> 'a option \<Rightarrow> ('s, 'a) prog" where [prog_simps]:
  "expect p v = (case v of None \<Rightarrow> panic p | Some x \<Rightarrow> ret x)"

text \<open>\<open>MaybeUninit::assume_init\<close>: undefined where nothing was written.\<close>

definition assume_init :: "'a option \<Rightarrow> ('s, 'a) prog" where [prog_simps]:
  "assume_init v = (case v of None \<Rightarrow> throw (Undefined ReadUninit) | Some x \<Rightarrow> ret x)"

text \<open>
  A function that returns \<open>io::Result\<close> gives the error as a value. \<open>trying\<close> is the \<open>?\<close>
  operator: it returns the error to the caller, or goes on with the value;
  \<open>unwrap_ok\<close> is \<open>Result::unwrap\<close>.
\<close>

definition trying ::
  "('s, 'e + 'a) prog \<Rightarrow> ('a \<Rightarrow> ('s, 'e + 'b) prog) \<Rightarrow> ('s, 'e + 'b) prog" where [prog_simps]:
  "trying m f = bnd m (\<lambda>r. case r of Inl e \<Rightarrow> ret (Inl e) | Inr x \<Rightarrow> f x)"

definition unwrap_ok :: "'e + 'a \<Rightarrow> ('s, 'a) prog" where [prog_simps]:
  "unwrap_ok r = (case r of Inl _ \<Rightarrow> panic UnwrapErr | Inr x \<Rightarrow> ret x)"

text \<open>Running a program on one component of a larger state.\<close>

definition zoom :: "('w \<Rightarrow> 's) \<Rightarrow> (('s \<Rightarrow> 's) \<Rightarrow> 'w \<Rightarrow> 'w) \<Rightarrow> ('s, 'a) prog \<Rightarrow> ('w, 'a) prog" where [prog_simps]:
  "zoom get upd m = (\<lambda>w. case m (get w) of (r, s) \<Rightarrow> (r, upd (\<lambda>_. s) w))"

text \<open>The same call, a number of times.\<close>

fun repeatedly :: "nat \<Rightarrow> ('s, unit) prog \<Rightarrow> ('s, unit) prog" where
  "repeatedly 0 m = ret ()"
| "repeatedly (Suc n) m = seq m (repeatedly n m)"

subsection \<open>Laws and inversion\<close>

lemma bnd_ret_left [simp]: "bnd (ret x) f = f x"
  by (simp add: prog_simps)

lemma bnd_throw_left [simp]: "bnd (throw e) f = throw e"
  by (simp add: prog_simps)

lemma bnd_ret_right [simp]: "bnd m ret = m"
  by (auto simp: prog_simps fun_eq_iff split: prod.splits sum.splits)

lemma seq_ret_unit [simp]: "seq m (ret ()) = m"
proof -
  have "(\<lambda>_. ret ()) = ret" by (rule ext) simp
  then show ?thesis by (metis bnd_ret_right)
qed

lemma bnd_assoc: "bnd (bnd m f) g = bnd m (\<lambda>x. bnd (f x) g)"
  by (auto simp: prog_simps fun_eq_iff split: prod.splits sum.splits)

named_theorems prog_inv \<open>what a run that ended in a given way did\<close>

lemma bnd_Inr_iff [prog_inv]:
  "bnd m f s = (Inr y, t) \<longleftrightarrow> (\<exists>x u. m s = (Inr x, u) \<and> f x u = (Inr y, t))"
  by (auto simp: bnd_def split: prod.splits sum.splits)

lemma bnd_Inl_iff [prog_inv]:
  "bnd m f s = (Inl e, t) \<longleftrightarrow>
     m s = (Inl e, t) \<or> (\<exists>x u. m s = (Inr x, u) \<and> f x u = (Inl e, t))"
  by (auto simp: bnd_def split: prod.splits sum.splits)

lemma bnd_run [simp]: "m s = (Inr x, t) \<Longrightarrow> bnd m f s = f x t"
  by (simp add: bnd_def)

lemma bnd_run_fault [simp]: "m s = (Inl e, t) \<Longrightarrow> bnd m f s = (Inl e, t)"
  by (simp add: bnd_def)

lemma ret_iff [prog_inv]: "ret x s = (r, t) \<longleftrightarrow> r = Inr x \<and> t = s"
  by (auto simp: ret_def)

lemma throw_iff [prog_inv]: "throw e s = (r, t) \<longleftrightarrow> r = Inl e \<and> t = s"
  by (auto simp: throw_def)

lemma gets_iff [prog_inv]: "gets f s = (r, t) \<longleftrightarrow> r = Inr (f s) \<and> t = s"
  by (auto simp: gets_def)

lemma update_iff [prog_inv]: "update f s = (r, t) \<longleftrightarrow> r = Inr () \<and> t = f s"
  by (auto simp: update_def)

lemma of_result_iff [prog_inv]: "of_result v s = (r, t) \<longleftrightarrow> r = v \<and> t = s"
  by (auto simp: of_result_def)

lemma expect_Inr_iff [prog_inv]: "expect p v s = (Inr x, t) \<longleftrightarrow> v = Some x \<and> t = s"
  by (auto simp: prog_simps split: option.splits)

lemma expect_Inl_iff [prog_inv]:
  "expect p v s = (Inl e, t) \<longleftrightarrow> v = None \<and> e = Panicked p \<and> t = s"
  by (auto simp: prog_simps split: option.splits)

lemma assume_init_Inr_iff [prog_inv]: "assume_init v s = (Inr x, t) \<longleftrightarrow> v = Some x \<and> t = s"
  by (auto simp: prog_simps split: option.splits)

lemma assume_init_Inl_iff [prog_inv]:
  "assume_init v s = (Inl e, t) \<longleftrightarrow> v = None \<and> e = Undefined ReadUninit \<and> t = s"
  by (auto simp: prog_simps split: option.splits)

lemma trying_Inr_iff [prog_inv]:
  "trying m f s = (Inr r, t) \<longleftrightarrow>
     (\<exists>e. m s = (Inr (Inl e), t) \<and> r = Inl e) \<or> (\<exists>x u. m s = (Inr (Inr x), u) \<and> f x u = (Inr r, t))"
  by (auto simp: trying_def prog_simps split: prod.splits sum.splits)

lemma trying_Inl_iff [prog_inv]:
  "trying m f s = (Inl e, t) \<longleftrightarrow>
     m s = (Inl e, t) \<or> (\<exists>x u. m s = (Inr (Inr x), u) \<and> f x u = (Inl e, t))"
  by (auto simp: trying_def prog_simps split: prod.splits sum.splits)

lemma trying_cases:
  assumes "trying m k s = (r, t)"
  obtains (faulted) e where "m s = (Inl e, t)" "r = Inl e"
  | (returned) e where "m s = (Inr (Inl e), t)" "r = Inr (Inl e)"
  | (goes_on) x u where "m s = (Inr (Inr x), u)" "k x u = (r, t)"
  using assms by (cases "m s") (auto simp: trying_def prog_simps split: sum.splits)

lemma unwrap_ok_Inr_iff [prog_inv]: "unwrap_ok r s = (Inr x, t) \<longleftrightarrow> r = Inr x \<and> t = s"
  by (auto simp: prog_simps split: sum.splits)

lemma unwrap_ok_Inl_iff [prog_inv]:
  "unwrap_ok r s = (Inl e, t) \<longleftrightarrow> (\<exists>x. r = Inl x) \<and> e = Panicked UnwrapErr \<and> t = s"
  by (auto simp: prog_simps split: sum.splits)

lemma zoom_iff [prog_inv]:
  "zoom get upd m w = (r, w') \<longleftrightarrow> (\<exists>s. m (get w) = (r, s) \<and> w' = upd (\<lambda>_. s) w)"
  by (auto simp: zoom_def split: prod.splits)

section \<open>Pre- and postconditions\<close>

text \<open>
  \<open>triple P m Q E\<close>: from a state satisfying \<open>P\<close>, a normal return \<open>x\<close> ends in \<open>Q x\<close>,
  a failure \<open>e\<close> in \<open>E e\<close>. The rules compose along the program's own sequencing.
\<close>

definition triple ::
  "('s \<Rightarrow> bool) \<Rightarrow> ('s, 'a) prog \<Rightarrow> ('a \<Rightarrow> 's \<Rightarrow> bool) \<Rightarrow> (fault \<Rightarrow> 's \<Rightarrow> bool) \<Rightarrow> bool" where
  "triple P m Q E \<longleftrightarrow>
     (\<forall>s. P s \<longrightarrow> (case m s of (Inl e, t) \<Rightarrow> E e t | (Inr x, t) \<Rightarrow> Q x t))"

lemma tripleI:
  assumes "\<And>s x t. P s \<Longrightarrow> m s = (Inr x, t) \<Longrightarrow> Q x t"
    and "\<And>s e t. P s \<Longrightarrow> m s = (Inl e, t) \<Longrightarrow> E e t"
  shows "triple P m Q E"
  using assms by (auto simp: triple_def split: prod.splits sum.splits)

lemma tripleD_Inr: "triple P m Q E \<Longrightarrow> P s \<Longrightarrow> m s = (Inr x, t) \<Longrightarrow> Q x t"
  by (auto simp: triple_def)

lemma tripleD_Inl: "triple P m Q E \<Longrightarrow> P s \<Longrightarrow> m s = (Inl e, t) \<Longrightarrow> E e t"
  by (auto simp: triple_def)

lemma triple_bnd:
  assumes "triple P m R E" and "\<And>x. triple (R x) (f x) Q E"
  shows "triple P (bnd m f) Q E"
proof (rule tripleI)
  fix s y t assume "P s" and "bnd m f s = (Inr y, t)"
  then obtain x u where "m s = (Inr x, u)" and "f x u = (Inr y, t)"
    by (auto simp: prog_inv)
  then show "Q y t"
    using tripleD_Inr [OF assms(1) \<open>P s\<close>] tripleD_Inr [OF assms(2)] by blast
next
  fix s e t assume "P s" and "bnd m f s = (Inl e, t)"
  then consider "m s = (Inl e, t)" | x u where "m s = (Inr x, u)" "f x u = (Inl e, t)"
    by (auto simp: prog_inv)
  then show "E e t"
  proof cases
    case 1
    then show ?thesis by (rule tripleD_Inl [OF assms(1) \<open>P s\<close>])
  next
    case 2
    then show ?thesis
      using tripleD_Inr [OF assms(1) \<open>P s\<close>] tripleD_Inl [OF assms(2)] by blast
  qed
qed

lemma triple_weaken:
  assumes "triple P m Q E" and "\<And>s. P' s \<Longrightarrow> P s"
    and "\<And>x s. Q x s \<Longrightarrow> Q' x s" and "\<And>e s. E e s \<Longrightarrow> E' e s"
  shows "triple P' m Q' E'"
proof (rule tripleI)
  fix s x t assume "P' s" and "m s = (Inr x, t)"
  then show "Q' x t" using tripleD_Inr [OF assms(1)] assms(2,3) by blast
next
  fix s e t assume "P' s" and "m s = (Inl e, t)"
  then show "E' e t" using tripleD_Inl [OF assms(1)] assms(2,4) by blast
qed

lemma triple_ret: "triple (Q x) (ret x) Q E"
  by (simp add: triple_def prog_simps)

lemma triple_throw: "triple (E e) (throw e) Q E"
  by (simp add: triple_def prog_simps)

text \<open>
  \<open>yields P m Q\<close>: from a state satisfying \<open>P\<close> the program returns, and with \<open>Q\<close>.
\<close>

definition yields :: "('s \<Rightarrow> bool) \<Rightarrow> ('s, 'a) prog \<Rightarrow> ('a \<Rightarrow> 's \<Rightarrow> bool) \<Rightarrow> bool" where
  "yields P m Q \<longleftrightarrow> (\<forall>s. P s \<longrightarrow> (\<exists>x t. m s = (Inr x, t) \<and> Q x t))"

lemma yieldsI: "(\<And>s. P s \<Longrightarrow> \<exists>x t. m s = (Inr x, t) \<and> Q x t) \<Longrightarrow> yields P m Q"
  by (simp add: yields_def)

lemma yieldsD: "yields P m Q \<Longrightarrow> P s \<Longrightarrow> \<exists>x t. m s = (Inr x, t) \<and> Q x t"
  by (simp add: yields_def)

lemma yields_bnd:
  assumes "yields P m R" and "\<And>x. yields (R x) (f x) Q"
  shows "yields P (bnd m f) Q"
proof (rule yieldsI)
  fix s assume "P s"
  with assms(1) obtain x u where "m s = (Inr x, u)" "R x u" by (blast dest: yieldsD)
  with yieldsD [OF assms(2)] show "\<exists>y t. bnd m f s = (Inr y, t) \<and> Q y t" by fastforce
qed

lemma yields_ret: "yields (Q x) (ret x) Q"
  by (simp add: yields_def ret_def)

lemma yields_weaken: "yields P m Q \<Longrightarrow> (\<And>s. P' s \<Longrightarrow> P s) \<Longrightarrow> (\<And>x s. Q x s \<Longrightarrow> Q' x s) \<Longrightarrow> yields P' m Q'"
  unfolding yields_def by metis

section \<open>Simulation\<close>

text \<open>
  A sequence of operations, run until one fails in a way that stops the run; other
  failures are outcomes like any other.
\<close>

fun run_ops :: "(fault \<Rightarrow> bool) \<Rightarrow> ('op \<Rightarrow> ('s, 'v) prog) \<Rightarrow> 'op list \<Rightarrow> 's \<Rightarrow> 'v result list \<times> 's" where
  "run_ops stops step [] s = ([], s)"
| "run_ops stops step (x # xs) s =
     (case step x s of
        (Inl e, t) \<Rightarrow>
          if stops e then ([Inl e], t)
          else (case run_ops stops step xs t of (rs, u) \<Rightarrow> (Inl e # rs, u))
      | (Inr v, t) \<Rightarrow> (case run_ops stops step xs t of (rs, u) \<Rightarrow> (Inr v # rs, u)))"

text \<open>
  An implementation simulates its specification when each legal operation either stops, or
  has the specified outcome and ends in a related state. Whole runs follow.
\<close>

locale implements =
  fixes step :: "'op \<Rightarrow> ('s, 'v) prog" and spec :: "'op \<Rightarrow> ('a, 'v) prog"
    and rel :: "'s \<Rightarrow> 'a \<Rightarrow> bool" and stops :: "fault \<Rightarrow> bool" and legal :: "'op \<Rightarrow> bool"
  assumes simulates: "rel s a \<Longrightarrow> legal x \<Longrightarrow> step x s = (r, t) \<Longrightarrow>
      (\<exists>e. r = Inl e \<and> stops e) \<or> (\<exists>b. spec x a = (r, b) \<and> rel t b)"
    and spec_never_stops: "spec x a = (Inl e, b) \<Longrightarrow> \<not> stops e"
begin

lemma runs_refine:
  assumes "rel s a" and "\<forall>x\<in>set xs. legal x" and "run_ops stops step xs s = (rs, t)"
    and "run_ops stops spec xs a = (qs, b)"
  shows "(rs = qs \<and> rel t b) \<or>
    (\<exists>k e. k < length xs \<and> stops e \<and> rs = take k qs @ [Inl e])"
  using assms
proof (induction xs arbitrary: s a rs qs)
  case (Cons x xs)
  obtain r u where u: "step x s = (r, u)" by fastforce
  from simulates [OF Cons.prems(1) _ u] Cons.prems(2) consider
    (stop) e where "r = Inl e" "stops e" | (go) c where "spec x a = (r, c)" "rel u c" by auto
  then show ?case
  proof cases
    case stop
    with Cons.prems(3) u have "rs = take 0 qs @ [Inl e]" by simp
    with stop show ?thesis by (intro disjI2 exI [of _ 0] exI [of _ e]) simp
  next
    case go
    obtain rs' t' where rs': "run_ops stops step xs u = (rs', t')" by fastforce
    obtain qs' b' where qs': "run_ops stops spec xs c = (qs', b')" by fastforce
    have "\<not> stops e" if "r = Inl e" for e using spec_never_stops go(1) that by blast
    with Cons.prems(3,4) u go rs' qs' have eq: "rs = r # rs'" "qs = r # qs'" "t' = t" "b' = b"
      by (auto split: sum.splits)
    from Cons.IH [OF go(2) _ rs' [unfolded eq] qs' [unfolded eq]] Cons.prems(2) consider
      "rs' = qs'" "rel t b" | k e where "k < length xs" "stops e" "rs' = take k qs' @ [Inl e]" by auto
    then show ?thesis
    proof cases
      case 1
      with eq show ?thesis by simp
    next
      case 2
      with eq show ?thesis by (intro disjI2 exI [of _ "Suc k"] exI [of _ e]) simp
    qed
  qed
qed simp

end

section \<open>Traces\<close>

text \<open>
  The runs of a step relation whose steps are labelled by what is done, and the invariants
  that legal labels keep; what is seen of a step may depend on the invariant.
\<close>

inductive runs :: "('s \<Rightarrow> 'a \<Rightarrow> 's \<Rightarrow> bool) \<Rightarrow> 's \<Rightarrow> 'a list \<Rightarrow> 's \<Rightarrow> bool"
  for step where
  runs_nil: "runs step s [] s"
| runs_cons: "step s a t \<Longrightarrow> runs step t as u \<Longrightarrow> runs step s (a # as) u"

inductive_simps runs_Nil_iff [simp]: "runs step s [] t"
inductive_simps runs_Cons_iff: "runs step s (a # as) t"

lemma runs_single: "step s a t \<Longrightarrow> runs step s [a] t"
  by (simp add: runs_Cons_iff)

locale guarded_invariant =
  fixes step :: "'s \<Rightarrow> 'a \<Rightarrow> 's \<Rightarrow> bool" and inv :: "'s \<Rightarrow> bool"
    and legal :: "'a \<Rightarrow> bool" and seen :: "'a \<Rightarrow> bool"
  assumes kept: "inv s \<Longrightarrow> legal a \<Longrightarrow> step s a t \<Longrightarrow> inv t \<and> seen a"
begin

lemma runs_kept: "runs step s as t \<Longrightarrow> inv s \<Longrightarrow> list_all legal as \<Longrightarrow> inv t \<and> list_all seen as"
  by (induction rule: runs.induct) (auto dest: kept)

end

section \<open>Lists\<close>

lemma takeWhile_id: "\<forall>x\<in>set xs. P x \<Longrightarrow> takeWhile P xs = xs"
  by (simp add: takeWhile_eq_all_conv)

lemma takeWhile_append_stop:
  "\<forall>x\<in>set xs. P x \<Longrightarrow> (ys \<noteq> [] \<Longrightarrow> \<not> P (hd ys)) \<Longrightarrow> takeWhile P (xs @ ys) = xs"
  by (cases ys) (simp_all add: takeWhile_id)

lemma dropWhile_append_stop:
  "\<forall>x\<in>set xs. P x \<Longrightarrow> (ys \<noteq> [] \<Longrightarrow> \<not> P (hd ys)) \<Longrightarrow> dropWhile P (xs @ ys) = ys"
  by (cases ys) simp_all

lemma length_dropWhile_less: "xs \<noteq> [] \<Longrightarrow> P (hd xs) \<Longrightarrow> length (dropWhile P xs) < length xs"
  by (cases xs) (simp_all add: length_dropWhile_le less_Suc_eq_le)

end
