(* ===== verification/FileSystem.thy ===== *)
theory FileSystem
  imports Prelude
begin

text \<open>
  The part of Rust's standard library the agent uses for files: paths as their
  components (which is what \<open>Path\<close> compares), \<open>PathBuf::push\<close>, \<open>Path::parent\<close>, and a
  file system with the operations of \<open>std::fs\<close> that are called. Any operation may fail:
  the state holds a plan of the faults to come, and a failing write leaves the part of
  the data it had written.
\<close>

section \<open>Paths\<close>

datatype component = RootDir | CurDir | ParentDir | Normal string

type_synonym path = "component list"

fun split_slash :: "string \<Rightarrow> string list" where
  "split_slash [] = [[]]"
| "split_slash (c # cs) =
     (if c = CHR ''/'' then [] # split_slash cs
      else (case split_slash cs of [] \<Rightarrow> [[c]] | w # ws \<Rightarrow> (c # w) # ws))"

definition segment :: "string \<Rightarrow> component list" where
  "segment w =
     (if w = [] \<or> w = ''.'' then [] else if w = ''..'' then [ParentDir] else [Normal w])"

text \<open>
  \<open>Path::components\<close>: a leading slash is the root, empty segments and dots are dropped
  but for a dot at the start of a relative path.
\<close>

definition components :: "string \<Rightarrow> path" where
  "components s =
     (if s = [] then []
      else if hd s = CHR ''/'' then RootDir # concat (map segment (split_slash (tl s)))
      else if hd (split_slash s) = ''.'' then CurDir # concat (map segment (tl (split_slash s)))
      else concat (map segment (split_slash s)))"

definition is_absolute :: "path \<Rightarrow> bool" where
  "is_absolute p \<longleftrightarrow> p \<noteq> [] \<and> hd p = RootDir"

text \<open>\<open>PathBuf::push\<close>: an absolute path replaces the buffer.\<close>

definition path_push :: "path \<Rightarrow> path \<Rightarrow> path" where
  "path_push buf p =
     (if is_absolute p \<or> buf = [] then p else buf @ filter (\<lambda>c. c \<noteq> CurDir) p)"

text \<open>\<open>Path::parent\<close>: none for the root and for the empty path.\<close>

definition path_parent :: "path \<Rightarrow> path option" where
  "path_parent p = (if p = [] \<or> last p = RootDir then None else Some (butlast p))"

text \<open>The text of a path, for \<open>to_str\<close>.\<close>

fun component_str :: "component \<Rightarrow> string" where
  "component_str RootDir = []"
| "component_str CurDir = ''.''"
| "component_str ParentDir = ''..''"
| "component_str (Normal s) = s"

fun path_str :: "path \<Rightarrow> string" where
  "path_str [] = []"
| "path_str [c] = (if c = RootDir then ''/'' else component_str c)"
| "path_str (c # d # p) = component_str c @ CHR ''/'' # path_str (d # p)"

section \<open>Files\<close>

type_synonym byte = char

datatype node = Dir | File "byte list"

datatype io_error =
    NotFound
  | AlreadyExists
  | NotADirectory
  | IsADirectory
  | PermissionDenied
  | StorageFull
  | BrokenPipe
  | Other

text \<open>What the environment does to the next operation on the disk.\<close>

datatype io_outcome = Fine | Fails io_error | Stops nat io_error

record fsys =
  nodes :: "path \<rightharpoonup> node"
  plan :: "io_outcome list"

text \<open>Each operation that reaches the disk takes its outcome from the plan.\<close>

definition outcome :: "(fsys, io_outcome) prog" where
  "outcome = (\<lambda>f. case plan f of [] \<Rightarrow> (Inr Fine, f) | x # xs \<Rightarrow> (Inr x, f\<lparr>plan := xs\<rparr>))"

definition is_dir :: "fsys \<Rightarrow> path \<Rightarrow> bool" where
  "is_dir f p \<longleftrightarrow> p = [] \<or> p = [RootDir] \<or> nodes f p = Some Dir"

text \<open>
  \<open>Path::exists\<close> is false when the path cannot be looked at, as the empty one, which only
  stands for a directory where it is the parent of a relative path.
\<close>

definition path_exists :: "path \<Rightarrow> (fsys, bool) prog" where
  "path_exists p = bnd outcome (\<lambda>x. gets (\<lambda>f. x = Fine \<and> p \<noteq> [] \<and> (is_dir f p \<or> nodes f p \<noteq> None)))"

definition make_dir :: "path \<Rightarrow> (fsys, io_error + unit) prog" where
  "make_dir p = bnd outcome (\<lambda>x. bnd (gets (\<lambda>f. (is_dir f p, nodes f p))) (\<lambda>(dir, n).
     if dir then ret (Inr ())
     else if n \<noteq> None then ret (Inl AlreadyExists)
     else (case x of
             Fine \<Rightarrow> bnd (update (\<lambda>f. f\<lparr>nodes := (nodes f)(p \<mapsto> Dir)\<rparr>)) (\<lambda>_. ret (Inr ()))
           | Fails e \<Rightarrow> ret (Inl e)
           | Stops _ e \<Rightarrow> ret (Inl e))))"

text \<open>\<open>fs::create_dir_all\<close>: every directory on the way, outermost first.\<close>

fun make_dirs :: "path list \<Rightarrow> (fsys, io_error + unit) prog" where
  "make_dirs [] = ret (Inr ())"
| "make_dirs (p # ps) = trying (make_dir p) (\<lambda>_. make_dirs ps)"

fun inits :: "path \<Rightarrow> path list" where
  "inits [] = []"
| "inits (c # p) = [c] # map ((#) c) (inits p)"

definition create_dir_all :: "path \<Rightarrow> (fsys, io_error + unit) prog" where
  "create_dir_all p = make_dirs (inits p)"

text \<open>\<open>File::create\<close>: a new or truncated file in an existing directory.\<close>

definition file_create :: "path \<Rightarrow> (fsys, io_error + path) prog" where
  "file_create p = bnd outcome (\<lambda>x. bnd (gets (\<lambda>f. (is_dir f p, is_dir f (butlast p)))) (\<lambda>(dir, parent).
     if dir then ret (Inl IsADirectory)
     else if \<not> parent then ret (Inl NotFound)
     else (case x of
             Fine \<Rightarrow> bnd (update (\<lambda>f. f\<lparr>nodes := (nodes f)(p \<mapsto> File [])\<rparr>)) (\<lambda>_. ret (Inr p))
           | Fails e \<Rightarrow> ret (Inl e)
           | Stops _ e \<Rightarrow> ret (Inl e))))"

text \<open>\<open>write_all\<close> on a file just created: the data, or on a fault the part that was written.\<close>

definition file_write_all :: "path \<Rightarrow> byte list \<Rightarrow> (fsys, io_error + unit) prog" where
  "file_write_all h data = bnd outcome (\<lambda>x.
     case x of
       Fine \<Rightarrow> bnd (update (\<lambda>f. f\<lparr>nodes := (nodes f)(h \<mapsto> File data)\<rparr>)) (\<lambda>_. ret (Inr ()))
     | Fails e \<Rightarrow> ret (Inl e)
     | Stops n e \<Rightarrow>
         bnd (update (\<lambda>f. f\<lparr>nodes := (nodes f)(h \<mapsto> File (take n data))\<rparr>)) (\<lambda>_. ret (Inl e)))"

definition file_sync_all :: "path \<Rightarrow> (fsys, io_error + unit) prog" where
  "file_sync_all h = bnd outcome (\<lambda>x.
     case x of Fine \<Rightarrow> ret (Inr ()) | Fails e \<Rightarrow> ret (Inl e) | Stops _ e \<Rightarrow> ret (Inl e))"

section \<open>What the operations change\<close>

text \<open>
  Making directories only adds directories where nothing was. A run with nothing left in
  the plan is fault free.
\<close>

definition dirs_added :: "fsys \<Rightarrow> fsys \<Rightarrow> bool" where
  "dirs_added f g \<longleftrightarrow> (\<forall>q. nodes g q = nodes f q \<or> nodes f q = None \<and> nodes g q = Some Dir)"

lemma dirs_added_refl [intro]: "nodes g = nodes f \<Longrightarrow> dirs_added f g"
  by (simp add: dirs_added_def)

lemma dirs_added_trans: "dirs_added f g \<Longrightarrow> dirs_added g h \<Longrightarrow> dirs_added f h"
  unfolding dirs_added_def by metis

lemma dirs_added_is_dir: "dirs_added f g \<Longrightarrow> is_dir f p \<Longrightarrow> is_dir g p"
  unfolding dirs_added_def is_dir_def by (metis option.distinct(1))

lemma dirs_added_file: "dirs_added f g \<Longrightarrow> nodes f p = Some n \<Longrightarrow> nodes g p = Some n"
  unfolding dirs_added_def by (metis option.distinct(1))

lemma outcome_cases:
  assumes "outcome f = (r, g)"
  obtains x where "r = Inr x" and "nodes g = nodes f" and "plan f = [] \<Longrightarrow> x = Fine \<and> g = f"
  using assms by (cases "plan f") (auto simp: outcome_def)

lemma is_dir_nodes: "nodes g = nodes f \<Longrightarrow> is_dir g p = is_dir f p"
  by (simp add: is_dir_def)

lemma make_dir_cases:
  assumes "make_dir p f = (r, g)"
  shows "dirs_added f g \<and> (\<exists>x. r = Inr x) \<and> (r = Inr (Inr ()) \<longrightarrow> is_dir g p)"
proof -
  obtain x u where o: "outcome f = (Inr x, u)" and u: "nodes u = nodes f"
    by (metis outcome_cases surj_pair)
  from assms o u show ?thesis
    by (cases x) (auto simp: make_dir_def prog_simps dirs_added_def is_dir_def split: if_splits)
qed

lemma make_dirs_cases:
  "make_dirs ps f = (r, g) \<Longrightarrow>
   dirs_added f g \<and> (\<exists>x. r = Inr x) \<and> (r = Inr (Inr ()) \<longrightarrow> (\<forall>p\<in>set ps. is_dir g p))"
proof (induction ps arbitrary: f r)
  case Nil
  then show ?case by (auto simp: prog_simps)
next
  case (Cons p ps)
  obtain q u where q: "make_dir p f = (q, u)" by fastforce
  note step = make_dir_cases [OF q]
  then obtain x where x: "q = Inr x" by blast
  show ?case
  proof (cases x)
    case (Inl e)
    with Cons.prems q x step show ?thesis by (auto simp: prog_simps)
  next
    case (Inr v)
    with Cons.prems q x have "make_dirs ps u = (r, g)" by (simp add: prog_simps)
    from Cons.IH [OF this] step Inr x show ?thesis
      by (auto intro: dirs_added_trans dirs_added_is_dir)
  qed
qed

text \<open>
  \<open>quiet k pl\<close>: the next \<open>k\<close> operations meet no fault. An empty plan is quiet for ever.
\<close>

definition quiet :: "nat \<Rightarrow> io_outcome list \<Rightarrow> bool" where
  "quiet k pl \<longleftrightarrow> (\<forall>x\<in>set (take k pl). x = Fine)"

lemma quiet_Nil [simp]: "quiet k []"
  by (simp add: quiet_def)

lemma quiet_replicate [simp]: "quiet k (replicate k Fine @ pl)"
  by (simp add: quiet_def)

lemma quiet_Fine [simp]: "quiet (Suc k) (Fine # pl) = quiet k pl"
  by (simp add: quiet_def)

lemma quiet_Suc: "quiet (Suc k) pl \<Longrightarrow> quiet k (drop 1 pl)"
  by (cases pl) (simp_all add: quiet_def)

lemma quiet_split: "quiet (n + m) pl \<Longrightarrow> quiet n pl \<and> quiet m (drop n pl)"
  by (simp add: quiet_def take_add ball_Un)

lemma outcome_quiet: "quiet (Suc k) (plan f) \<Longrightarrow> outcome f = (Inr Fine, f\<lparr>plan := drop 1 (plan f)\<rparr>)"
  by (cases "plan f") (simp_all add: outcome_def quiet_def)

lemma make_dir_quiet:
  assumes "quiet (Suc k) (plan f)" and "\<And>d. nodes f p \<noteq> Some (File d)"
  shows "make_dir p f = (Inr (Inr ()), f\<lparr>plan := drop 1 (plan f),
     nodes := if is_dir f p then nodes f else (nodes f)(p \<mapsto> Dir)\<rparr>)"
proof (cases "is_dir f p")
  case True
  with outcome_quiet [OF assms(1)] show ?thesis by (simp add: make_dir_def prog_simps is_dir_def)
next
  case False
  then have "nodes f p = None"
    using assms(2) by (metis is_dir_def node.exhaust not_Some_eq)
  with False outcome_quiet [OF assms(1)] show ?thesis
    by (simp add: make_dir_def prog_simps is_dir_def)
qed

lemma make_dirs_quiet:
  assumes "quiet (length ps) (plan f)" and "\<And>p d. p \<in> set ps \<Longrightarrow> nodes f p \<noteq> Some (File d)"
  shows "\<exists>g. make_dirs ps f = (Inr (Inr ()), g) \<and> plan g = drop (length ps) (plan f) \<and>
    (\<forall>q. q \<notin> set ps \<longrightarrow> nodes g q = nodes f q)"
  using assms
proof (induction ps arbitrary: f)
  case (Cons p ps)
  let ?g = "f\<lparr>plan := drop 1 (plan f),
     nodes := if is_dir f p then nodes f else (nodes f)(p \<mapsto> Dir)\<rparr>"
  have p: "make_dir p f = (Inr (Inr ()), ?g)"
    using Cons.prems by (intro make_dir_quiet) simp_all
  have "nodes ?g q \<noteq> Some (File d)" if "q \<in> set ps" for q d
    using Cons.prems(2) [of q d] that by simp
  moreover have "quiet (length ps) (plan ?g)" using Cons.prems(1) quiet_Suc by simp
  ultimately obtain h where "make_dirs ps ?g = (Inr (Inr ()), h)"
    "plan h = drop (length ps) (plan ?g)" "\<forall>q. q \<notin> set ps \<longrightarrow> nodes h q = nodes ?g q"
    using Cons.IH [of ?g] by blast
  with p show ?case by (auto simp: prog_simps)
qed (simp add: prog_simps)

lemma inits_last: "p \<noteq> [] \<Longrightarrow> p \<in> set (inits p)"
  by (induction p) auto

lemma inits_prefix: "q \<in> set (inits p) \<Longrightarrow> q \<noteq> [] \<and> (\<exists>r. p = q @ r)"
  by (induction p arbitrary: q) auto

lemma inits_shorter: "q \<in> set (inits p) \<Longrightarrow> length q \<le> length p"
  using inits_prefix by fastforce

end
