(* ===== verification/Utf8.thy ===== *)
theory Utf8
  imports FileSystem
begin

text \<open>
  UTF-8 as Rust's \<open>str::from_utf8\<close> and \<open>CStr::to_str\<close> check it, over bytes, and the C
  strings the JVM hands to the agent. A Rust \<open>str\<close> is modelled by its bytes; everything the
  option grammar accepts is ASCII, where bytes and characters agree.
\<close>

definition byte_in :: "nat \<Rightarrow> nat \<Rightarrow> byte \<Rightarrow> bool" where
  "byte_in lo hi c \<longleftrightarrow> lo \<le> of_char c \<and> of_char c \<le> hi"

definition ascii_char :: "byte \<Rightarrow> bool" where
  "ascii_char c \<longleftrightarrow> byte_in 0 127 c"

abbreviation continuation :: "byte \<Rightarrow> bool" where
  "continuation \<equiv> byte_in 128 191"

text \<open>
  The number of further bytes a first byte announces, with the range of the second one: no
  overlong forms, no surrogates, nothing above the last code point.
\<close>

definition utf8_lead :: "byte \<Rightarrow> (nat \<times> nat \<times> nat) option" where
  "utf8_lead c =
     (if byte_in 194 223 c then Some (0, 128, 191)
      else if byte_in 224 224 c then Some (1, 160, 191)
      else if byte_in 225 236 c \<or> byte_in 238 239 c then Some (1, 128, 191)
      else if byte_in 237 237 c then Some (1, 128, 159)
      else if byte_in 240 240 c then Some (2, 144, 191)
      else if byte_in 241 243 c then Some (2, 128, 191)
      else if byte_in 244 244 c then Some (2, 128, 143)
      else None)"

text \<open>
  The validator as a scanner: between characters, or inside one with so many bytes to go
  and a range for the next.
\<close>

datatype scan = Between | Inside nat nat nat

fun utf8_scan :: "scan \<Rightarrow> byte list \<Rightarrow> bool" where
  "utf8_scan Between [] = True"
| "utf8_scan (Inside n lo hi) [] = False"
| "utf8_scan Between (c # cs) =
     (if ascii_char c then utf8_scan Between cs
      else (case utf8_lead c of None \<Rightarrow> False | Some (n, lo, hi) \<Rightarrow> utf8_scan (Inside n lo hi) cs))"
| "utf8_scan (Inside n lo hi) (c # cs) =
     (byte_in lo hi c \<and> utf8_scan (if n = 0 then Between else Inside (n - 1) 128 191) cs)"

definition utf8_valid :: "byte list \<Rightarrow> bool" where
  "utf8_valid s = utf8_scan Between s"

lemma utf8_valid_Nil [simp]: "utf8_valid []"
  by (simp add: utf8_valid_def)

lemma utf8_valid_ascii_Cons: "ascii_char c \<Longrightarrow> utf8_valid (c # s) = utf8_valid s"
  by (simp add: utf8_valid_def)

lemma utf8_valid_ascii: "\<forall>c\<in>set s. ascii_char c \<Longrightarrow> utf8_valid s"
  by (induction s) (simp_all add: utf8_valid_ascii_Cons)

text \<open>A C string ends before its first NUL byte.\<close>

definition cstr_bytes :: "byte list \<Rightarrow> byte list" where
  "cstr_bytes buf = takeWhile (\<lambda>c. c \<noteq> CHR 0x00) buf"

definition cstr_ok :: "byte list \<Rightarrow> bool" where
  "cstr_ok s \<longleftrightarrow> CHR 0x00 \<notin> set s"

text \<open>\<open>CString::new\<close> fails on an interior NUL.\<close>

definition cstring_new :: "byte list \<Rightarrow> unit + byte list" where
  "cstring_new s = (if cstr_ok s then Inr s else Inl ())"

text \<open>\<open>CStr::to_str\<close> and \<open>str::from_utf8\<close>.\<close>

definition to_str :: "byte list \<Rightarrow> unit + string" where
  "to_str s = (if utf8_valid s then Inr s else Inl ())"

definition starts_with :: "string \<Rightarrow> string \<Rightarrow> bool" where
  "starts_with s p \<longleftrightarrow> take (length p) s = p"

end
