(* ===== verification/Recorder.thy ===== *)
theory Recorder
  imports Prelude
begin

text \<open>
  The event forwarding channel, \<^verbatim>\<open>phasicj/agent/recorder.rs\<close>, and the native method that
  feeds it, \<^verbatim>\<open>Java_phasicj_agent_rt_ApplicationEvents_monitorEnter\<close> of
  \<^verbatim>\<open>phasicj/agent/jvm/entrypoints.rs\<close>. The static is a mutex over an optional sender: a
  panic while it is held poisons it. Application threads, the thread that starts the
  worker, and the workers interleave; the mutex makes each of their operations atomic.
\<close>

section \<open>Channels\<close>

text \<open>
  A channel of \<^verbatim>\<open>std::sync::mpsc\<close> with its messages, oldest first, and whether each end is
  alive. \<open>sent\<close> and \<open>forwarded\<close> record what went in and what the worker has handled.
\<close>

record channel =
  queue :: "unit list"
  sender_alive :: bool
  receiver_alive :: bool
  sent :: nat
  forwarded :: nat

definition new_channel :: channel where
  "new_channel =
     \<lparr>queue = [], sender_alive = True, receiver_alive = True, sent = 0, forwarded = 0\<rparr>"

text \<open>
  The process-wide state: the static \<open>EVENT_FORWARDING_CHANNEL\<close> (poisoned or not, and the
  index of the channel whose sender it holds), and every channel made so far with the
  worker thread that owns its receiver.
\<close>

record recorder =
  poisoned :: bool
  event_sender :: "nat option"
  channels :: "channel list"

definition initial_recorder :: recorder where
  "initial_recorder = \<lparr>poisoned = False, event_sender = None, channels = []\<rparr>"

definition channel_update :: "nat \<Rightarrow> (channel \<Rightarrow> channel) \<Rightarrow> recorder \<Rightarrow> recorder" where
  "channel_update i f r = r\<lparr>channels := (channels r)[i := f (channels r ! i)]\<rparr>"

section \<open>Operations\<close>

text \<open>
  \<open>Mutex::lock().unwrap()\<close> panics on a poisoned mutex. A panic that unwinds through the
  guard poisons it.
\<close>

definition lock_unwrap :: "(recorder, unit) prog" where
  "lock_unwrap = bnd (gets poisoned) (\<lambda>b. if b then panic UnwrapErr else ret ())"

definition holding :: "(recorder, 'a) prog \<Rightarrow> (recorder, 'a) prog" where
  "holding m = (\<lambda>r. case m r of
     (Inl e, r') \<Rightarrow> (Inl e, r'\<lparr>poisoned := True\<rparr>)
   | (Inr x, r') \<Rightarrow> (Inr x, r'))"

definition drop_sender :: "nat option \<Rightarrow> (recorder, unit) prog" where
  "drop_sender s =
     (case s of None \<Rightarrow> ret () | Some i \<Rightarrow> update (channel_update i (\<lambda>c. c\<lparr>sender_alive := False\<rparr>)))"

text \<open>
  The new channel is made first; where the lock cannot be had, both of its ends are
  dropped by the unwinding. The assignment through the guard drops the sender it
  replaces.
\<close>

definition start_forwarding_worker_thread :: "(recorder, unit) prog" where
  "start_forwarding_worker_thread =
     bnd (gets (\<lambda>r. length (channels r))) (\<lambda>tx.
     seq (update (\<lambda>r. r\<lparr>channels := channels r @ [new_channel]\<rparr>))
     (\<lambda>r. case lock_unwrap r of
        (Inl e, r') \<Rightarrow>
          (Inl e, channel_update tx (\<lambda>c. c\<lparr>sender_alive := False, receiver_alive := False\<rparr>) r')
      | (Inr _, r') \<Rightarrow>
          bnd (gets event_sender) (\<lambda>old.
          seq (update (\<lambda>r. r\<lparr>event_sender := Some tx\<rparr>))
          (drop_sender old)) r'))"

text \<open>\<open>Sender::send\<close> fails when the receiver is gone.\<close>

definition send_event :: "nat \<Rightarrow> (recorder, unit + unit) prog" where
  "send_event i =
     bnd (gets (\<lambda>r. receiver_alive (channels r ! i))) (\<lambda>alive.
     if alive then
       seq (update (channel_update i (\<lambda>c. c\<lparr>queue := queue c @ [()], sent := Suc (sent c)\<rparr>)))
         (ret (Inr ()))
     else ret (Inl ()))"

definition monitorEnter :: "(recorder, unit) prog" where
  "monitorEnter =
     seq lock_unwrap
       (holding
         (bnd (gets event_sender) (\<lambda>s.
          bnd (expect UnwrapNone s) (\<lambda>tx.
          bnd (send_event tx) unwrap_ok))))"

text \<open>\<open>monitorExit\<close> only logs.\<close>

definition monitorExit :: "(recorder, unit) prog" where
  "monitorExit = ret ()"

text \<open>
  One round of a worker's loop. \<open>recv\<close> takes the oldest message, blocks while there is
  none and the sender lives (no step), and fails when the sender is gone; the \<open>unwrap\<close>
  then panics and ends the thread, dropping the receiver.
\<close>

definition worker_round :: "nat \<Rightarrow> recorder \<Rightarrow> recorder option" where
  "worker_round i r =
     (let c = channels r ! i in
      if i < length (channels r) \<and> receiver_alive c then
        (case queue c of
           _ # q \<Rightarrow> Some (channel_update i (\<lambda>c. c\<lparr>queue := q, forwarded := Suc (forwarded c)\<rparr>) r)
         | [] \<Rightarrow>
             if sender_alive c then None
             else Some (channel_update i (\<lambda>c. c\<lparr>receiver_alive := False\<rparr>) r))
      else None)"

text \<open>
  A turn of a worker as its thread sees it: a blocked one leaves everything as it is, and the
  one that finds the channel empty and its sender gone panics. \<open>thread::spawn\<close> keeps a panic
  from going further: it is the result of the thread, which nobody joins.
\<close>

definition worker_turn :: "nat \<Rightarrow> (recorder, unit) prog" where
  "worker_turn i = (\<lambda>r.
     case worker_round i r of
       None \<Rightarrow> (Inr (), r)
     | Some s \<Rightarrow> if queue (channels r ! i) = [] then (Inl (Panicked UnwrapErr), s) else (Inr (), s))"

definition on_own_thread :: "('s, unit) prog \<Rightarrow> ('s, unit) prog" where
  "on_own_thread m = (\<lambda>r. case m r of (Inl (Panicked p), s) \<Rightarrow> (Inr (), s) | (x, s) \<Rightarrow> (x, s))"

section \<open>Interleavings\<close>

text \<open>
  A step of the process is one operation of some thread; \<open>Enter\<close> carries whether the
  native method returned.
\<close>

datatype action = Start bool | Enter bool | Exit | Round nat

definition returned :: "(fault + 'a) \<times> 's \<Rightarrow> bool" where
  "returned x = (case fst x of Inl _ \<Rightarrow> False | Inr _ \<Rightarrow> True)"

inductive rec_step :: "recorder \<Rightarrow> action \<Rightarrow> recorder \<Rightarrow> bool" where
  start: "start_forwarding_worker_thread r = x \<Longrightarrow> rec_step r (Start (returned x)) (snd x)"
| enter: "monitorEnter r = x \<Longrightarrow> rec_step r (Enter (returned x)) (snd x)"
| exit: "monitorExit r = x \<Longrightarrow> rec_step r Exit (snd x)"
| round: "worker_round i r = Some r' \<Longrightarrow> rec_step r (Round i) r'"

abbreviation rec_run :: "recorder \<Rightarrow> action list \<Rightarrow> recorder \<Rightarrow> bool" where
  "rec_run \<equiv> runs rec_step"

inductive_cases startE: "rec_step r (Start b) s"
inductive_cases enterE: "rec_step r (Enter b) s"
inductive_cases roundE: "rec_step r (Round i) s"

section \<open>The invariant\<close>

text \<open>
  A channel's books balance, a dead receiver leaves nothing queued, exactly the sender in
  the static is alive, and its receiver lives too.
\<close>

definition channel_ok :: "channel \<Rightarrow> bool" where
  "channel_ok c \<longleftrightarrow>
     sent c = forwarded c + length (queue c) \<and> (\<not> receiver_alive c \<longrightarrow> queue c = [])"

definition rec_inv :: "recorder \<Rightarrow> bool" where
  "rec_inv r \<longleftrightarrow>
     (\<forall>c\<in>set (channels r). channel_ok c) \<and>
     (\<forall>i<length (channels r). sender_alive (channels r ! i) \<longleftrightarrow> event_sender r = Some i) \<and>
     (\<forall>i. event_sender r = Some i \<longrightarrow> i < length (channels r) \<and> receiver_alive (channels r ! i))"

lemma rec_inv_initial: "rec_inv initial_recorder"
  by (simp add: rec_inv_def initial_recorder_def)

lemma channel_update_simps [simp]:
  "length (channels (channel_update i f r)) = length (channels r)"
  "poisoned (channel_update i f r) = poisoned r"
  "event_sender (channel_update i f r) = event_sender r"
  by (simp_all add: channel_update_def)

lemma channel_update_nth:
  "i < length (channels r) \<Longrightarrow> channels (channel_update i f r) ! j =
     (if j = i then f (channels r ! i) else channels r ! j)"
  by (simp add: channel_update_def nth_list_update)

lemma rec_inv_update:
  assumes "rec_inv r" and "i < length (channels r)"
    and "channel_ok (f (channels r ! i))" and "sender_alive (f (channels r ! i)) = sender_alive (channels r ! i)"
    and "event_sender r = Some i \<Longrightarrow> receiver_alive (f (channels r ! i))"
  shows "rec_inv (channel_update i f r)"
  using assms
  by (auto simp: rec_inv_def channel_update_nth all_set_conv_all_nth)

lemma rec_inv_nth: "rec_inv r \<Longrightarrow> i < length (channels r) \<Longrightarrow> channel_ok (channels r ! i)"
  by (simp add: rec_inv_def)

text \<open>Each operation, on every branch.\<close>

lemma lock_unwrap_eq:
  "lock_unwrap r = (if poisoned r then (Inl (Panicked UnwrapErr), r) else (Inr (), r))"
  by (simp add: lock_unwrap_def prog_simps)

lemma start_poisoned:
  assumes "poisoned r"
  shows "start_forwarding_worker_thread r = (Inl (Panicked UnwrapErr),
    r\<lparr>channels := channels r @
      [new_channel\<lparr>sender_alive := False, receiver_alive := False\<rparr>]\<rparr>)"
  using assms
  by (simp add: start_forwarding_worker_thread_def prog_simps lock_unwrap_eq channel_update_def)

lemma start_fresh:
  assumes "\<not> poisoned r"
  shows "\<exists>s. start_forwarding_worker_thread r = (Inr (), s) \<and>
    s = (case event_sender r of
           None \<Rightarrow> r\<lparr>channels := channels r @ [new_channel], event_sender := Some (length (channels r))\<rparr>
         | Some i \<Rightarrow> channel_update i (\<lambda>c. c\<lparr>sender_alive := False\<rparr>)
             (r\<lparr>channels := channels r @ [new_channel], event_sender := Some (length (channels r))\<rparr>))"
  using assms
  by (auto simp: start_forwarding_worker_thread_def prog_simps lock_unwrap_eq drop_sender_def
      split: option.split)

lemma enter_poisoned: "poisoned r \<Longrightarrow> monitorEnter r = (Inl (Panicked UnwrapErr), r)"
  by (simp add: monitorEnter_def prog_simps lock_unwrap_eq)

lemma enter_no_sender:
  "\<not> poisoned r \<Longrightarrow> event_sender r = None \<Longrightarrow>
   monitorEnter r = (Inl (Panicked UnwrapNone), r\<lparr>poisoned := True\<rparr>)"
  by (simp add: monitorEnter_def prog_simps lock_unwrap_eq holding_def)

lemma enter_sender:
  assumes "rec_inv r" and "\<not> poisoned r" and "event_sender r = Some i"
  shows "monitorEnter r = (Inr (),
    channel_update i (\<lambda>c. c\<lparr>queue := queue c @ [()], sent := Suc (sent c)\<rparr>) r)"
  using assms
  by (simp add: monitorEnter_def prog_simps lock_unwrap_eq holding_def send_event_def rec_inv_def)

lemmas operation_cases = start_poisoned start_fresh enter_poisoned enter_no_sender enter_sender

lemma channel_ok_new [simp]: "channel_ok new_channel"
  "channel_ok (new_channel\<lparr>sender_alive := False, receiver_alive := False\<rparr>)"
  by (simp_all add: channel_ok_def new_channel_def)

lemma rec_inv_start:
  assumes "rec_inv r"
  shows "rec_inv (snd (start_forwarding_worker_thread r))"
proof (cases "poisoned r")
  case True
  with assms show ?thesis
    by (auto simp: start_poisoned rec_inv_def nth_append new_channel_def channel_ok_def less_Suc_eq)
next
  case False
  with start_fresh [OF False] assms show ?thesis
    by (auto simp: rec_inv_def nth_append all_set_conv_all_nth channel_update_nth new_channel_def
        channel_ok_def less_Suc_eq split: option.splits)
qed

lemma rec_inv_enter:
  assumes "rec_inv r"
  shows "rec_inv (snd (monitorEnter r))"
proof -
  consider (poisoned) "poisoned r" | (none) "\<not> poisoned r" "event_sender r = None"
    | (sender) i where "\<not> poisoned r" "event_sender r = Some i" by blast
  then show ?thesis
  proof cases
    case none
    with assms show ?thesis by (simp add: enter_no_sender rec_inv_def)
  next
    case (sender i)
    with assms have "i < length (channels r)" and "receiver_alive (channels r ! i)"
      by (auto simp: rec_inv_def)
    with assms sender rec_inv_nth [OF assms] show ?thesis
      by (simp add: enter_sender) (auto intro!: rec_inv_update simp: channel_ok_def)
  qed (simp add: enter_poisoned assms)
qed

lemma rec_inv_round:
  assumes "rec_inv r" and "worker_round i r = Some s"
  shows "rec_inv s"
proof -
  have i: "i < length (channels r)" using assms(2) by (simp add: worker_round_def Let_def split: if_splits)
  note ok = rec_inv_nth [OF assms(1) i]
  show ?thesis
  proof (cases "queue (channels r ! i)")
    case Nil
    with assms(2) have s: "s = channel_update i (\<lambda>c. c\<lparr>receiver_alive := False\<rparr>) r"
      and "\<not> sender_alive (channels r ! i)"
      by (simp_all add: worker_round_def Let_def split: if_splits)
    then have "event_sender r \<noteq> Some i" using assms(1) i by (auto simp: rec_inv_def)
    with assms(1) i ok Nil show ?thesis
      unfolding s by (intro rec_inv_update) (auto simp: channel_ok_def)
  next
    case (Cons m q)
    with assms(2) have "s = channel_update i (\<lambda>c. c\<lparr>queue := q, forwarded := Suc (forwarded c)\<rparr>) r"
      and "receiver_alive (channels r ! i)"
      by (simp_all add: worker_round_def Let_def split: if_splits)
    with assms(1) i ok Cons show ?thesis by (auto intro!: rec_inv_update simp: channel_ok_def)
  qed
qed

lemma rec_step_inv: "rec_step r a s \<Longrightarrow> rec_inv r \<Longrightarrow> rec_inv s"
  by (induction rule: rec_step.induct)
     (auto simp: rec_inv_start rec_inv_enter monitorExit_def prog_simps dest: rec_inv_round)

interpretation recorder_invariant: guarded_invariant rec_step rec_inv "\<lambda>_. True" "\<lambda>_. True"
  by unfold_locales (simp add: rec_step_inv)

lemma rec_run_inv: "rec_run r as s \<Longrightarrow> rec_inv r \<Longrightarrow> rec_inv s"
  using recorder_invariant.runs_kept by (simp add: list_all_iff)

section \<open>The protocol of the channel\<close>

text \<open>
  Seen from outside the static goes through three phases: nothing started, forwarding, and
  broken for good. A call succeeds exactly when the phase it is made in lets it.
\<close>

datatype phase = Idle | Forwarding | Broken

definition phase_of :: "recorder \<Rightarrow> phase" where
  "phase_of r = (if poisoned r then Broken else if event_sender r = None then Idle else Forwarding)"

fun phase_step :: "phase \<Rightarrow> action \<Rightarrow> phase option" where
  "phase_step p (Start b) = (if b = (p \<noteq> Broken) then Some (if b then Forwarding else Broken) else None)"
| "phase_step p (Enter b) = (if b = (p = Forwarding) then Some (if b then Forwarding else Broken) else None)"
| "phase_step p Exit = Some p"
| "phase_step p (Round i) = Some p"

fun phase_run :: "phase \<Rightarrow> action list \<Rightarrow> phase option" where
  "phase_run p [] = Some p"
| "phase_run p (a # as) = Option.bind (phase_step p a) (\<lambda>q. phase_run q as)"

lemma phase_run_append:
  "phase_run p (as @ bs) = Option.bind (phase_run p as) (\<lambda>q. phase_run q bs)"
  by (induction as arbitrary: p) (simp_all add: Option.bind_assoc)

lemma rec_step_phase:
  assumes "rec_step r a s" and "rec_inv r"
  shows "phase_step (phase_of r) a = Some (phase_of s)"
  using assms
proof (cases rule: rec_step.cases)
  case (start x)
  then show ?thesis
    using start_fresh [of r]
    by (cases "poisoned r") (auto simp: start_poisoned phase_of_def returned_def split: option.splits)
next
  case (enter x)
  then show ?thesis
    using assms(2)
    by (cases "poisoned r"; cases "event_sender r")
       (auto simp: enter_poisoned enter_no_sender enter_sender phase_of_def returned_def)
next
  case (exit x)
  then show ?thesis by (auto simp: monitorExit_def prog_simps)
next
  case (round i)
  then show ?thesis
    by (auto simp: worker_round_def Let_def phase_of_def split: if_splits list.splits)
qed

lemma rec_run_phase:
  "rec_run r as s \<Longrightarrow> rec_inv r \<Longrightarrow> phase_run (phase_of r) as = Some (phase_of s)"
  by (induction rule: runs.induct) (auto simp: rec_step_phase dest: rec_step_inv)

lemma phase_of_initial [simp]: "phase_of initial_recorder = Idle"
  by (simp add: phase_of_def initial_recorder_def)

lemma phase_run_Broken:
  "phase_run Broken as = Some p \<Longrightarrow> p = Broken \<and> Start True \<notin> set as \<and> Enter True \<notin> set as"
proof (induction as)
  case (Cons a as)
  then show ?case by (cases a) (auto split: if_splits)
qed simp

lemma phase_run_Forwarding:
  "phase_run Forwarding as = Some p \<Longrightarrow> p = Forwarding \<and> Start False \<notin> set as \<and> Enter False \<notin> set as"
proof (induction as)
  case (Cons a as)
  then show ?case by (cases a) (auto split: if_splits)
qed simp

lemma phase_run_split:
  assumes "phase_run p as = Some q" and "a \<in> set as"
  obtains u v bs cs where "as = bs @ a # cs" "phase_run p bs = Some u" "phase_step u a = Some v"
    "phase_run v cs = Some q"
proof -
  from assms(2) obtain bs cs where as: "as = bs @ a # cs" by (meson split_list)
  with assms(1) show ?thesis
    by (auto simp: phase_run_append Option.bind_eq_Some_conv intro: that)
qed

lemma started_forwarding:
  assumes "phase_run p as = Some q" and "Start True \<in> set as"
  shows "q = Forwarding"
proof -
  obtain u v cs where "phase_step u (Start True) = Some v" "phase_run v cs = Some q"
    by (rule phase_run_split [OF assms])
  then show ?thesis using phase_run_Forwarding by (simp split: if_splits)
qed

lemma early_enter_broken:
  assumes "phase_run p as = Some q" and "Enter False \<in> set as"
  shows "q = Broken"
proof -
  obtain u v cs where "phase_step u (Enter False) = Some v" "phase_run v cs = Some q"
    by (rule phase_run_split [OF assms])
  then show ?thesis using phase_run_Broken by (simp split: if_splits)
qed

lemma entered_forwarding:
  assumes "phase_run p as = Some q" and "Enter True \<in> set as"
  shows "q = Forwarding"
proof -
  obtain u v cs where "phase_step u (Enter True) = Some v" "phase_run v cs = Some q"
    by (rule phase_run_split [OF assms])
  then show ?thesis using phase_run_Forwarding by (simp split: if_splits)
qed

section \<open>Accounting\<close>

definition enters :: "action list \<Rightarrow> nat" where
  "enters as = count_list as (Enter True)"

definition total :: "(channel \<Rightarrow> nat) \<Rightarrow> recorder \<Rightarrow> nat" where
  "total f r = sum_list (map f (channels r))"

lemma total_update:
  assumes "i < length (channels r)"
  shows "total f (channel_update i g r) + f (channels r ! i) = total f r + f (g (channels r ! i))"
proof -
  have "sum_list (map f (channels r)) \<ge> f (channels r ! i)"
    using assms by (intro member_le_sum_list) auto
  then show ?thesis
    using assms by (simp add: total_def channel_update_def map_update sum_list_update)
qed

lemma total_update_same:
  assumes "i < length (channels r)" and "f (g (channels r ! i)) = f (channels r ! i)"
  shows "total f (channel_update i g r) = total f r"
  using total_update [OF assms(1), of f g] assms(2) by simp

lemma total_append: "total f (r\<lparr>channels := channels r @ [c], event_sender := v\<rparr>) = total f r + f c"
  by (simp add: total_def)

lemma rec_step_sent:
  assumes "rec_step r a s" and "rec_inv r"
  shows "total sent s = total sent r + (if a = Enter True then 1 else 0)"
  using assms
proof (cases rule: rec_step.cases)
  case (start x)
  show ?thesis
  proof (cases "poisoned r")
    case True
    with start show ?thesis by (auto simp: start_poisoned total_def new_channel_def)
  next
    case False
    let ?r = "r\<lparr>channels := channels r @ [new_channel], event_sender := Some (length (channels r))\<rparr>"
    have new: "total sent ?r = total sent r" by (simp add: total_append new_channel_def)
    show ?thesis
    proof (cases "event_sender r")
      case None
      with start start_fresh [OF False] new show ?thesis by auto
    next
      case (Some i)
      with assms(2) have i: "i < length (channels ?r)" by (auto simp: rec_inv_def)
      show ?thesis
        using start start_fresh [OF False] Some new
          total_update_same [OF i, of sent "\<lambda>c. c\<lparr>sender_alive := False\<rparr>"] by auto
    qed
  qed
next
  case (enter x)
  show ?thesis
  proof (cases "poisoned r \<or> event_sender r = None")
    case True
    with enter show ?thesis
      by (cases "poisoned r") (auto simp: enter_poisoned enter_no_sender returned_def total_def)
  next
    case False
    then obtain i where i: "event_sender r = Some i" "\<not> poisoned r" by auto
    with assms(2) have "i < length (channels r)" by (auto simp: rec_inv_def)
    note t = total_update [OF this, of sent "\<lambda>c. c\<lparr>queue := queue c @ [()], sent := Suc (sent c)\<rparr>"]
    from enter enter_sender [OF assms(2) i(2,1)] t show ?thesis by (auto simp: returned_def)
  qed
next
  case (exit x)
  then show ?thesis by (auto simp: monitorExit_def prog_simps)
next
  case (round i)
  then have "i < length (channels r)" by (simp add: worker_round_def Let_def split: if_splits)
  with round show ?thesis
    by (auto simp: worker_round_def Let_def total_update_same split: if_splits list.splits)
qed

lemma rec_run_sent:
  "rec_run r as s \<Longrightarrow> rec_inv r \<Longrightarrow> total sent s = total sent r + enters as"
  by (induction rule: runs.induct) (auto simp: rec_step_sent enters_def dest: rec_step_inv)

lemma rec_inv_books: "rec_inv r \<Longrightarrow> total sent r = total forwarded r + total (length \<circ> queue) r"
proof -
  assume "rec_inv r"
  then have "map sent (channels r) = map (\<lambda>c. forwarded c + length (queue c)) (channels r)"
    by (auto simp: rec_inv_def channel_ok_def)
  from arg_cong [OF this, of sum_list] show ?thesis by (simp add: total_def sum_list_addf o_def)
qed

section \<open>Draining\<close>

lemma rounds_drain:
  assumes "i < length (channels r)" and "receiver_alive (channels r ! i)" and "queue (channels r ! i) = q"
  shows "\<exists>s. rec_run r (replicate (length q) (Round i)) s \<and> event_sender s = event_sender r \<and>
    length (channels s) = length (channels r) \<and> (\<forall>j. j \<noteq> i \<longrightarrow> channels s ! j = channels r ! j) \<and>
    channels s ! i = (channels r ! i)\<lparr>queue := [], forwarded := forwarded (channels r ! i) + length q\<rparr>"
  using assms
proof (induction q arbitrary: r)
  case Nil
  then show ?case by (auto intro!: exI [of _ r])
next
  case (Cons m q)
  let ?u = "channel_update i (\<lambda>c. c\<lparr>queue := q, forwarded := Suc (forwarded c)\<rparr>) r"
  have "worker_round i r = Some ?u" using Cons.prems by (simp add: worker_round_def Let_def)
  then have step: "rec_step r (Round i) ?u" by (rule round)
  obtain s where s: "rec_run ?u (replicate (length q) (Round i)) s" "event_sender s = event_sender ?u"
    "length (channels s) = length (channels ?u)" "\<forall>j. j \<noteq> i \<longrightarrow> channels s ! j = channels ?u ! j"
    "channels s ! i = (channels ?u ! i)\<lparr>queue := [], forwarded := forwarded (channels ?u ! i) + length q\<rparr>"
    using Cons.IH [of ?u] Cons.prems by (auto simp: channel_update_nth)
  have "rec_run r (replicate (length (m # q)) (Round i)) s"
    using runs_cons [OF step s(1)] by simp
  with s Cons.prems(1) show ?case by (intro exI [of _ s]) (simp add: channel_update_nth)
qed

section \<open>The interface the native methods use\<close>

text \<open>
  What a producer of events relies on: once the sink is ready a submission succeeds, is
  counted once, and leaves the sink ready.
\<close>

locale event_sink =
  fixes submit :: "('s, unit) prog" and ready :: "'s \<Rightarrow> bool" and accepted :: "'s \<Rightarrow> nat"
  assumes submit_ready: "ready s \<Longrightarrow> \<exists>t. submit s = (Inr (), t) \<and> ready t \<and> accepted t = Suc (accepted s)"
begin

lemma submits_accepted:
  "ready s \<Longrightarrow> \<exists>t. repeatedly n submit s = (Inr (), t) \<and> ready t \<and> accepted t = accepted s + n"
proof (induction n arbitrary: s)
  case (Suc n)
  from submit_ready [OF Suc.prems] obtain u
    where u: "submit s = (Inr (), u)" "ready u" "accepted u = Suc (accepted s)" by blast
  with Suc.IH [of u] show ?case by auto
qed (simp add: ret_def)

end

definition forwarding :: "recorder \<Rightarrow> bool" where
  "forwarding r \<longleftrightarrow> rec_inv r \<and> phase_of r = Forwarding"

lemma forwarding_enter:
  assumes "forwarding r"
  shows "\<exists>t. monitorEnter r = (Inr (), t) \<and> forwarding t \<and> total sent t = Suc (total sent r)"
proof -
  have inv: "rec_inv r" and ph: "phase_of r = Forwarding" using assms by (auto simp: forwarding_def)
  then obtain i where "\<not> poisoned r" "event_sender r = Some i"
    by (auto simp: phase_of_def split: if_splits)
  with enter_sender [OF inv] obtain t where t: "monitorEnter r = (Inr (), t)" by blast
  then have step: "rec_step r (Enter True) t" using enter [OF t] by (simp add: returned_def)
  show ?thesis
    using t rec_step_inv [OF step inv] rec_step_sent [OF step inv] rec_step_phase [OF step inv] ph
    by (auto simp: forwarding_def split: if_splits)
qed

interpretation rec: event_sink monitorEnter forwarding "total sent"
  by unfold_locales (rule forwarding_enter)

section \<open>Workers that are attached\<close>

text \<open>
  No worker panics as long as each that runs has its sender: so it is when the first one is
  started, and native calls and workers keep it so.
\<close>

definition no_worker :: "recorder \<Rightarrow> bool" where
  "no_worker r \<longleftrightarrow> (\<forall>c\<in>set (channels r). \<not> receiver_alive c)"

definition attached :: "recorder \<Rightarrow> bool" where
  "attached r \<longleftrightarrow> (\<forall>c\<in>set (channels r). receiver_alive c \<longrightarrow> sender_alive c)"

lemma attached_start:
  assumes "rec_inv r" and "no_worker r" and "start_forwarding_worker_thread r = (Inr (), s)"
  shows "attached s"
proof -
  have "event_sender r = None"
    using assms(1,2) nth_mem [of _ "channels r"] by (cases "event_sender r") (auto simp: rec_inv_def no_worker_def)
  moreover have "\<not> poisoned r" using assms(3) by (cases "poisoned r") (auto simp: start_poisoned)
  ultimately have "channels s = channels r @ [new_channel]" using start_fresh [of r] assms(3) by auto
  with assms(2) show ?thesis by (auto simp: attached_def no_worker_def new_channel_def)
qed

lemma attached_update:
  assumes "attached r" and "i < length (channels r)"
    and "receiver_alive (f (channels r ! i)) = receiver_alive (channels r ! i)"
    and "sender_alive (f (channels r ! i)) = sender_alive (channels r ! i)"
  shows "attached (channel_update i f r)"
  using assms by (auto simp: attached_def channel_update_nth all_set_conv_all_nth)

lemma attached_enter:
  assumes "rec_inv r" and "attached r" and "monitorEnter r = (Inr (), s)"
  shows "attached s"
proof -
  have "\<not> poisoned r" using assms(3) by (auto simp: enter_poisoned)
  moreover from this have "event_sender r \<noteq> None" using assms(3) by (cases "event_sender r") (auto simp: enter_no_sender)
  ultimately obtain i where i: "event_sender r = Some i" by blast
  with assms(1) have "i < length (channels r)" by (auto simp: rec_inv_def)
  with assms(2) enter_sender [OF assms(1) \<open>\<not> poisoned r\<close> i] assms(3) show ?thesis
    by (auto intro!: attached_update)
qed

lemma attached_turn:
  assumes "attached r" and "worker_turn i r = (x, s)"
  shows "x = Inr () \<and> attached s"
proof (cases "worker_round i r")
  case None
  with assms show ?thesis by (simp add: worker_turn_def)
next
  case (Some t)
  then have i: "i < length (channels r)" "receiver_alive (channels r ! i)"
    by (simp_all add: worker_round_def Let_def split: if_splits)
  with assms(1) have "sender_alive (channels r ! i)" by (auto simp: attached_def)
  with Some i obtain m q where q: "queue (channels r ! i) = m # q"
    "t = channel_update i (\<lambda>c. c\<lparr>queue := q, forwarded := Suc (forwarded c)\<rparr>) r"
    by (auto simp: worker_round_def Let_def split: list.splits)
  with assms Some i(1) show ?thesis by (auto simp: worker_turn_def intro!: attached_update)
qed

lemma own_thread_returns: "worker_turn i r = (x, s) \<Longrightarrow> on_own_thread (worker_turn i) r = (Inr (), s)"
  by (auto simp: on_own_thread_def worker_turn_def split: option.splits if_splits)

section \<open>Properties\<close>

text \<open>
  C11. The channel's static implements a three-phase protocol: in every interleaving of
  starts, native calls and worker rounds, each start and each native call returns or
  panics exactly as the phase it is made in says (idle, forwarding, broken), and the
  state reached is in the phase the protocol reaches.
\<close>

theorem recorder_protocol:
  assumes "rec_run initial_recorder as r"
  shows "phase_run Idle as = Some (phase_of r)"
  using rec_run_phase [OF assms rec_inv_initial] by simp

theorem recorder_protocol_witness:
  "phase_run Idle [Exit, Start True] = Some (phase_of (snd (start_forwarding_worker_thread initial_recorder)))"
proof -
  have x: "rec_step initial_recorder Exit initial_recorder"
    using exit [OF refl, of initial_recorder] by (simp add: monitorExit_def prog_simps)
  have ok: "returned (start_forwarding_worker_thread initial_recorder)"
    using start_fresh [of initial_recorder] by (auto simp: initial_recorder_def returned_def)
  from recorder_protocol [OF runs_cons [of rec_step, OF x runs_single [of rec_step, OF start [OF refl]]]] ok
  show ?thesis by simp
qed

text \<open>
  C29. Once a start of the worker has returned, no native call ever panics, whatever
  starts, calls and worker rounds come between: any number of further events are taken
  and each is counted exactly once.
\<close>

theorem started_never_panics:
  assumes "rec_run initial_recorder as r" and "Start True \<in> set as"
  shows "\<exists>t. repeatedly n monitorEnter r = (Inr (), t) \<and> total sent t = total sent r + n"
proof -
  have "forwarding r"
    using started_forwarding [OF rec_run_phase [OF assms(1) rec_inv_initial] assms(2)]
      rec_run_inv [OF assms(1) rec_inv_initial] by (simp add: forwarding_def)
  from rec.submits_accepted [OF this, of n] show ?thesis by blast
qed

lemma start_run:
  "rec_run initial_recorder [Start True] (snd (start_forwarding_worker_thread initial_recorder))"
proof -
  have "returned (start_forwarding_worker_thread initial_recorder)"
    using start_fresh [of initial_recorder] by (auto simp: initial_recorder_def returned_def)
  then show ?thesis using runs_single [of rec_step, OF start [OF refl], of initial_recorder] by simp
qed

theorem started_never_panics_witness:
  "\<exists>t. repeatedly 2 monitorEnter (snd (start_forwarding_worker_thread initial_recorder)) = (Inr (), t) \<and>
     total sent t = 2"
  using started_never_panics [OF start_run, of 2]
  by (auto simp: start_forwarding_worker_thread_def prog_simps lock_unwrap_eq drop_sender_def
      initial_recorder_def total_def new_channel_def)

text \<open>
  A native call that comes before the worker was started panics and poisons the mutex:
  the start that follows, and every later native call, panic as well, so the agent never
  forwards an event.
\<close>

theorem early_enter_is_fatal:
  assumes "rec_run initial_recorder as r" and "Enter False \<in> set as"
  shows "Start True \<notin> set as \<and> Enter True \<notin> set as \<and>
    monitorEnter r = (Inl (Panicked UnwrapErr), r) \<and>
    fst (start_forwarding_worker_thread r) = Inl (Panicked UnwrapErr)"
proof -
  note run = rec_run_phase [OF assms(1) rec_inv_initial]
  from early_enter_broken [OF run assms(2)] have b: "poisoned r"
    by (simp add: phase_of_def split: if_splits)
  have "Start True \<notin> set as"
    using started_forwarding [OF run] early_enter_broken [OF run assms(2)] by auto
  moreover have "Enter True \<notin> set as"
    using entered_forwarding [OF run] early_enter_broken [OF run assms(2)] by auto
  ultimately show ?thesis using b by (simp add: enter_poisoned start_poisoned)
qed

theorem early_enter_is_fatal_witness:
  "monitorEnter (snd (monitorEnter initial_recorder)) =
     (Inl (Panicked UnwrapErr), snd (monitorEnter initial_recorder))"
proof -
  have "monitorEnter initial_recorder = (Inl (Panicked UnwrapNone), initial_recorder\<lparr>poisoned := True\<rparr>)"
    by (simp add: enter_no_sender initial_recorder_def)
  then have "rec_run initial_recorder [Enter False] (snd (monitorEnter initial_recorder))"
    using runs_single [of rec_step, OF enter [OF refl], of initial_recorder] by (simp add: returned_def)
  from early_enter_is_fatal [OF this] show ?thesis by simp
qed

text \<open>
  C12. No event is lost and none is made up: in every reachable state the native calls that
  returned are the events the workers have handled plus those still queued, over all the
  channels there have been.
\<close>

theorem events_accounted_for:
  assumes "rec_run initial_recorder as r"
  shows "enters as = total forwarded r + total (length \<circ> queue) r"
  using rec_run_sent [OF assms rec_inv_initial] rec_inv_books [OF rec_run_inv [OF assms rec_inv_initial]]
  by (simp add: initial_recorder_def total_def)

theorem events_accounted_for_witness:
  "enters [Start True] = total (length \<circ> queue) (snd (start_forwarding_worker_thread initial_recorder))"
  using events_accounted_for [OF start_run]
  by (auto simp: start_forwarding_worker_thread_def prog_simps lock_unwrap_eq drop_sender_def
      initial_recorder_def total_def new_channel_def)

text \<open>
  C30. A worker drains its channel: left to run it handles everything queued in as many
  rounds, touching no other channel; it then blocks if its sender is the one in the static
  and otherwise ends, and a worker that has ended has handled everything ever sent to it.
\<close>

theorem worker_drains:
  assumes "rec_run initial_recorder as r" and "i < length (channels r)"
  shows "(receiver_alive (channels r ! i) \<longrightarrow>
      (\<exists>s. rec_run r (replicate (length (queue (channels r ! i))) (Round i)) s \<and>
        forwarded (channels s ! i) = sent (channels r ! i) \<and>
        (\<forall>j. j \<noteq> i \<longrightarrow> channels s ! j = channels r ! j) \<and>
        (worker_round i s = None \<longleftrightarrow> event_sender r = Some i))) \<and>
    (\<not> receiver_alive (channels r ! i) \<longrightarrow>
      forwarded (channels r ! i) = sent (channels r ! i) \<and> event_sender r \<noteq> Some i)"
proof -
  have inv: "rec_inv r" by (rule rec_run_inv [OF assms(1) rec_inv_initial])
  note ok = rec_inv_nth [OF inv assms(2)]
  have snd: "sender_alive (channels r ! i) \<longleftrightarrow> event_sender r = Some i"
    using inv assms(2) by (simp add: rec_inv_def)
  show ?thesis
  proof (cases "receiver_alive (channels r ! i)")
    case True
    from rounds_drain [OF assms(2) True refl] obtain s where
      s: "rec_run r (replicate (length (queue (channels r ! i))) (Round i)) s"
      "length (channels s) = length (channels r)" "\<forall>j. j \<noteq> i \<longrightarrow> channels s ! j = channels r ! j"
      "channels s ! i = (channels r ! i)\<lparr>queue := [],
         forwarded := forwarded (channels r ! i) + length (queue (channels r ! i))\<rparr>"
      by blast
    have "worker_round i s = None \<longleftrightarrow> event_sender r = Some i"
      using s True snd assms(2) by (simp add: worker_round_def Let_def)
    moreover have "forwarded (channels s ! i) = sent (channels r ! i)"
      using s ok by (simp add: channel_ok_def)
    ultimately have "\<exists>s. rec_run r (replicate (length (queue (channels r ! i))) (Round i)) s \<and>
        forwarded (channels s ! i) = sent (channels r ! i) \<and>
        (\<forall>j. j \<noteq> i \<longrightarrow> channels s ! j = channels r ! j) \<and>
        (worker_round i s = None \<longleftrightarrow> event_sender r = Some i)"
      using s(1,3) by (intro exI [of _ s]) simp
    with True show ?thesis by simp
  next
    case False
    with ok inv show ?thesis by (auto simp: channel_ok_def rec_inv_def)
  qed
qed

theorem worker_drains_witness:
  "receiver_alive (channels (snd (start_forwarding_worker_thread initial_recorder)) ! 0) \<and>
   worker_round 0 (snd (start_forwarding_worker_thread initial_recorder)) = None"
proof -
  let ?r = "snd (start_forwarding_worker_thread initial_recorder)"
  have r: "channels ?r = [new_channel]" "event_sender ?r = Some 0"
    by (auto simp: start_forwarding_worker_thread_def prog_simps lock_unwrap_eq drop_sender_def
      initial_recorder_def)
  from worker_drains [OF start_run, of 0] r show ?thesis
    by (auto simp: new_channel_def)
qed

end
