(* ===== verification/Jvm.thy ===== *)
theory Jvm
  imports Utf8 Recorder
begin
text \<open>
  What the agent shares with the JVM that loads it: the memory, the JVMTI environment, the
  file system and the event channel, as one state; and the function tables of JVMTI and
  JNI, which are not part of the repository. Their entries are arguments of the model, and
  what the agent relies on is stated as laws taken from the interface documentation.
\<close>

section \<open>The JVM's data\<close>

type_synonym jvmti_error = "32 word"
type_synonym pointer = "64 word"
type_synonym jthread = "64 word"
type_synonym jclass = "64 word"
type_synonym jmethodID = "64 word"

record jvmtiCapabilities =
  can_generate_all_class_hook_events :: "32 word"
  can_generate_early_class_hook_events :: "32 word"
  other_capabilities :: "64 word"

text \<open>The agent's exported callbacks, as the JVM knows them: by their address.\<close>

datatype callback = Pj_vm_start | Pj_vm_init | Pj_vm_death | Pj_class_file_load_hook

record jvmtiEventCallbacks =
  VMStart :: "callback option"
  VMInit :: "callback option"
  VMDeath :: "callback option"
  ClassFileLoadHook :: "callback option"
  other_callbacks :: "nat \<Rightarrow> callback option"

definition default_callbacks :: jvmtiEventCallbacks where
  "default_callbacks =
     \<lparr>VMStart = None, VMInit = None, VMDeath = None, ClassFileLoadHook = None,
      other_callbacks = (\<lambda>_. None)\<rparr>"

text \<open>The constants of the JVMTI headers that the sources name.\<close>

definition JVMTI_ERROR_NONE :: jvmti_error where "JVMTI_ERROR_NONE = 0"
definition JVMTI_ENABLE :: "32 word" where "JVMTI_ENABLE = 1"
definition JVMTI_EVENT_VM_INIT :: "32 word" where "JVMTI_EVENT_VM_INIT = 50"
definition JVMTI_EVENT_VM_DEATH :: "32 word" where "JVMTI_EVENT_VM_DEATH = 51"
definition JVMTI_EVENT_CLASS_FILE_LOAD_HOOK :: "32 word" where "JVMTI_EVENT_CLASS_FILE_LOAD_HOOK = 54"
definition JVMTI_EVENT_VM_START :: "32 word" where "JVMTI_EVENT_VM_START = 57"
definition JVMTI_PHASE_ONLOAD :: "32 word" where "JVMTI_PHASE_ONLOAD = 1"
definition JVMTI_PHASE_PRIMORDIAL :: "32 word" where "JVMTI_PHASE_PRIMORDIAL = 2"
definition JVMTI_PHASE_LIVE :: "32 word" where "JVMTI_PHASE_LIVE = 4"
definition JVMTI_PHASE_START :: "32 word" where "JVMTI_PHASE_START = 6"
definition JVMTI_PHASE_DEAD :: "32 word" where "JVMTI_PHASE_DEAD = 8"
definition JVMTI_VERSION_11 :: "32 word" where "JVMTI_VERSION_11 = 0x300B0000"
definition JNI_OK :: "32 word" where "JNI_OK = 0"

lemmas jvmti_constants =
  JVMTI_ENABLE_def JVMTI_EVENT_VM_INIT_def JVMTI_EVENT_VM_DEATH_def
  JVMTI_EVENT_CLASS_FILE_LOAD_HOOK_def JVMTI_EVENT_VM_START_def

section \<open>The state\<close>

text \<open>
  \<open>heap\<close> holds the blocks that were allocated through JVMTI and not yet deallocated;
  \<open>jvm\<close> is the JVM's own state, about which nothing is known, so that the outcome of a
  call may depend on anything. \<open>logger_set\<close> says whether the process has a logger already.
\<close>

record 'j world =
  jvm :: 'j
  heap :: "pointer \<rightharpoonup> byte list"
  env_local :: pointer
  thread_local :: "jthread \<Rightarrow> pointer"
  jvmti_phase :: "32 word"
  potential :: jvmtiCapabilities
  capabilities :: jvmtiCapabilities
  callbacks :: jvmtiEventCallbacks
  enabled :: "32 word list"
  boot_search :: "byte list list"
  jni_calls :: "(jclass \<times> jmethodID) list"
  files :: fsys
  recorder_state :: recorder
  logger_set :: bool

section \<open>Foreign functions\<close>

text \<open>
  A C function with an out-parameter returns its error code and what it wrote there, if it
  wrote.
\<close>

type_synonym ('w, 'o) cfun = "'w \<Rightarrow> (jvmti_error \<times> 'o) \<times> 'w"

definition foreign :: "('w \<Rightarrow> 'o \<times> 'w) \<Rightarrow> ('w, 'o) prog" where
  "foreign f = (\<lambda>w. case f w of (x, w') \<Rightarrow> (Inr x, w'))"

lemma foreign_iff [prog_inv]: "foreign f w = (r, w') \<longleftrightarrow> (\<exists>x. f w = (x, w') \<and> r = Inr x)"
  by (auto simp: foreign_def split: prod.splits)

lemma foreign_run: "f w = (x, w') \<Longrightarrow> foreign f w = (Inr x, w')"
  by (simp add: foreign_def)

record 'j jvmti_table =
  GetPhase :: "('j world, 32 word option) cfun option"
  Allocate :: "(64 word \<Rightarrow> ('j world, pointer option) cfun) option"
  Deallocate :: "(pointer \<Rightarrow> ('j world, unit) cfun) option"
  GetPotentialCapabilities :: "('j world, jvmtiCapabilities option) cfun option"
  GetCapabilities :: "('j world, jvmtiCapabilities option) cfun option"
  AddCapabilities :: "(jvmtiCapabilities \<Rightarrow> ('j world, unit) cfun) option"
  SetEventCallbacks :: "(jvmtiEventCallbacks \<Rightarrow> 32 word \<Rightarrow> ('j world, unit) cfun) option"
  SetEventNotificationMode ::
    "(32 word \<Rightarrow> 32 word \<Rightarrow> jthread \<Rightarrow> ('j world, unit) cfun) option"
  AddToBootstrapClassLoaderSearch :: "(byte list \<Rightarrow> ('j world, unit) cfun) option"
  GetEnvironmentLocalStorage :: "('j world, pointer option) cfun option"
  SetEnvironmentLocalStorage :: "(pointer \<Rightarrow> ('j world, unit) cfun) option"
  GetThreadLocalStorage :: "(jthread \<Rightarrow> ('j world, pointer option) cfun) option"
  SetThreadLocalStorage :: "(jthread \<Rightarrow> pointer \<Rightarrow> ('j world, unit) cfun) option"
  sizeof_callbacks :: nat

text \<open>
  \<open>GetEnv\<close> of the invocation interface writes a pointer to the environment, which is its
  function table; no pointer written leaves the null the code starts from.
\<close>

record 'j java_vm =
  GetEnv :: "(32 word \<Rightarrow> ('j world, 'j jvmti_table option) cfun) option"

record 'j jni_table =
  FindClass :: "(byte list \<Rightarrow> 'j world \<Rightarrow> jclass \<times> 'j world) option"
  GetStaticMethodID :: "(jclass \<Rightarrow> byte list \<Rightarrow> byte list \<Rightarrow> 'j world \<Rightarrow> jmethodID \<times> 'j world) option"
  CallStaticVoidMethod :: "(jclass \<Rightarrow> jmethodID \<Rightarrow> 'j world \<Rightarrow> unit \<times> 'j world) option"

section \<open>Laws\<close>

text \<open>
  \<open>reads f get\<close>: the function writes \<open>get w\<close> when it succeeds and changes nothing but the
  JVM's own state. \<open>writes f set\<close>: it updates the state by \<open>set\<close> when it succeeds, and
  changes nothing when it fails.
\<close>

definition reads_law :: "('j world, 'o option) cfun \<Rightarrow> ('j world \<Rightarrow> 'o) \<Rightarrow> bool" where
  "reads_law f get \<longleftrightarrow>
     (\<forall>w err out w'. f w = ((err, out), w') \<longrightarrow>
        (\<exists>j. w' = w\<lparr>jvm := j\<rparr>) \<and> (err = JVMTI_ERROR_NONE \<longrightarrow> out = Some (get w)))"

definition writes_law :: "('j world, unit) cfun \<Rightarrow> ('j world \<Rightarrow> 'j world) \<Rightarrow> bool" where
  "writes_law f upd \<longleftrightarrow>
     (\<forall>w err w'. f w = ((err, ()), w') \<longrightarrow>
        (\<exists>j. w' = (if err = JVMTI_ERROR_NONE then upd w else w)\<lparr>jvm := j\<rparr>))"

text \<open>
  \<open>Allocate\<close> returns a fresh block of the size asked for, null for size zero, and fails on
  a negative size. Nothing is said about alignment.
\<close>

definition allocates_law :: "(64 word \<Rightarrow> ('j world, pointer option) cfun) \<Rightarrow> bool" where
  "allocates_law f \<longleftrightarrow>
     (\<forall>n w err out w'. f n w = ((err, out), w') \<longrightarrow>
        (if err = JVMTI_ERROR_NONE then
           if n = 0 then out = Some 0 \<and> (\<exists>j. w' = w\<lparr>jvm := j\<rparr>)
           else \<exists>p block j. out = Some p \<and> p \<noteq> 0 \<and> heap w p = None \<and> length block = unat n \<and>
             w' = w\<lparr>jvm := j, heap := (heap w)(p \<mapsto> block)\<rparr>
         else \<exists>j. w' = w\<lparr>jvm := j\<rparr>))"

definition entry_law :: "'f option \<Rightarrow> ('f \<Rightarrow> bool) \<Rightarrow> bool" where
  "entry_law f P \<longleftrightarrow> (case f of None \<Rightarrow> True | Some g \<Rightarrow> P g)"

lemma entry_law_Some [simp]: "entry_law (Some f) P = P f"
  and entry_law_None [simp]: "entry_law None P"
  by (simp_all add: entry_law_def)

definition add_event :: "32 word \<Rightarrow> 'j world \<Rightarrow> 'j world" where
  "add_event e w = w\<lparr>enabled := enabled w @ [e]\<rparr>"

text \<open>
  A table whose entries, where it has them, do what the JVMTI documentation says of the
  calls the agent makes. Capabilities are added to those there are; the agent adds what it has
  and two more, which is what it then has.
\<close>

definition jvmti_laws :: "'j jvmti_table \<Rightarrow> bool" where
  "jvmti_laws J \<longleftrightarrow>
     entry_law (GetPhase J) (\<lambda>f. reads_law f jvmti_phase) \<and>
     entry_law (Allocate J) allocates_law \<and>
     entry_law (Deallocate J) (\<lambda>f. \<forall>p. writes_law (f p) (\<lambda>w. w\<lparr>heap := (heap w)(p := None)\<rparr>)) \<and>
     entry_law (GetPotentialCapabilities J) (\<lambda>f. reads_law f potential) \<and>
     entry_law (GetCapabilities J) (\<lambda>f. reads_law f capabilities) \<and>
     entry_law (AddCapabilities J) (\<lambda>f. \<forall>c. writes_law (f c) (\<lambda>w. w\<lparr>capabilities := c\<rparr>)) \<and>
     entry_law (SetEventCallbacks J) (\<lambda>f. \<forall>cb n. writes_law (f cb n) (\<lambda>w. w\<lparr>callbacks := cb\<rparr>)) \<and>
     entry_law (SetEventNotificationMode J)
       (\<lambda>f. \<forall>e. writes_law (f JVMTI_ENABLE e 0) (add_event e)) \<and>
     entry_law (AddToBootstrapClassLoaderSearch J)
       (\<lambda>f. \<forall>s. writes_law (f s) (\<lambda>w. w\<lparr>boot_search := boot_search w @ [s]\<rparr>)) \<and>
     entry_law (GetEnvironmentLocalStorage J) (\<lambda>f. reads_law f env_local) \<and>
     entry_law (SetEnvironmentLocalStorage J) (\<lambda>f. \<forall>p. writes_law (f p) (\<lambda>w. w\<lparr>env_local := p\<rparr>)) \<and>
     entry_law (GetThreadLocalStorage J) (\<lambda>f. \<forall>t. reads_law (f t) (\<lambda>w. thread_local w t)) \<and>
     entry_law (SetThreadLocalStorage J)
       (\<lambda>f. \<forall>t p. writes_law (f t p) (\<lambda>w. w\<lparr>thread_local := (thread_local w)(t := p)\<rparr>))"

text \<open>
  A JVM that obliges: every entry is there, and in a healthy state, with memory for \<open>n\<close>
  more blocks, a call succeeds and leaves a healthy state. Health is a matter of the JVM's
  own state and of which blocks are allocated, not of their contents or of the rest.
\<close>

definition obliging :: "(nat \<Rightarrow> 'j world \<Rightarrow> bool) \<Rightarrow> ('j world, 'o) cfun \<Rightarrow> bool" where
  "obliging H f \<longleftrightarrow>
     (\<forall>n w. H n w \<longrightarrow> (\<exists>out w'. f w = ((JVMTI_ERROR_NONE, out), w') \<and> H n w'))"

definition entry_obliging :: "'f option \<Rightarrow> ('f \<Rightarrow> bool) \<Rightarrow> bool" where
  "entry_obliging f P \<longleftrightarrow> (case f of None \<Rightarrow> False | Some g \<Rightarrow> P g)"

definition max_block :: nat where "max_block = 2 ^ 31"

definition health_law :: "(nat \<Rightarrow> 'j world \<Rightarrow> bool) \<Rightarrow> bool" where
  "health_law H \<longleftrightarrow>
     (\<forall>n w w'. H n w \<longrightarrow> jvm w' = jvm w \<longrightarrow> dom (heap w') = dom (heap w) \<longrightarrow> H n w') \<and>
     (\<forall>n w. H (Suc n) w \<longrightarrow> H n w)"

definition jvmti_obliging :: "'j jvmti_table \<Rightarrow> (nat \<Rightarrow> 'j world \<Rightarrow> bool) \<Rightarrow> bool" where
  "jvmti_obliging J H \<longleftrightarrow>
     health_law H \<and>
     sizeof_callbacks J < 2 ^ 31 \<and>
     entry_obliging (Allocate J) (\<lambda>f. \<forall>n w size. H (Suc n) w \<longrightarrow> 0 < size \<longrightarrow> unat size \<le> max_block \<longrightarrow>
       (\<exists>p w'. f size w = ((JVMTI_ERROR_NONE, Some p), w') \<and> unat p mod 16 = 0 \<and> H n w')) \<and>
     entry_obliging (Deallocate J) (\<lambda>f. \<forall>n w p. H n w \<longrightarrow> heap w p \<noteq> None \<longrightarrow>
       (\<exists>w'. f p w = ((JVMTI_ERROR_NONE, ()), w') \<and> H n w')) \<and>
     entry_obliging (GetPhase J) (obliging H) \<and>
     entry_obliging (GetPotentialCapabilities J) (obliging H) \<and>
     entry_obliging (GetCapabilities J) (obliging H) \<and>
     entry_obliging (AddCapabilities J) (\<lambda>f. \<forall>c. obliging H (f c)) \<and>
     entry_obliging (SetEventCallbacks J) (\<lambda>f. \<forall>cb n. obliging H (f cb n)) \<and>
     entry_obliging (SetEventNotificationMode J) (\<lambda>f. \<forall>e. obliging H (f JVMTI_ENABLE e 0)) \<and>
     entry_obliging (AddToBootstrapClassLoaderSearch J) (\<lambda>f. \<forall>s. obliging H (f s)) \<and>
     entry_obliging (GetEnvironmentLocalStorage J) (obliging H) \<and>
     entry_obliging (SetEnvironmentLocalStorage J) (\<lambda>f. \<forall>p. obliging H (f p))"

lemma ex_same_jvm [simp]: "\<exists>j. w = w\<lparr>jvm := j\<rparr>"
  by (rule exI [of _ "jvm w"]) simp

lemma entry_obligingD: "entry_obliging e P \<Longrightarrow> \<exists>f. e = Some f \<and> P f"
  by (auto simp: entry_obliging_def split: option.splits)

lemma obligingD: "obliging H f \<Longrightarrow> H n w \<Longrightarrow> \<exists>out w'. f w = ((JVMTI_ERROR_NONE, out), w') \<and> H n w'"
  unfolding obliging_def by blast

end
