(* ===== verification/JvmtiEnv.thy ===== *)
theory JvmtiEnv
  imports Jvm
begin

text \<open>
  The wrappers of the JVMTI functions, \<^verbatim>\<open>phasicj/agent/jvm/jvmti_env.rs\<close>. Each takes the
  entry of the table, panicking if it is null, calls it, and panics with the error code
  unless that is zero.
\<close>

section \<open>Checks\<close>

definition jvmti_check :: "jvmti_error \<Rightarrow> ('w, unit) prog" where
  "jvmti_check err = (if err \<noteq> JVMTI_ERROR_NONE then panic (JvmtiCheckFailed err) else ret ())"

definition jni_check :: "32 word \<Rightarrow> ('w, unit) prog" where
  "jni_check err = (if err \<noteq> JNI_OK then panic BarePanic else ret ())"

text \<open>
  The three lines every wrapper has: unwrap the entry, call it, check the error. What the
  call wrote through its out-parameter is returned as it is.
\<close>

definition checked :: "'f option \<Rightarrow> ('f \<Rightarrow> ('w, 'o) cfun) \<Rightarrow> ('w, 'o) prog" where
  "checked entry apply_to =
     bnd (expect UnwrapNone entry) (\<lambda>f.
     bnd (foreign (apply_to f)) (\<lambda>(err, out).
     seq (jvmti_check err) (ret out)))"

section \<open>Wrappers\<close>

definition get_env :: "'j java_vm \<Rightarrow> ('j world, 'j jvmti_table option) prog" where
  "get_env vm =
     bnd (expect UnwrapNone (GetEnv vm)) (\<lambda>f.
     bnd (foreign (f JVMTI_VERSION_11)) (\<lambda>(err, env).
     seq (jni_check err) (ret env)))"

definition get_phase :: "'j jvmti_table \<Rightarrow> ('j world, 32 word) prog" where
  "get_phase J = bnd (checked (GetPhase J) (\<lambda>f. f)) assume_init"

definition get_phase_str :: "'j jvmti_table \<Rightarrow> ('j world, string) prog" where
  "get_phase_str J =
     bnd (get_phase J) (\<lambda>p.
       if p = JVMTI_PHASE_ONLOAD then ret ''OnLoad''
       else if p = JVMTI_PHASE_PRIMORDIAL then ret ''Primordial''
       else if p = JVMTI_PHASE_LIVE then ret ''Live''
       else if p = JVMTI_PHASE_START then ret ''Start''
       else if p = JVMTI_PHASE_DEAD then ret ''Dead''
       else panic UnfamiliarPhase)"

definition jvmti_allocate :: "'j jvmti_table \<Rightarrow> 64 word \<Rightarrow> ('j world, pointer option) prog" where
  "jvmti_allocate J sz = checked (Allocate J) (\<lambda>f. f sz)"

text \<open>Only what \<open>Allocate\<close> has given may be given back, and once.\<close>

definition jvmti_deallocate :: "'j jvmti_table \<Rightarrow> pointer \<Rightarrow> ('j world, unit) prog" where
  "jvmti_deallocate J mem =
     bnd (gets (\<lambda>w. mem \<noteq> 0 \<and> heap w mem = None)) (\<lambda>stray.
     if stray then throw (Undefined InvalidFree) else checked (Deallocate J) (\<lambda>f. f mem))"

definition get_potential_capabilities :: "'j jvmti_table \<Rightarrow> ('j world, jvmtiCapabilities) prog" where
  "get_potential_capabilities J = bnd (checked (GetPotentialCapabilities J) (\<lambda>f. f)) assume_init"

definition get_capabilities :: "'j jvmti_table \<Rightarrow> ('j world, jvmtiCapabilities) prog" where
  "get_capabilities J = bnd (checked (GetCapabilities J) (\<lambda>f. f)) assume_init"

definition add_capabilities :: "'j jvmti_table \<Rightarrow> jvmtiCapabilities \<Rightarrow> ('j world, unit) prog" where
  "add_capabilities J capa = checked (AddCapabilities J) (\<lambda>f. f capa)"

text \<open>The size of the table of callbacks is converted to a \<open>jint\<close>.\<close>

definition set_event_callbacks :: "'j jvmti_table \<Rightarrow> jvmtiEventCallbacks \<Rightarrow> ('j world, unit) prog" where
  "set_event_callbacks J cb =
     bnd (expect UnwrapNone (SetEventCallbacks J)) (\<lambda>f.
     if sizeof_callbacks J < 2 ^ 31 then
       bnd (foreign (f cb (of_nat (sizeof_callbacks J)))) (\<lambda>(err, _). jvmti_check err)
     else panic UnwrapErr)"

definition set_event_notification_mode ::
  "'j jvmti_table \<Rightarrow> 32 word \<Rightarrow> 32 word \<Rightarrow> jthread \<Rightarrow> ('j world, unit) prog" where
  "set_event_notification_mode J mode event_type event_thread =
     checked (SetEventNotificationMode J) (\<lambda>f. f mode event_type event_thread)"

definition add_to_bootstrap_class_loader_search ::
  "'j jvmti_table \<Rightarrow> byte list \<Rightarrow> ('j world, unit) prog" where
  "add_to_bootstrap_class_loader_search J jar =
     checked (AddToBootstrapClassLoaderSearch J) (\<lambda>f. f jar)"

definition get_environment_local_storage :: "'j jvmti_table \<Rightarrow> ('j world, pointer option) prog" where
  "get_environment_local_storage J = checked (GetEnvironmentLocalStorage J) (\<lambda>f. f)"

definition set_environment_local_storage :: "'j jvmti_table \<Rightarrow> pointer \<Rightarrow> ('j world, unit) prog" where
  "set_environment_local_storage J data = checked (SetEnvironmentLocalStorage J) (\<lambda>f. f data)"

definition get_thread_local_storage ::
  "'j jvmti_table \<Rightarrow> jthread \<Rightarrow> ('j world, pointer option) prog" where
  "get_thread_local_storage J thread = checked (GetThreadLocalStorage J) (\<lambda>f. f thread)"

definition set_thread_local_storage ::
  "'j jvmti_table \<Rightarrow> jthread \<Rightarrow> pointer \<Rightarrow> ('j world, unit) prog" where
  "set_thread_local_storage J thread data = checked (SetThreadLocalStorage J) (\<lambda>f. f thread data)"

section \<open>What a wrapper does under the laws\<close>

text \<open>The panics of a wrapper: a null entry, an error code, or a size out of range.\<close>

fun call_fault :: "fault \<Rightarrow> bool" where
  "call_fault (Panicked UnwrapNone) = True"
| "call_fault (Panicked UnwrapErr) = True"
| "call_fault (Panicked (JvmtiCheckFailed err)) = (err \<noteq> JVMTI_ERROR_NONE)"
| "call_fault _ = False"

lemma call_fault_panics: "call_fault e \<Longrightarrow> \<exists>q. e = Panicked q"
  by (cases e rule: call_fault.cases) auto

lemma checked_cases:
  assumes "checked entry app w = (r, w')"
  obtains (null) "entry = None" "r = Inl (Panicked UnwrapNone)" "w' = w"
  | (failed) f err out where "entry = Some f" "app f w = ((err, out), w')" "err \<noteq> JVMTI_ERROR_NONE"
      "r = Inl (Panicked (JvmtiCheckFailed err))"
  | (fine) f out where "entry = Some f" "app f w = ((JVMTI_ERROR_NONE, out), w')" "r = Inr out"
proof (cases entry)
  case None
  with assms show ?thesis by (intro null) (auto simp: checked_def prog_simps)
next
  case (Some f)
  obtain err out u where f: "app f w = ((err, out), u)" by (metis surj_pair)
  show ?thesis
  proof (cases "err = JVMTI_ERROR_NONE")
    case True
    with assms Some f show ?thesis
      by (intro fine) (auto simp: checked_def prog_simps foreign_def jvmti_check_def)
  next
    case False
    with assms Some f show ?thesis
      by (intro failed) (auto simp: checked_def prog_simps foreign_def jvmti_check_def)
  qed
qed

text \<open>
  \<open>acts get upd m\<close>: the program returns \<open>get\<close> of the state and updates it by \<open>upd\<close>, or
  panics with a call fault and no effect; the JVM's own state may change either way.
\<close>

definition acts :: "('j world \<Rightarrow> 'o) \<Rightarrow> ('j world \<Rightarrow> 'j world) \<Rightarrow> ('j world, 'o) prog \<Rightarrow> bool" where
  "acts get upd m \<longleftrightarrow>
     (\<forall>w. \<exists>j. (\<exists>e. call_fault e \<and> m w = (Inl e, w\<lparr>jvm := j\<rparr>)) \<or>
             m w = (Inr (get w), (upd w)\<lparr>jvm := j\<rparr>))"

lemma actsE:
  assumes "acts get upd m"
  obtains (fault) e j where "call_fault e" "m w = (Inl e, w\<lparr>jvm := j\<rparr>)"
  | (returns) j where "m w = (Inr (get w), (upd w)\<lparr>jvm := j\<rparr>)"
  using assms unfolding acts_def by metis

lemma actsI:
  assumes "\<And>w. (\<exists>e j. call_fault e \<and> m w = (Inl e, w\<lparr>jvm := j\<rparr>)) \<or>
    (\<exists>j. m w = (Inr (get w), (upd w)\<lparr>jvm := j\<rparr>))"
  shows "acts get upd m"
  unfolding acts_def using assms by metis

lemma checked_reads:
  assumes "entry_law entry (\<lambda>f. reads_law (app f) get)"
  shows "acts (\<lambda>w. Some (get w)) id (checked entry app)"
proof (rule actsI)
  fix w
  obtain r w' where run: "checked entry app w = (r, w')" by fastforce
  then show "(\<exists>e j. call_fault e \<and> checked entry app w = (Inl e, w\<lparr>jvm := j\<rparr>)) \<or>
    (\<exists>j. checked entry app w = (Inr (Some (get w)), (id w)\<lparr>jvm := j\<rparr>))"
  proof (cases rule: checked_cases)
    case null
    then show ?thesis
      using run by (intro disjI1 exI [of _ "Panicked UnwrapNone"] exI [of _ "jvm w"]) simp
  next
    case (failed f err out)
    with assms have "\<exists>j. w' = w\<lparr>jvm := j\<rparr>" by (fastforce simp: reads_law_def)
    with failed run show ?thesis by auto
  next
    case (fine f out)
    with assms have "(\<exists>j. w' = w\<lparr>jvm := j\<rparr>) \<and> out = Some (get w)" by (fastforce simp: reads_law_def)
    with fine run show ?thesis by auto
  qed
qed

lemma checked_writes:
  assumes "entry_law entry (\<lambda>f. writes_law (app f) upd)"
  shows "acts (\<lambda>_. ()) upd (checked entry app)"
proof (rule actsI)
  fix w
  obtain r w' where run: "checked entry app w = (r, w')" by fastforce
  then show "(\<exists>e j. call_fault e \<and> checked entry app w = (Inl e, w\<lparr>jvm := j\<rparr>)) \<or>
    (\<exists>j. checked entry app w = (Inr (), (upd w)\<lparr>jvm := j\<rparr>))"
  proof (cases rule: checked_cases)
    case null
    then show ?thesis
      using run by (intro disjI1 exI [of _ "Panicked UnwrapNone"] exI [of _ "jvm w"]) simp
  next
    case (failed f err out)
    with assms have "\<exists>j. w' = w\<lparr>jvm := j\<rparr>" by (fastforce simp: writes_law_def)
    with failed run show ?thesis by auto
  next
    case (fine f out)
    with assms have "\<exists>j. w' = (upd w)\<lparr>jvm := j\<rparr>" by (fastforce simp: writes_law_def)
    with fine run show ?thesis by auto
  qed
qed

lemma acts_assume_init:
  assumes "acts (\<lambda>w. Some (get w)) upd m"
  shows "acts get upd (bnd m assume_init)"
proof (rule actsI)
  fix w
  show "(\<exists>e j. call_fault e \<and> bnd m assume_init w = (Inl e, w\<lparr>jvm := j\<rparr>)) \<or>
    (\<exists>j. bnd m assume_init w = (Inr (get w), (upd w)\<lparr>jvm := j\<rparr>))"
    by (rule actsE [OF assms, of w]) (auto simp: prog_simps)
qed

lemma set_event_callbacks_checked:
  "sizeof_callbacks J < 2 ^ 31 \<Longrightarrow> set_event_callbacks J cb =
     checked (SetEventCallbacks J) (\<lambda>f. f cb (of_nat (sizeof_callbacks J)))"
  by (simp add: set_event_callbacks_def checked_def case_prod_unfold)

lemma entry_law_mono: "entry_law e P \<Longrightarrow> (\<And>f. P f \<Longrightarrow> Q f) \<Longrightarrow> entry_law e Q"
  by (cases e) simp_all

lemmas checked_reads_via = checked_reads [OF entry_law_mono]
lemmas checked_writes_via = checked_writes [OF entry_law_mono]

text \<open>Every wrapper, under the laws.\<close>

lemma wrappers_act:
  assumes "jvmti_laws J"
  shows get_phase_acts: "acts jvmti_phase id (get_phase J)"
    and deallocate_acts: "acts (\<lambda>_. ()) (\<lambda>w. w\<lparr>heap := (heap w)(p := None)\<rparr>) (checked (Deallocate J) (\<lambda>f. f p))"
    and potential_acts: "acts potential id (get_potential_capabilities J)"
    and capabilities_acts: "acts capabilities id (get_capabilities J)"
    and add_capabilities_acts: "acts (\<lambda>_. ()) (\<lambda>w. w\<lparr>capabilities := c\<rparr>) (add_capabilities J c)"
    and notification_acts: "acts (\<lambda>_. ()) (add_event e) (set_event_notification_mode J JVMTI_ENABLE e 0)"
    and boot_search_acts: "acts (\<lambda>_. ()) (\<lambda>w. w\<lparr>boot_search := boot_search w @ [s]\<rparr>)
           (add_to_bootstrap_class_loader_search J s)"
    and get_env_local_acts: "acts (\<lambda>w. Some (env_local w)) id (get_environment_local_storage J)"
    and set_env_local_acts: "acts (\<lambda>_. ()) (\<lambda>w. w\<lparr>env_local := p\<rparr>) (set_environment_local_storage J p)"
    and get_thread_local_acts: "acts (\<lambda>w. Some (thread_local w t)) id (get_thread_local_storage J t)"
    and set_thread_local_acts: "acts (\<lambda>_. ()) (\<lambda>w. w\<lparr>thread_local := (thread_local w)(t := p)\<rparr>)
           (set_thread_local_storage J t p)"
  unfolding get_phase_def get_potential_capabilities_def get_capabilities_def
      add_capabilities_def set_event_notification_mode_def add_to_bootstrap_class_loader_search_def
      get_environment_local_storage_def set_environment_local_storage_def get_thread_local_storage_def
      set_thread_local_storage_def
  using assms
  by (simp_all only: jvmti_laws_def)
     ((intro acts_assume_init)?, (erule conjE)+, (rule checked_reads_via checked_writes_via, assumption, simp))+

lemma set_event_callbacks_acts:
  assumes "jvmti_laws J"
  shows "acts (\<lambda>_. ()) (\<lambda>w. w\<lparr>callbacks := cb\<rparr>) (set_event_callbacks J cb)"
proof (cases "sizeof_callbacks J < 2 ^ 31")
  case True
  have "entry_law (SetEventCallbacks J) (\<lambda>f. \<forall>cb n. writes_law (f cb n) (\<lambda>w. w\<lparr>callbacks := cb\<rparr>))"
    using assms by (simp only: jvmti_laws_def)
  then show ?thesis
    unfolding set_event_callbacks_checked [OF True] by (rule checked_writes_via) simp
next
  case False
  have "set_event_callbacks J cb w = (Inl (Panicked UnwrapNone), w\<lparr>jvm := jvm w\<rparr>) \<or>
    set_event_callbacks J cb w = (Inl (Panicked UnwrapErr), w\<lparr>jvm := jvm w\<rparr>)" for w
    using False by (simp add: set_event_callbacks_def prog_simps split: option.splits)
  then show ?thesis by (intro actsI disjI1) (metis call_fault.simps(1,2))
qed

lemma jvmti_allocate_cases:
  assumes "jvmti_laws J"
  obtains (fault) e j where "call_fault e" "jvmti_allocate J n w = (Inl e, w\<lparr>jvm := j\<rparr>)"
  | (empty) j where "n = 0" "jvmti_allocate J n w = (Inr (Some 0), w\<lparr>jvm := j\<rparr>)"
  | (fresh) p block j where "n \<noteq> 0" "p \<noteq> 0" "heap w p = None" "length block = unat n"
      "jvmti_allocate J n w = (Inr (Some p), w\<lparr>jvm := j, heap := (heap w)(p \<mapsto> block)\<rparr>)"
proof -
  obtain r w' where run: "checked (Allocate J) (\<lambda>f. f n) w = (r, w')" by fastforce
  have law: "entry_law (Allocate J) allocates_law" using assms by (simp add: jvmti_laws_def)
  from run show ?thesis
  proof (cases rule: checked_cases)
    case null
    then show ?thesis
      using run by (intro fault [of "Panicked UnwrapNone" "jvm w"]) (simp_all add: jvmti_allocate_def)
  next
    case (failed f err out)
    with law have "\<exists>j. w' = w\<lparr>jvm := j\<rparr>" by (fastforce simp: allocates_law_def)
    then obtain j where "w' = w\<lparr>jvm := j\<rparr>" by blast
    with failed run show ?thesis
      by (intro fault [of "Panicked (JvmtiCheckFailed err)" j]) (simp_all add: jvmti_allocate_def)
  next
    case (fine f out)
    with law have "if n = 0 then out = Some 0 \<and> (\<exists>j. w' = w\<lparr>jvm := j\<rparr>)
      else \<exists>p block j. out = Some p \<and> p \<noteq> 0 \<and> heap w p = None \<and> length block = unat n \<and>
             w' = w\<lparr>jvm := j, heap := (heap w)(p \<mapsto> block)\<rparr>"
      unfolding allocates_law_def by fastforce
    with fine run show ?thesis
      by (auto simp: jvmti_allocate_def split: if_splits intro: empty fresh)
  qed
qed

section \<open>Progress on a JVM that obliges\<close>

definition succeeds :: "(nat \<Rightarrow> 'j world \<Rightarrow> bool) \<Rightarrow> ('j world, 'a) prog \<Rightarrow> bool" where
  "succeeds H m \<longleftrightarrow> (\<forall>n w. H n w \<longrightarrow> (\<exists>x w'. m w = (Inr x, w') \<and> H n w'))"

lemma checked_obliging:
  assumes "entry_obliging entry (\<lambda>f. obliging H (app f))"
  shows "succeeds H (checked entry app)"
  unfolding succeeds_def
proof (intro allI impI)
  fix n w assume "H n w"
  with assms obtain f out w' where "entry = Some f" "app f w = ((JVMTI_ERROR_NONE, out), w')" "H n w'"
    by (blast dest: entry_obligingD obligingD)
  then show "\<exists>x w'. checked entry app w = (Inr x, w') \<and> H n w'"
    by (simp add: checked_def prog_simps foreign_def jvmti_check_def)
qed

lemma acts_succeeds:
  assumes "acts get upd m" and "succeeds H m" and "H n w"
  obtains j where "m w = (Inr (get w), (upd w)\<lparr>jvm := j\<rparr>)" and "H n ((upd w)\<lparr>jvm := j\<rparr>)"
proof -
  obtain x w' where run: "m w = (Inr x, w')" "H n w'" using assms(2,3) unfolding succeeds_def by blast
  from assms(1) show thesis
    by (rule actsE [of get upd m w]) (use run that in auto)
qed

lemma entry_obliging_mono: "entry_obliging e P \<Longrightarrow> (\<And>f. P f \<Longrightarrow> Q f) \<Longrightarrow> entry_obliging e Q"
  by (cases e) (simp_all add: entry_obliging_def)

lemma succeeds_assume_init:
  assumes "succeeds H m" and "acts (\<lambda>w. Some (get w)) upd m"
  shows "succeeds H (bnd m assume_init)"
  unfolding succeeds_def
proof (intro allI impI)
  fix n w assume "H n w"
  with assms obtain j where "m w = (Inr (Some (get w)), (upd w)\<lparr>jvm := j\<rparr>)" "H n ((upd w)\<lparr>jvm := j\<rparr>)"
    by (elim acts_succeeds)
  then show "\<exists>x w'. bnd m assume_init w = (Inr x, w') \<and> H n w'" by (simp add: prog_simps)
qed

lemmas checked_obliging_via = checked_obliging [OF entry_obliging_mono]

lemma wrappers_succeed:
  assumes "jvmti_obliging J H"
  shows add_capabilities_succeeds: "succeeds H (add_capabilities J c)"
    and notification_succeeds: "succeeds H (set_event_notification_mode J JVMTI_ENABLE e 0)"
    and boot_search_succeeds: "succeeds H (add_to_bootstrap_class_loader_search J s)"
    and get_env_local_succeeds: "succeeds H (get_environment_local_storage J)"
    and set_env_local_succeeds: "succeeds H (set_environment_local_storage J p)"
    and set_event_callbacks_succeeds: "succeeds H (set_event_callbacks J cb)"
proof -
  have size: "sizeof_callbacks J < 2 ^ 31" using assms by (simp only: jvmti_obliging_def)
  show "succeeds H (add_capabilities J c)"
    "succeeds H (set_event_notification_mode J JVMTI_ENABLE e 0)"
    "succeeds H (add_to_bootstrap_class_loader_search J s)"
    "succeeds H (get_environment_local_storage J)"
    "succeeds H (set_environment_local_storage J p)"
    "succeeds H (set_event_callbacks J cb)"
    unfolding add_capabilities_def set_event_notification_mode_def
      add_to_bootstrap_class_loader_search_def get_environment_local_storage_def
      set_environment_local_storage_def set_event_callbacks_checked [OF size]
    using assms
    by (simp_all only: jvmti_obliging_def)
       ((erule conjE)+, (rule checked_obliging_via, assumption, simp))+
qed

lemma capability_reads_succeed:
  assumes "jvmti_obliging J H" and "jvmti_laws J"
  shows potential_succeeds: "succeeds H (get_potential_capabilities J)"
    and capabilities_succeeds: "succeeds H (get_capabilities J)"
proof -
  have "entry_obliging (GetPotentialCapabilities J) (obliging H)"
    "entry_obliging (GetCapabilities J) (obliging H)"
    "entry_law (GetPotentialCapabilities J) (\<lambda>f. reads_law f potential)"
    "entry_law (GetCapabilities J) (\<lambda>f. reads_law f capabilities)"
    using assms by (simp_all only: jvmti_obliging_def jvmti_laws_def)
  then show "succeeds H (get_potential_capabilities J)" "succeeds H (get_capabilities J)"
    unfolding get_potential_capabilities_def get_capabilities_def
    by (auto intro!: succeeds_assume_init checked_obliging checked_reads)
qed

lemma jvmti_allocate_succeeds:
  assumes "jvmti_laws J" and "jvmti_obliging J H" and "H (Suc n) w" and "0 < sz" and "unat sz \<le> max_block"
  obtains p block j where "p \<noteq> 0" "heap w p = None" "length block = unat sz" "unat p mod 16 = 0"
    "jvmti_allocate J sz w = (Inr (Some p), w\<lparr>jvm := j, heap := (heap w)(p \<mapsto> block)\<rparr>)"
    "H n (w\<lparr>jvm := j, heap := (heap w)(p \<mapsto> block)\<rparr>)"
proof -
  have "entry_obliging (Allocate J) (\<lambda>f. \<forall>n w size. H (Suc n) w \<longrightarrow> 0 < size \<longrightarrow> unat size \<le> max_block \<longrightarrow>
       (\<exists>p w'. f size w = ((JVMTI_ERROR_NONE, Some p), w') \<and> unat p mod 16 = 0 \<and> H n w'))"
    using assms(2) by (simp only: jvmti_obliging_def)
  from entry_obligingD [OF this] obtain f where f: "Allocate J = Some f"
    "\<forall>n w sz. H (Suc n) w \<longrightarrow> 0 < sz \<longrightarrow> unat sz \<le> max_block \<longrightarrow>
       (\<exists>p w'. f sz w = ((JVMTI_ERROR_NONE, Some p), w') \<and> unat p mod 16 = 0 \<and> H n w')"
    by blast
  from f(2) assms(3-5) obtain q w' where
    "f sz w = ((JVMTI_ERROR_NONE, Some q), w')" "unat q mod 16 = 0" "H n w'"
    by meson
  note f(1) this
  then have run: "jvmti_allocate J sz w = (Inr (Some q), w')" and q: "unat q mod 16 = 0" "H n w'"
    by (simp_all add: jvmti_allocate_def checked_def prog_simps foreign_def jvmti_check_def)
  from assms(1) show thesis
    by (rule jvmti_allocate_cases [of J sz w]) (use run q assms(4) that in auto)
qed

lemma deallocate_owned:
  "heap w p \<noteq> None \<Longrightarrow> jvmti_deallocate J p w = checked (Deallocate J) (\<lambda>f. f p) w"
  by (auto simp: jvmti_deallocate_def prog_simps)

lemma jvmti_deallocate_succeeds:
  assumes "jvmti_laws J" and "jvmti_obliging J H" and "H n w" and "heap w p \<noteq> None"
  obtains j where "jvmti_deallocate J p w = (Inr (), w\<lparr>heap := (heap w)(p := None), jvm := j\<rparr>)"
    "H n (w\<lparr>heap := (heap w)(p := None), jvm := j\<rparr>)"
proof -
  have "entry_obliging (Deallocate J) (\<lambda>f. \<forall>n w p. H n w \<longrightarrow> heap w p \<noteq> None \<longrightarrow>
       (\<exists>w'. f p w = ((JVMTI_ERROR_NONE, ()), w') \<and> H n w'))"
    using assms(2) by (simp only: jvmti_obliging_def)
  from entry_obligingD [OF this] assms(3,4) obtain f w' where "Deallocate J = Some f"
    "f p w = ((JVMTI_ERROR_NONE, ()), w')" "H n w'"
    by blast
  then have run: "checked (Deallocate J) (\<lambda>f. f p) w = (Inr (), w')" "H n w'"
    by (simp_all add: checked_def prog_simps foreign_def jvmti_check_def)
  from deallocate_acts [OF assms(1), of p] show thesis
    by (rule actsE [of _ _ _ w]) (use run that deallocate_owned [OF assms(4)] in auto)
qed

lemma obliging_stable:
  assumes "jvmti_obliging J H" and "H n w" and "jvm w' = jvm w" and "dom (heap w') = dom (heap w)"
  shows "H n w'"
proof -
  have "health_law H" using assms(1) unfolding jvmti_obliging_def by (rule conjunct1)
  with assms(2-4) show ?thesis unfolding health_law_def by blast
qed

lemma obliging_Suc: "jvmti_obliging J H \<Longrightarrow> H (Suc n) w \<Longrightarrow> H n w"
  unfolding jvmti_obliging_def health_law_def by blast

section \<open>A reference JVM\<close>

text \<open>
  An instance of the table that follows the documentation: blocks are handed out upwards,
  one per \<open>2 ^ 32\<close> addresses, and the JVM's own state counts them.
\<close>

definition reference_address :: "nat \<Rightarrow> pointer" where
  "reference_address k = of_nat (Suc k * 2 ^ 32)"

definition reference_reads :: "(nat world \<Rightarrow> 'o) \<Rightarrow> (nat world, 'o option) cfun" where
  "reference_reads get = (\<lambda>w. ((JVMTI_ERROR_NONE, Some (get w)), w))"

definition reference_writes :: "(nat world \<Rightarrow> nat world) \<Rightarrow> (nat world, unit) cfun" where
  "reference_writes upd = (\<lambda>w. ((JVMTI_ERROR_NONE, ()), upd w))"

definition reference_allocate :: "64 word \<Rightarrow> (nat world, pointer option) cfun" where
  "reference_allocate n = (\<lambda>w.
     if n = 0 then ((JVMTI_ERROR_NONE, Some 0), w)
     else if unat n \<le> max_block \<and> jvm w < 2 ^ 31 \<and> heap w (reference_address (jvm w)) = None then
       ((JVMTI_ERROR_NONE, Some (reference_address (jvm w))),
        w\<lparr>jvm := Suc (jvm w),
          heap := (heap w)(reference_address (jvm w) \<mapsto> replicate (unat n) (CHR 0x00))\<rparr>)
     else ((110, None), w))"

definition reference_jvmti :: "nat jvmti_table" where
  "reference_jvmti =
     \<lparr>GetPhase = Some (reference_reads jvmti_phase),
      Allocate = Some reference_allocate,
      Deallocate = Some (\<lambda>p. reference_writes (\<lambda>w. w\<lparr>heap := (heap w)(p := None)\<rparr>)),
      GetPotentialCapabilities = Some (reference_reads potential),
      GetCapabilities = Some (reference_reads capabilities),
      AddCapabilities = Some (\<lambda>c. reference_writes (\<lambda>w. w\<lparr>capabilities := c\<rparr>)),
      SetEventCallbacks = Some (\<lambda>cb _. reference_writes (\<lambda>w. w\<lparr>callbacks := cb\<rparr>)),
      SetEventNotificationMode = Some (\<lambda>_ e _. reference_writes (add_event e)),
      AddToBootstrapClassLoaderSearch =
        Some (\<lambda>s. reference_writes (\<lambda>w. w\<lparr>boot_search := boot_search w @ [s]\<rparr>)),
      GetEnvironmentLocalStorage = Some (reference_reads env_local),
      SetEnvironmentLocalStorage = Some (\<lambda>p. reference_writes (\<lambda>w. w\<lparr>env_local := p\<rparr>)),
      GetThreadLocalStorage = Some (\<lambda>t. reference_reads (\<lambda>w. thread_local w t)),
      SetThreadLocalStorage =
        Some (\<lambda>t p. reference_writes (\<lambda>w. w\<lparr>thread_local := (thread_local w)(t := p)\<rparr>)),
      sizeof_callbacks = 288\<rparr>"

definition reference_healthy :: "nat \<Rightarrow> nat world \<Rightarrow> bool" where
  "reference_healthy n w \<longleftrightarrow>
     jvm w + n \<le> 2 ^ 31 \<and> (\<forall>k. jvm w \<le> k \<longrightarrow> k < 2 ^ 31 \<longrightarrow> heap w (reference_address k) = None)"

lemma reference_reads_law: "reads_law (reference_reads get) get"
  by (simp add: reads_law_def reference_reads_def)

lemma reference_writes_law: "(\<And>w. jvm (upd w) = jvm w) \<Longrightarrow> writes_law (reference_writes upd) upd"
  by (simp add: writes_law_def reference_writes_def)

lemma unat_reference_address:
  assumes "k < 2 ^ 31"
  shows "unat (reference_address k) = Suc k * 2 ^ 32"
proof -
  have "Suc k * 2 ^ 32 < (2::nat) ^ 64" using assms by simp
  then show ?thesis unfolding reference_address_def unat_of_nat by (intro mod_less) simp
qed

lemma reference_address_nonzero: "k < 2 ^ 31 \<Longrightarrow> reference_address k \<noteq> 0"
  by (metis unat_reference_address unsigned_0 mult_eq_0_iff nat.distinct(1) power_eq_0_iff zero_neq_numeral)

lemma reference_address_inj:
  assumes "k < 2 ^ 31" and "l < 2 ^ 31"
  shows "reference_address k = reference_address l \<longleftrightarrow> k = l"
proof
  assume "reference_address k = reference_address l"
  then have "Suc k * 2 ^ 32 = Suc l * 2 ^ 32" by (metis unat_reference_address assms)
  then show "k = l" by simp
qed simp

lemma reference_allocates_law: "allocates_law reference_allocate"
  unfolding allocates_law_def
proof (intro allI impI)
  fix n :: "64 word" and w :: "nat world" and err out w'
  assume run: "reference_allocate n w = ((err, out), w')"
  let ?p = "reference_address (jvm w)"
  show "if err = JVMTI_ERROR_NONE then
           if n = 0 then out = Some 0 \<and> (\<exists>j. w' = w\<lparr>jvm := j\<rparr>)
           else \<exists>p block j. out = Some p \<and> p \<noteq> 0 \<and> heap w p = None \<and> length block = unat n \<and>
             w' = w\<lparr>jvm := j, heap := (heap w)(p \<mapsto> block)\<rparr>
         else \<exists>j. w' = w\<lparr>jvm := j\<rparr>"
  proof (cases "n \<noteq> 0 \<and> unat n \<le> max_block \<and> jvm w < 2 ^ 31 \<and> heap w ?p = None")
    case True
    with run show ?thesis
      by (auto simp: reference_allocate_def reference_address_nonzero
          intro!: exI [of _ "replicate (unat n) (CHR 0x00)"])
  next
    case False
    with run show ?thesis by (auto simp: reference_allocate_def JVMTI_ERROR_NONE_def split: if_splits)
  qed
qed

lemma reference_laws: "jvmti_laws reference_jvmti"
  unfolding jvmti_laws_def
  by (simp only: reference_jvmti_def jvmti_table.simps entry_law_Some)
     (simp add: reference_reads_law reference_writes_law reference_allocates_law add_event_def)

lemma reference_reads_obliging: "obliging H (reference_reads get)"
  by (simp add: obliging_def reference_reads_def)

lemma reference_writes_obliging:
  "(\<And>w. jvm (upd w) = jvm w) \<Longrightarrow> (\<And>w. heap (upd w) = heap w) \<Longrightarrow>
   obliging reference_healthy (reference_writes upd)"
  by (simp add: obliging_def reference_writes_def reference_healthy_def)

lemma reference_allocate_obliging:
  assumes "reference_healthy (Suc n) w" and "0 < sz" and "unat sz \<le> max_block"
  shows "\<exists>p w'. reference_allocate sz w = ((JVMTI_ERROR_NONE, Some p), w') \<and> unat p mod 16 = 0 \<and>
    reference_healthy n w'"
proof -
  from assms(1) have k: "jvm w < 2 ^ 31" and free: "heap w (reference_address (jvm w)) = None"
    by (simp_all add: reference_healthy_def)
  have "unat (reference_address (jvm w)) mod 16 = 0" by (simp add: unat_reference_address [OF k] mod_mult_eq)
  moreover have "sz \<noteq> 0" using assms(2) by simp
  ultimately show ?thesis
    using assms(1,3) k free reference_address_inj [OF _ k]
    by (auto simp: reference_allocate_def reference_healthy_def)
qed

lemma reference_deallocate_obliging:
  assumes "reference_healthy n w"
  shows "\<exists>w'. reference_writes (\<lambda>w. w\<lparr>heap := (heap w)(p := None)\<rparr>) w = ((JVMTI_ERROR_NONE, ()), w') \<and>
    reference_healthy n w'"
  using assms by (simp add: reference_writes_def reference_healthy_def)

lemma entry_obliging_Some: "entry_obliging (Some f) P = P f"
  by (simp add: entry_obliging_def)

lemma reference_obliging: "jvmti_obliging reference_jvmti reference_healthy"
  unfolding jvmti_obliging_def
proof (intro conjI)
  show "health_law reference_healthy"
    unfolding health_law_def
  proof (intro conjI allI impI)
    fix n and w w' :: "nat world"
    assume "reference_healthy n w" "jvm w' = jvm w" "dom (heap w') = dom (heap w)"
    moreover from this(3) have "heap w' p = None \<longleftrightarrow> heap w p = None" for p by blast
    ultimately show "reference_healthy n w'" by (simp add: reference_healthy_def)
  qed (simp add: reference_healthy_def)
qed (simp_all only: reference_jvmti_def jvmti_table.simps entry_obliging_Some,
  simp_all add: reference_reads_obliging reference_writes_obliging reference_allocate_obliging
    reference_deallocate_obliging add_event_def)

end
