(* ===== verification/Pest.thy ===== *)
theory Pest
  imports Prelude
begin

text \<open>
  The notation of the agent's grammar file. A grammar rule is a parsing expression: it
  looks at the input from a position, and either fails or returns the token pairs it
  produced with the position after them. The operators below are those that
  \<^verbatim>\<open>PjAgentConfLang.pest\<close> uses, with the meaning the Pest book documents: ordered choice,
  greedy repetition, implicit \<open>WHITESPACE*\<close> between the parts of a sequence and of a
  repetition unless an atomic rule is being matched, and no token pairs from inside an
  atomic rule. Atomicity is a property of the run (an atomic rule makes every rule it
  calls atomic), so it is an argument of each expression.
\<close>

section \<open>Token pairs and matchers\<close>

datatype atomicity = Atomic | NonAtomic

datatype 'r pair = PestPair (as_rule: 'r) (as_str: string) (into_inner: "'r pair list")

type_synonym input = "nat \<times> string"

type_synonym 'r matcher = "atomicity \<Rightarrow> input \<Rightarrow> ('r pair list \<times> input) option"

section \<open>Operators\<close>

definition pest_str :: "string \<Rightarrow> 'r matcher" where
  "pest_str lit at = (\<lambda>(n, s).
     if take (length lit) s = lit then Some ([], n + length lit, drop (length lit) s) else None)"

definition pest_class :: "(char \<Rightarrow> bool) \<Rightarrow> 'r matcher" where
  "pest_class P at = (\<lambda>(n, s).
     case s of [] \<Rightarrow> None | c # cs \<Rightarrow> if P c then Some ([], n + 1, cs) else None)"

definition pest_range :: "char \<Rightarrow> char \<Rightarrow> 'r matcher" where
  "pest_range lo hi =
     pest_class (\<lambda>c. (of_char lo :: nat) \<le> of_char c \<and> (of_char c :: nat) \<le> of_char hi)"

definition pest_soi :: "'r matcher" where
  "pest_soi at = (\<lambda>(n, s). if n = 0 then Some ([], n, s) else None)"

definition pest_end :: "'r matcher" where
  "pest_end at = (\<lambda>(n, s). if s = [] then Some ([], n, s) else None)"

definition pest_choice :: "'r matcher \<Rightarrow> 'r matcher \<Rightarrow> 'r matcher" where
  "pest_choice p q at i = (case p at i of None \<Rightarrow> q at i | Some r \<Rightarrow> Some r)"

definition pest_opt :: "'r matcher \<Rightarrow> 'r matcher" where
  "pest_opt p at i = (case p at i of None \<Rightarrow> Some ([], i) | Some r \<Rightarrow> Some r)"

text \<open>
  The repetition loop runs until its body fails. Pest rejects a grammar whose repeated
  expression can succeed without progress, so the loop's other exit is never taken; it
  makes the function total.
\<close>

function pest_repeat :: "'r matcher \<Rightarrow> atomicity \<Rightarrow> input \<Rightarrow> 'r pair list \<times> input" where
  "pest_repeat p at (n, s) =
     (case p at (n, s) of
        None \<Rightarrow> ([], n, s)
      | Some (ts, n', s') \<Rightarrow>
          if length s' < length s
          then (case pest_repeat p at (n', s') of (ts', i) \<Rightarrow> (ts @ ts', i))
          else (ts, n', s'))"
  by pat_completeness auto
termination
  by (relation "measure (\<lambda>(p, at, n, s). length s)") auto

declare pest_repeat.simps [simp del]

definition pest_skip :: "'r matcher \<Rightarrow> atomicity \<Rightarrow> input \<Rightarrow> 'r pair list \<times> input" where
  "pest_skip ws at i = (if at = NonAtomic then pest_repeat ws at i else ([], i))"

definition pest_seq :: "'r matcher \<Rightarrow> 'r matcher \<Rightarrow> 'r matcher \<Rightarrow> 'r matcher" where
  "pest_seq ws p q at i =
     (case p at i of
        None \<Rightarrow> None
      | Some (ts, j) \<Rightarrow>
          (case pest_skip ws at j of
             (us, k) \<Rightarrow>
               (case q at k of None \<Rightarrow> None | Some (vs, l) \<Rightarrow> Some (ts @ us @ vs, l))))"

definition pest_skip_then :: "'r matcher \<Rightarrow> 'r matcher \<Rightarrow> 'r matcher" where
  "pest_skip_then ws p at i =
     (case pest_skip ws at i of
        (us, k) \<Rightarrow> (case p at k of None \<Rightarrow> None | Some (vs, l) \<Rightarrow> Some (us @ vs, l)))"

definition pest_star :: "'r matcher \<Rightarrow> 'r matcher \<Rightarrow> 'r matcher" where
  "pest_star ws p at i =
     (case p at i of
        None \<Rightarrow> Some ([], i)
      | Some (ts, j) \<Rightarrow>
          (case pest_repeat (pest_skip_then ws p) at j of (us, k) \<Rightarrow> Some (ts @ us, k)))"

definition pest_plus :: "'r matcher \<Rightarrow> 'r matcher \<Rightarrow> 'r matcher" where
  "pest_plus ws p = pest_seq ws p (pest_star ws p)"

text \<open>A rule produces a pair around what it matched, unless it runs inside an atomic rule.\<close>

definition pest_rule :: "'r \<Rightarrow> 'r matcher \<Rightarrow> 'r matcher" where
  "pest_rule r p at = (\<lambda>(n, s).
     case p at (n, s) of
       None \<Rightarrow> None
     | Some (ts, n', s') \<Rightarrow>
         Some (if at = Atomic then ts else [PestPair r (take (n' - n) s) ts], n', s'))"

text \<open>The modifier \<open>@\<close>: the rule's pair is the caller's, its body runs atomically.\<close>

definition pest_atomic_rule :: "'r \<Rightarrow> 'r matcher \<Rightarrow> 'r matcher" where
  "pest_atomic_rule r p = pest_rule r (\<lambda>_. p Atomic)"

text \<open>\<open>Parser::parse\<close>: match one rule at the start of the input.\<close>

datatype parse_error = ParsingError

definition pest_parse :: "'r matcher \<Rightarrow> string \<Rightarrow> parse_error + 'r pair list" where
  "pest_parse p s = (case p NonAtomic (0, s) of None \<Rightarrow> Inl ParsingError | Some (ts, _) \<Rightarrow> Inr ts)"

section \<open>Positions\<close>

text \<open>
  The input that is left determines the position: \<open>left n s r\<close> is the place where \<open>r\<close>,
  a suffix of \<open>s\<close>, remains of an input that had \<open>s\<close> left at position \<open>n\<close>.
\<close>

definition left :: "nat \<Rightarrow> string \<Rightarrow> string \<Rightarrow> input" where
  "left n s r = (n + (length s - length r), r)"

lemma left_trans:
  "length r \<le> length s \<Longrightarrow> length q \<le> length r \<Longrightarrow> left (n + (length s - length r)) r q = left n s q"
  by (simp add: left_def)

lemma left_self [simp]: "left n s s = (n, s)"
  by (simp add: left_def)

lemma length_takeWhile_diff: "length (takeWhile P s) = length s - length (dropWhile P s)"
  using length_append [of "takeWhile P s" "dropWhile P s"] by simp

lemma take_takeWhile [simp]: "take (length s - length (dropWhile P s)) s = takeWhile P s"
  by (metis length_takeWhile_diff takeWhile_eq_take)

section \<open>Character classes and their repetitions\<close>

text \<open>
  \<open>matches_class p P at\<close>: under atomicity \<open>at\<close>, \<open>p\<close> matches one character of \<open>P\<close> and
  produces no pair. Choices of classes are classes, and their repetition inside an
  atomic rule takes the longest prefix.
\<close>

definition matches_class :: "'r matcher \<Rightarrow> (char \<Rightarrow> bool) \<Rightarrow> atomicity \<Rightarrow> bool" where
  "matches_class p P at \<longleftrightarrow> (\<forall>n s. p at (n, s) = pest_class P at (n, s))"

lemma matches_class_class [intro]: "matches_class (pest_class P) P at"
  by (simp add: matches_class_def)

lemma matches_class_range [intro]:
  "matches_class (pest_range lo hi)
     (\<lambda>c. (of_char lo :: nat) \<le> of_char c \<and> (of_char c :: nat) \<le> of_char hi) at"
  by (simp add: matches_class_def pest_range_def)

lemma matches_class_char [intro]: "matches_class (pest_str [c]) (\<lambda>d. d = c) at"
  by (auto simp: matches_class_def pest_str_def pest_class_def split: list.split)

lemma matches_class_choice [intro]:
  assumes "matches_class p P at" and "matches_class q Q at"
  shows "matches_class (pest_choice p q) (\<lambda>c. P c \<or> Q c) at"
  using assms
  by (auto simp: matches_class_def pest_choice_def pest_class_def split: list.split)

lemma matches_classD: "matches_class p P at \<Longrightarrow> p at i = pest_class P at i"
  by (cases i) (simp add: matches_class_def)

lemma repeat_class:
  assumes "matches_class p P at"
  shows "pest_repeat p at (n, s) = ([], left n s (dropWhile P s))"
proof (induction s arbitrary: n)
  case Nil
  show ?case
    by (simp add: pest_repeat.simps matches_classD [OF assms] pest_class_def)
next
  case (Cons c s)
  show ?case
    using Cons.IH [of "n + 1"] length_dropWhile_le [of P s]
    by (simp add: pest_repeat.simps [of p at n] matches_classD [OF assms] pest_class_def
        left_def Suc_diff_le)
qed

lemma skip_then_atomic [simp]: "pest_skip_then ws p Atomic i = p Atomic i"
  by (auto simp: pest_skip_then_def pest_skip_def split: option.split)

lemma star_class_atomic:
  assumes "matches_class p P Atomic"
  shows "pest_star ws p Atomic (n, s) = Some ([], left n s (dropWhile P s))"
proof -
  have "matches_class (pest_skip_then ws p) P Atomic"
    using assms by (simp add: matches_class_def)
  then show ?thesis
    by (cases s)
       (simp_all add: pest_star_def matches_classD [OF assms] pest_class_def repeat_class
         left_def Suc_diff_le length_dropWhile_le)
qed

lemma plus_class_atomic:
  assumes "matches_class p P Atomic"
  shows "pest_plus ws p Atomic (n, s) =
    (if takeWhile P s = [] then None else Some ([], left n s (dropWhile P s)))"
  by (cases s)
     (simp_all add: pest_plus_def pest_seq_def pest_skip_def matches_classD [OF assms]
       pest_class_def star_class_atomic [OF assms] left_def Suc_diff_le length_dropWhile_le)

lemma skip_class:
  assumes "matches_class ws P NonAtomic"
  shows "pest_skip ws NonAtomic (n, s) = ([], left n s (dropWhile P s))"
  by (simp add: pest_skip_def repeat_class [OF assms])

section \<open>What an expression reads\<close>

text \<open>
  \<open>reads p s res\<close>: in a non-atomic context and from any position, \<open>p\<close> applied to the
  input \<open>s\<close> fails (\<open>None\<close>) or produces these pairs and leaves this rest. One rule per
  operator; \<open>W\<close> is the class of blanks that the whitespace rule skips.
\<close>

definition reads :: "'r matcher \<Rightarrow> string \<Rightarrow> ('r pair list \<times> string) option \<Rightarrow> bool" where
  "reads p s res \<longleftrightarrow>
     (\<forall>n. p NonAtomic (n, s) = map_option (\<lambda>(ts, r). (ts, left n s r)) res) \<and>
     (\<forall>ts r. res = Some (ts, r) \<longrightarrow> length r \<le> length s)"

lemma readsD: "reads p s res \<Longrightarrow> p NonAtomic (n, s) = map_option (\<lambda>(ts, r). (ts, left n s r)) res"
  by (simp add: reads_def)

lemma reads_left:
  assumes "reads p r res" and "length r \<le> length s"
  shows "p NonAtomic (left n s r) = map_option (\<lambda>(ts, e). (ts, left n s e)) res"
  using assms by (cases res) (auto simp: reads_def left_def)

lemma reads_str: "reads (pest_str [c]) s (case s of [] \<Rightarrow> None | d # r \<Rightarrow> if d = c then Some ([], r) else None)"
  by (auto simp: reads_def pest_str_def left_def split: list.split)

lemma skip_left:
  assumes "matches_class ws W NonAtomic" and "length r \<le> length s"
  shows "pest_skip ws NonAtomic (left n s r) = ([], left n s (dropWhile W r))"
  using assms(2) length_dropWhile_le [of W r] by (simp add: left_def skip_class [OF assms(1)])

lemma reads_seq:
  assumes ws: "matches_class ws W NonAtomic" and p: "reads p s (Some (ts, r))"
    and q: "reads q (dropWhile W r) res"
  shows "reads (pest_seq ws p q) s (map_option (\<lambda>(us, e). (ts @ us, e)) res)"
proof -
  have r: "length r \<le> length s" using p by (simp add: reads_def)
  with length_dropWhile_le [of W r] have w: "length (dropWhile W r) \<le> length s" by simp
  show ?thesis
    using q w r
    by (cases res) (auto simp: reads_def [of "pest_seq ws p q"] pest_seq_def readsD [OF p]
        skip_left [OF ws r] reads_left [OF q w] reads_def)
qed

lemma reads_seq_None: "reads p s None \<Longrightarrow> reads (pest_seq ws p q) s None"
  by (simp add: reads_def pest_seq_def)

lemma reads_skip_then:
  assumes ws: "matches_class ws W NonAtomic" and p: "reads p (dropWhile W s) res"
  shows "reads (pest_skip_then ws p) s res"
proof -
  have w: "length (dropWhile W s) \<le> length s" by (rule length_dropWhile_le)
  show ?thesis
    using p w skip_left [OF ws order_refl, of _ s] reads_left [OF p w]
    by (cases res) (auto simp: reads_def pest_skip_then_def)
qed

lemma reads_opt: "reads p s res \<Longrightarrow> reads (pest_opt p) s (Some (case res of None \<Rightarrow> ([], s) | Some x \<Rightarrow> x))"
  by (cases res) (auto simp: reads_def pest_opt_def)

lemma reads_choice_left: "reads p s (Some x) \<Longrightarrow> reads (pest_choice p q) s (Some x)"
  by (auto simp: reads_def pest_choice_def)

lemma reads_choice_right: "reads p s None \<Longrightarrow> reads q s res \<Longrightarrow> reads (pest_choice p q) s res"
  by (auto simp: reads_def pest_choice_def)

lemma reads_rule:
  assumes "reads p s res"
  shows "reads (pest_rule r p) s
    (map_option (\<lambda>(ts, e). ([PestPair r (take (length s - length e) s) ts], e)) res)"
  using assms by (cases res) (auto simp: reads_def pest_rule_def left_def)

lemma reads_plus_class:
  assumes "matches_class p P Atomic"
  shows "reads (pest_atomic_rule r (pest_plus ws p)) s
    (if takeWhile P s = [] then None else Some ([PestPair r (takeWhile P s) []], dropWhile P s))"
  by (auto simp: reads_def pest_atomic_rule_def pest_rule_def plus_class_atomic [OF assms]
      left_def length_dropWhile_le)

lemma reads_star_class:
  assumes "matches_class p P Atomic"
  shows "reads (pest_atomic_rule r (pest_star ws p)) s
    (Some ([PestPair r (takeWhile P s) []], dropWhile P s))"
  by (auto simp: reads_def pest_atomic_rule_def pest_rule_def star_class_atomic [OF assms]
      left_def length_dropWhile_le)

text \<open>Repetition, for bodies that make progress.\<close>

lemma repeat_None: "reads p s None \<Longrightarrow> pest_repeat p NonAtomic (n, s) = ([], n, s)"
  by (simp add: pest_repeat.simps [of p NonAtomic n s] readsD)

lemma repeat_Some:
  assumes "reads p s (Some (ts, r))" and "length r < length s"
    and "\<And>m. pest_repeat p NonAtomic (m, r) = (us, left m r e)" and "length e \<le> length r"
  shows "pest_repeat p NonAtomic (n, s) = (ts @ us, left n s e)"
  using assms(2,4) assms(3) [of "n + (length s - length r)"]
  by (simp add: pest_repeat.simps [of p NonAtomic n s] readsD [OF assms(1)] left_def)

text \<open>
  A repetition whose first element stands where no blank is: the first round, which does
  not skip, is then like the others.
\<close>

lemma reads_star:
  assumes "dropWhile W s = s" and ws: "matches_class ws W NonAtomic"
    and body: "reads p s res" and progress: "\<And>ts r. res = Some (ts, r) \<Longrightarrow> length r < length s"
    and loop: "\<And>n. pest_repeat (pest_skip_then ws p) NonAtomic (n, s) = (us, left n s e)"
    and e: "length e \<le> length s"
  shows "reads (pest_star ws p) s (Some (us, e))"
proof -
  have skip: "reads (pest_skip_then ws p) s res"
    using assms(1) body by (intro reads_skip_then [OF ws]) simp
  show ?thesis
  proof (cases res)
    case None
    with skip have "pest_repeat (pest_skip_then ws p) NonAtomic (0, s) = ([], 0, s)"
      by (intro repeat_None) simp
    with loop [of 0] have "us = []" and "e = s" by (auto simp: left_def)
    with None body show ?thesis by (simp add: reads_def pest_star_def)
  next
    case (Some x)
    then obtain ts r where x: "res = Some (ts, r)" by (cases x) auto
    then have lt: "length r < length s" by (rule progress)
    have "pest_star ws p NonAtomic (n, s) = Some (us, left n s e)" for n
    proof -
      have "pest_repeat (pest_skip_then ws p) NonAtomic (n, s) =
          (case pest_repeat (pest_skip_then ws p) NonAtomic (left n s r) of (vs, i) \<Rightarrow> (ts @ vs, i))"
        using lt by (simp add: pest_repeat.simps [of "pest_skip_then ws p" NonAtomic n s]
            readsD [OF skip] x left_def)
      then show ?thesis
        using loop [of n] by (simp add: pest_star_def readsD [OF body] x split: prod.splits)
    qed
    with e show ?thesis by (simp add: reads_def)
  qed
qed

end
