(* ===== verification/ConfGrammar.thy ===== *)
theory ConfGrammar
  imports Pest
begin

text \<open>
  The grammar of the agent's option string, \<^verbatim>\<open>phasicj/agent/conf/src/PjAgentConfLang.pest\<close>,
  rule by rule and in the file's order, and what it accepts: an explicit reader of
  option lists, its agreement with the grammar, and a printer it inverts.
\<close>

section \<open>The grammar\<close>

datatype rule =
    Lower_latin_alpha
  | Snake_case_name
  | Conf_option_name
  | Conf_option_arg
  | Conf_option_quoted_arg
  | Agent_option
  | Agent_options_list_sep
  | Agent_options_list
  | WHITESPACE_rule
  | EOI

type_synonym rule_matcher = "rule matcher"

definition whitespace :: rule_matcher where
  "whitespace = pest_str '' ''"

definition lower_latin_alpha :: rule_matcher where
  "lower_latin_alpha = pest_range (CHR ''a'') (CHR ''z'')"

definition snake_case_name :: rule_matcher where
  "snake_case_name = pest_plus whitespace (pest_choice lower_latin_alpha (pest_str ''_''))"

definition conf_option_name :: rule_matcher where
  "conf_option_name = pest_atomic_rule Conf_option_name snake_case_name"

definition ascii_alphanumeric :: rule_matcher where
  "ascii_alphanumeric =
     pest_choice (pest_range (CHR ''a'') (CHR ''z''))
       (pest_choice (pest_range (CHR ''A'') (CHR ''Z'')) (pest_range (CHR ''0'') (CHR ''9'')))"

definition conf_option_arg :: rule_matcher where
  "conf_option_arg = pest_atomic_rule Conf_option_arg
     (pest_star whitespace
        (pest_choice ascii_alphanumeric
          (pest_choice (pest_str ''.'')
            (pest_choice (pest_str '' '')
              (pest_choice (pest_str ''/'')
                (pest_choice (pest_str ''-'') (pest_str ''_'')))))))"

definition conf_option_quoted_arg :: rule_matcher where
  "conf_option_quoted_arg =
     pest_seq whitespace
       (pest_seq whitespace (pest_str [CHR 0x22]) conf_option_arg) (pest_str [CHR 0x22])"

definition agent_option :: rule_matcher where
  "agent_option = pest_rule Agent_option
     (pest_seq whitespace conf_option_name
        (pest_opt (pest_seq whitespace (pest_str ''='')
                     (pest_choice conf_option_quoted_arg conf_option_arg))))"

definition agent_options_list_sep :: rule_matcher where
  "agent_options_list_sep = pest_str '',''"

definition agent_options_list :: rule_matcher where
  "agent_options_list = pest_rule Agent_options_list
     (pest_seq whitespace
        (pest_seq whitespace pest_soi
           (pest_opt (pest_seq whitespace agent_option
              (pest_star whitespace (pest_seq whitespace agent_options_list_sep agent_option)))))
        (pest_rule EOI pest_end))"

text \<open>\<open>PjAgentConfParser::parse(Rule::agent_options_list, \<dots>)\<close>\<close>

definition parse_agent_options_list :: "string \<Rightarrow> parse_error + rule pair list" where
  "parse_agent_options_list = pest_parse agent_options_list"

section \<open>What the rules accept\<close>

definition name_char :: "char \<Rightarrow> bool" where
  "name_char c \<longleftrightarrow> (97 \<le> (of_char c :: nat) \<and> (of_char c :: nat) \<le> 122) \<or> c = CHR ''_''"

definition arg_char :: "char \<Rightarrow> bool" where
  "arg_char c \<longleftrightarrow>
     (97 \<le> (of_char c :: nat) \<and> (of_char c :: nat) \<le> 122) \<or>
     (65 \<le> (of_char c :: nat) \<and> (of_char c :: nat) \<le> 90) \<or>
     (48 \<le> (of_char c :: nat) \<and> (of_char c :: nat) \<le> 57) \<or>
     c = CHR ''.'' \<or> c = CHR '' '' \<or> c = CHR ''/'' \<or> c = CHR ''-'' \<or> c = CHR ''_''"

abbreviation trim :: "string \<Rightarrow> string" where
  "trim \<equiv> dropWhile (\<lambda>c. c = CHR '' '')"

abbreviation quote :: char where
  "quote \<equiv> CHR 0x22"

lemma char_facts [simp]:
  "\<not> name_char (CHR '' '')" "\<not> name_char (CHR ''='')" "\<not> name_char (CHR '','')"
  "\<not> name_char quote"
  "arg_char (CHR '' '')" "\<not> arg_char (CHR ''='')" "\<not> arg_char (CHR '','')" "\<not> arg_char quote"
  by (simp_all add: name_char_def arg_char_def)

lemma matches_whitespace: "matches_class whitespace (\<lambda>c. c = CHR '' '') at"
  unfolding whitespace_def by (rule matches_class_char)

lemma matches_name_char:
  "matches_class (pest_choice lower_latin_alpha (pest_str ''_'')) name_char at"
proof -
  have eq: "name_char = (\<lambda>c. ((of_char (CHR ''a'') :: nat) \<le> of_char c \<and>
      (of_char c :: nat) \<le> of_char (CHR ''z'')) \<or> c = CHR ''_'')"
    by (simp add: fun_eq_iff name_char_def)
  show ?thesis
    unfolding lower_latin_alpha_def eq
    by (intro matches_class_choice matches_class_range matches_class_char)
qed

lemma matches_arg_char:
  "matches_class
     (pest_choice ascii_alphanumeric
          (pest_choice (pest_str ''.'')
            (pest_choice (pest_str '' '')
              (pest_choice (pest_str ''/'')
                (pest_choice (pest_str ''-'') (pest_str ''_'')))))) arg_char at"
proof -
  have eq: "arg_char = (\<lambda>c.
      (((of_char (CHR ''a'') :: nat) \<le> of_char c \<and> (of_char c :: nat) \<le> of_char (CHR ''z'')) \<or>
       ((of_char (CHR ''A'') :: nat) \<le> of_char c \<and> (of_char c :: nat) \<le> of_char (CHR ''Z'')) \<or>
       ((of_char (CHR ''0'') :: nat) \<le> of_char c \<and> (of_char c :: nat) \<le> of_char (CHR ''9''))) \<or>
      c = CHR ''.'' \<or> c = CHR '' '' \<or> c = CHR ''/'' \<or> c = CHR ''-'' \<or> c = CHR ''_'')"
    by (simp add: fun_eq_iff arg_char_def)
  show ?thesis
    unfolding ascii_alphanumeric_def eq
    by (intro matches_class_choice matches_class_range matches_class_char)
qed

lemma reads_name:
  "reads conf_option_name s
     (if takeWhile name_char s = [] then None
      else Some ([PestPair Conf_option_name (takeWhile name_char s) []], dropWhile name_char s))"
  unfolding conf_option_name_def snake_case_name_def
  by (rule reads_plus_class) (rule matches_name_char)

lemma reads_arg:
  "reads conf_option_arg s
     (Some ([PestPair Conf_option_arg (takeWhile arg_char s) []], dropWhile arg_char s))"
  unfolding conf_option_arg_def by (rule reads_star_class) (rule matches_arg_char)

lemmas reads_seq_ws = reads_seq [OF matches_whitespace]

section \<open>An explicit reader\<close>

text \<open>
  \<open>read_option\<close> reads one option: the longest name, and after \<open>=\<close> a quoted or a bare
  argument, blanks being skipped where the grammar's implicit whitespace skips them:
  after the name, after \<open>=\<close> and after the opening quote. An argument contains blanks
  itself, so those before a comma or a closing quote belong to it.
\<close>

definition read_value :: "string \<Rightarrow> string \<times> string" where
  "read_value s =
     (case s of
        [] \<Rightarrow> ([], [])
      | c # r \<Rightarrow>
          if c = quote \<and> dropWhile arg_char (trim r) \<noteq> [] \<and> hd (dropWhile arg_char (trim r)) = quote
          then (takeWhile arg_char (trim r), tl (dropWhile arg_char (trim r)))
          else (takeWhile arg_char s, dropWhile arg_char s))"

type_synonym opt = "string \<times> string option"

definition read_option :: "string \<Rightarrow> (opt \<times> string) option" where
  "read_option s =
     (let name = takeWhile name_char s; r = trim (dropWhile name_char s) in
      if name = [] then None
      else if r \<noteq> [] \<and> hd r = CHR ''='' then
        (case read_value (trim (tl r)) of (v, q) \<Rightarrow> Some ((name, Some v), q))
      else Some ((name, None), r))"

lemma read_value_length: "read_value s = (v, q) \<Longrightarrow> length q \<le> length s"
proof (cases s)
  case (Cons c r)
  assume "read_value s = (v, q)"
  moreover have "length (tl (dropWhile arg_char (trim r))) \<le> length r"
    using length_dropWhile_le [of arg_char "trim r"] length_dropWhile_le [of "\<lambda>c. c = CHR '' ''" r]
    by simp
  ultimately show ?thesis
    using Cons length_dropWhile_le [of arg_char s] by (auto simp: read_value_def split: if_splits)
qed (simp add: read_value_def)

lemma trim_tl_length: "length (trim (tl s)) \<le> length s"
  by (metis le_trans length_dropWhile_le length_tl diff_le_self)

lemma read_option_length: "read_option s = Some (opt, r) \<Longrightarrow> length r < length s"
proof -
  assume opt: "read_option s = Some (opt, r)"
  let ?r = "trim (dropWhile name_char s)"
  have "takeWhile name_char s \<noteq> []" using opt by (auto simp: read_option_def Let_def)
  then have "length (dropWhile name_char s) < length s"
    by (cases s) (auto simp: less_Suc_eq_le length_dropWhile_le split: if_splits)
  then have lt: "length ?r < length s"
    by (meson le_less_trans length_dropWhile_le)
  show ?thesis
  proof (cases "?r \<noteq> [] \<and> hd ?r = CHR ''=''")
    case True
    then have "snd (read_value (trim (tl ?r))) = r"
      using opt by (auto simp: read_option_def Let_def split: prod.splits if_splits)
    then have "length r \<le> length (trim (tl ?r))"
      by (metis read_value_length prod.collapse)
    with lt trim_tl_length [of ?r] show ?thesis by linarith
  next
    case False
    with opt lt show ?thesis by (auto simp: read_option_def Let_def split: if_splits)
  qed
qed

text \<open>The rest of a list: a comma, blanks, an option, as often as that goes.\<close>

function read_tail :: "string \<Rightarrow> (opt \<times> string) list \<times> string" where
  "read_tail s =
     (if trim s \<noteq> [] \<and> hd (trim s) = CHR '','' then
        (case read_option (trim (tl (trim s))) of
           None \<Rightarrow> ([], s)
         | Some (opt, r) \<Rightarrow>
             (case read_tail r of
                (opts, e) \<Rightarrow>
                  ((opt, take (length (trim (tl (trim s))) - length r) (trim (tl (trim s)))) # opts, e)))
      else ([], s))"
  by pat_completeness auto
termination
proof (relation "measure length")
  fix s opt r x y
  assume "read_option (trim (tl (trim s))) = Some x" "(opt, r) = x"
  then have "length r < length (trim (tl (trim s)))" by (auto dest: read_option_length)
  with trim_tl_length [of "trim s"] length_dropWhile_le [of "\<lambda>c. c = CHR '' ''" s]
  show "(r, s) \<in> measure length" by simp
qed simp

declare read_tail.simps [simp del]

definition read_options :: "string \<Rightarrow> (opt \<times> string) list option" where
  "read_options s =
     (case read_option (trim s) of
        None \<Rightarrow> if trim s = [] then Some [] else None
      | Some (opt, r) \<Rightarrow>
          (case read_tail r of
             (opts, e) \<Rightarrow>
               if trim e = [] then Some ((opt, take (length (trim s) - length r) (trim s)) # opts)
               else None))"

section \<open>The grammar and the reader agree\<close>

fun option_pair :: "opt \<times> string \<Rightarrow> rule pair" where
  "option_pair ((name, value), txt) = PestPair Agent_option txt
     (PestPair Conf_option_name name [] #
      (case value of None \<Rightarrow> [] | Some v \<Rightarrow> [PestPair Conf_option_arg v []]))"

lemma trim_arg [simp]: "trim (dropWhile arg_char s) = dropWhile arg_char s"
  by (induction s) auto

lemma reads_char:
  "reads (pest_str [c]) s (if s \<noteq> [] \<and> hd s = c then Some ([], tl s) else None)"
  using reads_str [of c s] by (cases s) auto

lemma reads_quoted:
  "reads conf_option_quoted_arg s
     (if s \<noteq> [] \<and> hd s = quote \<and> dropWhile arg_char (trim (tl s)) \<noteq> [] \<and>
         hd (dropWhile arg_char (trim (tl s))) = quote
      then Some ([PestPair Conf_option_arg (takeWhile arg_char (trim (tl s))) []],
                 tl (dropWhile arg_char (trim (tl s))))
      else None)"
proof (cases "s \<noteq> [] \<and> hd s = quote")
  case True
  then have open_quote: "reads (pest_str [quote]) s (Some ([], tl s))"
    using reads_char [of quote s] by simp
  note body = reads_seq_ws [OF open_quote reads_arg, simplified]
  show ?thesis
    unfolding conf_option_quoted_arg_def
    using reads_seq_ws [OF body reads_char, of quote] True by (auto split: if_splits)
next
  case False
  then have "reads (pest_str [quote]) s None"
    using reads_char [of quote s] by (simp only: if_False)
  with False show ?thesis
    unfolding conf_option_quoted_arg_def by (auto intro: reads_seq_None)
qed

lemma reads_value:
  "reads (pest_choice conf_option_quoted_arg conf_option_arg) s
     (case read_value s of (v, q) \<Rightarrow> Some ([PestPair Conf_option_arg v []], q))"
proof (cases "s \<noteq> [] \<and> hd s = quote \<and> dropWhile arg_char (trim (tl s)) \<noteq> [] \<and>
    hd (dropWhile arg_char (trim (tl s))) = quote")
  case True
  then show ?thesis
    using reads_choice_left [OF reads_quoted [of s, unfolded if_P [OF True]]]
    by (cases s) (auto simp: read_value_def)
next
  case False
  then show ?thesis
    using reads_choice_right [OF reads_quoted [of s, unfolded if_not_P [OF False]] reads_arg]
    by (cases s) (auto simp: read_value_def)
qed

lemma reads_option:
  "reads agent_option s
     (case read_option s of
        None \<Rightarrow> None
      | Some (opt, r) \<Rightarrow> Some ([option_pair (opt, take (length s - length r) s)], r))"
proof (cases "takeWhile name_char s = []")
  case True
  then have "reads conf_option_name s None" using reads_name [of s] by simp
  from reads_rule [OF reads_seq_None [OF this]] True show ?thesis
    by (simp add: agent_option_def read_option_def)
next
  case name: False
  let ?r = "trim (dropWhile name_char s)"
  have nm: "reads conf_option_name s
      (Some ([PestPair Conf_option_name (takeWhile name_char s) []], dropWhile name_char s))"
    using name reads_name [of s] by simp
  show ?thesis
  proof (cases "?r \<noteq> [] \<and> hd ?r = CHR ''=''")
    case False
    then have "reads (pest_str ''='') ?r None"
      using reads_char [of "CHR ''=''" ?r] by (simp only: if_False)
    from reads_rule [OF reads_seq_ws [OF nm reads_opt [OF reads_seq_None [OF this]]]] name False
    show ?thesis
      by (auto simp: agent_option_def read_option_def Let_def)
  next
    case True
    obtain v e where v: "read_value (trim (tl ?r)) = (v, e)" by fastforce
    have eq: "reads (pest_str ''='') ?r (Some ([], tl ?r))"
      using True reads_char [of "CHR ''=''" ?r] by simp
    from reads_rule [OF reads_seq_ws [OF nm reads_opt [OF reads_seq_ws [OF eq reads_value]]]]
      v name True
    show ?thesis
      by (simp add: agent_option_def read_option_def Let_def)
  qed
qed

text \<open>The options after the first: the loop of the grammar's repetition is \<open>read_tail\<close>.\<close>

lemma reads_sep_option:
  "reads (pest_seq whitespace agent_options_list_sep agent_option) s
     (if s \<noteq> [] \<and> hd s = CHR '','' then
        (case read_option (trim (tl s)) of
           None \<Rightarrow> None
         | Some (opt, r) \<Rightarrow>
             Some ([option_pair (opt, take (length (trim (tl s)) - length r) (trim (tl s)))], r))
      else None)"
proof (cases "s \<noteq> [] \<and> hd s = CHR '',''")
  case True
  then have "reads agent_options_list_sep s (Some ([], tl s))"
    using reads_char [of "CHR '',''" s] by (simp add: agent_options_list_sep_def)
  from reads_seq_ws [OF this reads_option] True show ?thesis
    by (cases "read_option (trim (tl s))") auto
next
  case False
  then have "reads agent_options_list_sep s None"
    using reads_char [of "CHR '',''" s] by (simp only: agent_options_list_sep_def if_False)
  from reads_seq_None [OF this] False show ?thesis by (auto simp: if_not_P)
qed

lemma read_tail_length: "read_tail s = (os, e) \<Longrightarrow> length e \<le> length s"
proof (induction s arbitrary: os e rule: read_tail.induct)
  case (1 s)
  show ?case
  proof (cases "trim s \<noteq> [] \<and> hd (trim s) = CHR '',''")
    case True
    then show ?thesis
    proof (cases "read_option (trim (tl (trim s)))")
      case None
      with 1 True show ?thesis by (simp add: read_tail.simps [of s])
    next
      case (Some x)
      then obtain opt r where x: "read_option (trim (tl (trim s))) = Some (opt, r)"
        by (cases x) auto
      obtain os' e' where tail: "read_tail r = (os', e')" by fastforce
      have "length e' \<le> length r" using 1(1) [OF True x refl tail] .
      moreover have "length r < length (trim (tl (trim s)))" using x by (rule read_option_length)
      moreover have "length (trim (tl (trim s))) \<le> length s"
        by (rule le_trans [OF trim_tl_length length_dropWhile_le])
      ultimately show ?thesis using 1(2) True x tail by (simp add: read_tail.simps [of s])
    qed
  next
    case False
    with 1(2) show ?thesis by (simp add: read_tail.simps [of s] if_not_P)
  qed
qed

lemma repeat_read_tail:
  "read_tail s = (os, e) \<Longrightarrow>
   pest_repeat (pest_skip_then whitespace (pest_seq whitespace agent_options_list_sep agent_option))
     NonAtomic (n, s) = (map option_pair os, left n s e)"
proof (induction s arbitrary: os e n rule: read_tail.induct)
  case (1 s)
  let ?body = "pest_skip_then whitespace (pest_seq whitespace agent_options_list_sep agent_option)"
  note body = reads_skip_then [OF matches_whitespace reads_sep_option [of "trim s"]]
  show ?case
  proof (cases "\<exists>opt r. trim s \<noteq> [] \<and> hd (trim s) = CHR '','' \<and>
      read_option (trim (tl (trim s))) = Some (opt, r)")
    case True
    then obtain opt r where comma: "trim s \<noteq> [] \<and> hd (trim s) = CHR '',''"
      and opt: "read_option (trim (tl (trim s))) = Some (opt, r)" by blast
    obtain os' e' where tail: "read_tail r = (os', e')" by fastforce
    let ?txt = "take (length (trim (tl (trim s))) - length r) (trim (tl (trim s)))"
    have "length r < length (trim (tl (trim s)))" using opt by (rule read_option_length)
    moreover have "length (trim (tl (trim s))) \<le> length s"
      by (rule le_trans [OF trim_tl_length length_dropWhile_le])
    ultimately have "length r < length s" by simp
    moreover have "reads ?body s (Some ([option_pair (opt, ?txt)], r))"
      using body comma opt by simp
    ultimately have "pest_repeat ?body NonAtomic (n, s) =
        ([option_pair (opt, ?txt)] @ map option_pair os', left n s e')"
      using 1(1) [OF comma opt refl tail] read_tail_length [OF tail] by (intro repeat_Some)
    with 1(2) comma opt tail show ?thesis by (auto simp: read_tail.simps [of s])
  next
    case False
    then have "reads ?body s None"
      using body by (auto split: if_splits option.splits)
    then have "pest_repeat ?body NonAtomic (n, s) = ([], n, s)" by (rule repeat_None)
    moreover have "read_tail s = ([], s)"
      using False by (auto simp: read_tail.simps [of s] split: option.splits)
    ultimately show ?thesis using 1(2) by simp
  qed
qed

lemma read_tail_trim: "read_tail (trim s) = (fst (read_tail s), if fst (read_tail s) = [] then trim s else snd (read_tail s))"
  by (auto simp: read_tail.simps [of s] read_tail.simps [of "trim s"] split: option.splits prod.splits)

lemma trim_read_tail_end:
  "trim (snd (read_tail (trim s))) = trim (snd (read_tail s))"
proof (cases "fst (read_tail s) = []")
  case True
  then have "snd (read_tail s) = s"
    by (auto simp: read_tail.simps [of s] split: if_splits option.splits prod.splits)
  with True show ?thesis by (simp add: read_tail_trim)
qed (simp add: read_tail_trim)

lemma reads_tail:
  "reads (pest_star whitespace (pest_seq whitespace agent_options_list_sep agent_option)) (trim s)
     (Some (map option_pair (fst (read_tail s)), snd (read_tail (trim s))))"
proof -
  have tail: "read_tail (trim s) = (fst (read_tail s), snd (read_tail (trim s)))"
    by (simp add: read_tail_trim)
  show ?thesis
  proof (rule reads_star [OF _ matches_whitespace reads_sep_option])
    fix ts r
    assume "(if trim s \<noteq> [] \<and> hd (trim s) = CHR '','' then
        (case read_option (trim (tl (trim s))) of
           None \<Rightarrow> None
         | Some (opt, r) \<Rightarrow>
             Some ([option_pair (opt, take (length (trim (tl (trim s))) - length r)
               (trim (tl (trim s))))], r)) else None) = Some (ts, r)"
    then obtain opt where "read_option (trim (tl (trim s))) = Some (opt, r)"
      by (auto split: if_splits option.splits)
    then have "length r < length (trim (tl (trim s)))" by (rule read_option_length)
    then show "length r < length (trim s)" using trim_tl_length [of "trim s"] by simp
  qed (simp_all add: repeat_read_tail [OF tail] read_tail_length [OF tail])
qed

lemma reads_eoi:
  "reads (pest_rule EOI pest_end) s (if s = [] then Some ([PestPair EOI [] []], []) else None)"
  by (simp add: reads_def pest_rule_def pest_end_def left_def)

lemma reads_list_body:
  "reads (pest_opt (pest_seq whitespace agent_option
       (pest_star whitespace (pest_seq whitespace agent_options_list_sep agent_option)))) s
     (Some (case read_option s of
        None \<Rightarrow> ([], s)
      | Some (opt, r) \<Rightarrow>
          (option_pair (opt, take (length s - length r) s) # map option_pair (fst (read_tail r)),
           snd (read_tail (trim r)))))"
proof (cases "read_option s")
  case None
  then have "reads agent_option s None" using reads_option [of s] by simp
  from reads_opt [OF reads_seq_None [OF this]] None show ?thesis by simp
next
  case (Some x)
  then obtain opt r where x: "read_option s = Some (opt, r)" by (cases x) auto
  then have "reads agent_option s
      (Some ([option_pair (opt, take (length s - length r) s)], r))"
    using reads_option [of s] by simp
  from reads_opt [OF reads_seq_ws [OF this reads_tail]] x show ?thesis by simp
qed

text \<open>
  The start-of-input test succeeds only at position 0, where \<open>parse\<close> begins, so the
  outermost rule is run from there.
\<close>

lemma run_list:
  assumes body: "reads p (trim s) (Some (ts, e))"
  shows "pest_seq whitespace (pest_seq whitespace pest_soi p) (pest_rule EOI pest_end)
      NonAtomic (0, s) =
    (if trim e = [] then Some (ts @ [PestPair EOI [] []], left 0 s []) else None)"
proof -
  have le: "length (trim s) \<le> length s" by (rule length_dropWhile_le)
  have "length e \<le> length (trim s)" using body by (simp add: reads_def)
  with le have e: "length e \<le> length s" by simp
  then have e': "length (trim e) \<le> length s" using length_dropWhile_le le_trans by blast
  have soi: "pest_soi NonAtomic (0, s) = Some ([], left 0 s s)"
    by (simp add: pest_soi_def)
  have "pest_seq whitespace pest_soi p NonAtomic (0, s) = Some (ts, left 0 s e)"
    by (simp add: pest_seq_def soi skip_left [OF matches_whitespace order_refl]
        reads_left [OF body le] del: left_self)
  then show ?thesis
    by (simp add: pest_seq_def [of whitespace "pest_seq whitespace pest_soi p"]
        skip_left [OF matches_whitespace e] reads_left [OF reads_eoi e'])
qed

theorem parse_eq_read_options:
  "parse_agent_options_list s =
     (case read_options s of
        None \<Rightarrow> Inl ParsingError
      | Some os \<Rightarrow> Inr [PestPair Agent_options_list s (map option_pair os @ [PestPair EOI [] []])])"
proof (cases "read_option (trim s)")
  case None
  note body = reads_list_body [of "trim s", unfolded None option.case]
  from None show ?thesis
    by (simp add: parse_agent_options_list_def pest_parse_def agent_options_list_def pest_rule_def
        run_list [OF body] read_options_def left_def)
next
  case (Some x)
  then obtain opt r where x: "read_option (trim s) = Some (opt, r)" by (cases x) auto
  note body = reads_list_body [of "trim s", unfolded x option.case prod.case]
  from x show ?thesis
    by (simp add: parse_agent_options_list_def pest_parse_def agent_options_list_def pest_rule_def
        run_list [OF body] read_options_def left_def trim_read_tail_end case_prod_beta)
qed

text \<open>The options alone, without the text of each.\<close>

definition options_of :: "string \<Rightarrow> opt list option" where
  "options_of s = map_option (map fst) (read_options s)"

section \<open>The language of option strings\<close>

text \<open>
  The same language, declaratively: which texts denote which options. A flag is a name
  and blanks; a bare argument runs to the next comma, blanks included, and starts with
  none; a quoted argument also starts with no blank, since those after the opening quote
  are skipped.
\<close>

definition blanks :: "string \<Rightarrow> bool" where
  "blanks b \<longleftrightarrow> (\<forall>c\<in>set b. c = CHR '' '')"

definition name_ok :: "string \<Rightarrow> bool" where
  "name_ok n \<longleftrightarrow> n \<noteq> [] \<and> (\<forall>c\<in>set n. name_char c)"

definition arg_ok :: "string \<Rightarrow> bool" where
  "arg_ok a \<longleftrightarrow> (\<forall>c\<in>set a. arg_char c) \<and> (a \<noteq> [] \<longrightarrow> hd a \<noteq> CHR '' '')"

inductive option_text :: "opt \<Rightarrow> string \<Rightarrow> bool" where
  flag: "name_ok n \<Longrightarrow> blanks b \<Longrightarrow> option_text (n, None) (n @ b)"
| bare: "name_ok n \<Longrightarrow> blanks b \<Longrightarrow> blanks b' \<Longrightarrow> arg_ok a \<Longrightarrow>
     option_text (n, Some a) (n @ b @ CHR ''='' # b' @ a)"
| quoted: "name_ok n \<Longrightarrow> blanks b \<Longrightarrow> blanks b' \<Longrightarrow> blanks b'' \<Longrightarrow> arg_ok a \<Longrightarrow> blanks d \<Longrightarrow>
     option_text (n, Some a) (n @ b @ CHR ''='' # b' @ quote # b'' @ a @ quote # d)"

inductive items_text :: "opt list \<Rightarrow> string \<Rightarrow> bool" where
  last_item: "option_text opt t \<Longrightarrow> items_text [opt] t"
| next_item: "option_text opt t \<Longrightarrow> blanks b \<Longrightarrow> items_text opts u \<Longrightarrow>
     items_text (opt # opts) (t @ CHR '','' # b @ u)"

inductive options_text :: "opt list \<Rightarrow> string \<Rightarrow> bool" where
  no_items: "blanks b \<Longrightarrow> options_text [] b"
| items: "blanks b \<Longrightarrow> items_text opts t \<Longrightarrow> options_text opts (b @ t)"

lemma name_ok_hd: "name_ok n \<Longrightarrow> n \<noteq> [] \<and> hd n \<noteq> CHR '' '' \<and> name_char (hd n)"
  by (cases n) (auto simp: name_ok_def)

lemma trim_blanks [simp]: "blanks b \<Longrightarrow> trim (b @ s) = trim s"
  by (induction b) (auto simp: blanks_def)

lemma trim_blanks_only [simp]: "blanks b \<Longrightarrow> trim b = []"
  by (simp add: blanks_def)

lemma blanks_takeWhile: "blanks (takeWhile (\<lambda>c. c = CHR '' '') s)"
  by (auto simp: blanks_def dest: set_takeWhileD)

lemma trim_split: "\<exists>b. blanks b \<and> s = b @ trim s"
  using blanks_takeWhile takeWhile_dropWhile_id by metis

lemma trim_no_blank: "s = [] \<or> hd s \<noteq> CHR '' '' \<Longrightarrow> trim s = s"
  by (cases s) auto

lemma trim_hd: "trim s \<noteq> [] \<Longrightarrow> hd (trim s) \<noteq> CHR '' ''"
  by (metis (mono_tags, lifting) hd_dropWhile)

lemma arg_ok_trim: "arg_ok a \<Longrightarrow> c \<noteq> CHR '' '' \<Longrightarrow> trim (a @ c # s) = a @ c # s"
  by (cases a) (auto simp: arg_ok_def)

lemma takeWhile_arg: "arg_ok a \<Longrightarrow> s = [] \<or> \<not> arg_char (hd s) \<Longrightarrow> takeWhile arg_char (a @ s) = a"
  by (rule takeWhile_append_stop) (auto simp: arg_ok_def)

lemma dropWhile_arg: "arg_ok a \<Longrightarrow> s = [] \<or> \<not> arg_char (hd s) \<Longrightarrow> dropWhile arg_char (a @ s) = s"
  by (rule dropWhile_append_stop) (auto simp: arg_ok_def)

lemma arg_ok_takeWhile: "arg_ok (takeWhile arg_char (trim s))"
proof (cases "trim s")
  case (Cons c r)
  then have "c \<noteq> CHR '' ''" using trim_hd [of s] by simp
  with Cons show ?thesis by (auto simp: arg_ok_def dest: set_takeWhileD)
next
  case Nil
  show ?thesis unfolding Nil by (simp add: arg_ok_def)
qed

lemma read_value_bare:
  "v = [] \<or> hd v \<noteq> quote \<Longrightarrow> read_value v = (takeWhile arg_char v, dropWhile arg_char v)"
  by (cases v) (auto simp: read_value_def)

subsection \<open>Every text of the language is read\<close>

definition at_sep :: "string \<Rightarrow> bool" where
  "at_sep s \<longleftrightarrow> s = [] \<or> hd s = CHR '',''"

lemma at_sepD: "at_sep s \<Longrightarrow> (s = [] \<or> \<not> arg_char (hd s)) \<and> trim s = s"
  by (cases s) (auto simp: at_sep_def)

lemma read_name:
  assumes "name_ok n" and "s = [] \<or> \<not> name_char (hd s)"
  shows "takeWhile name_char (n @ s) = n" and "dropWhile name_char (n @ s) = s"
  by (rule takeWhile_append_stop; use assms in \<open>auto simp: name_ok_def\<close>)
     (rule dropWhile_append_stop; use assms in \<open>auto simp: name_ok_def\<close>)

lemma blanks_not_name: "blanks b \<Longrightarrow> s = [] \<or> \<not> name_char (hd s) \<Longrightarrow> b @ s = [] \<or> \<not> name_char (hd (b @ s))"
  by (cases b) (auto simp: blanks_def)

lemma read_option_text:
  assumes "option_text opt t" and sep: "at_sep s"
  shows "\<exists>r. read_option (t @ s) = Some (opt, r) \<and> trim r = s"
  using assms(1)
proof cases
  case (flag n b)
  have "b @ s = [] \<or> \<not> name_char (hd (b @ s))"
    using flag(4) sep by (intro blanks_not_name) (auto simp: at_sep_def)
  from read_name [OF flag(3) this] show ?thesis
    using flag sep at_sepD [OF sep] by (auto simp: read_option_def Let_def at_sep_def name_ok_def)
next
  case (bare n b b' a)
  let ?s = "b @ CHR ''='' # b' @ a @ s"
  have "?s = [] \<or> \<not> name_char (hd ?s)" using bare(4) by (intro blanks_not_name) auto
  note name = read_name [OF bare(3) this]
  have a: "trim (a @ s) = a @ s"
    using bare(6) at_sepD [OF sep] by (cases a) (auto simp: arg_ok_def)
  have "a @ s = [] \<or> hd (a @ s) \<noteq> quote"
    using bare(6) sep by (cases a) (auto simp: arg_ok_def at_sep_def)
  then have "read_value (a @ s) = (a, s)"
    using takeWhile_arg [OF bare(6)] dropWhile_arg [OF bare(6)] at_sepD [OF sep]
    by (simp only: read_value_bare)
  with name a bare at_sepD [OF sep] show ?thesis
    by (simp add: read_option_def Let_def name_ok_def)
next
  case (quoted n b b' b'' a d)
  let ?s = "b @ CHR ''='' # b' @ quote # b'' @ a @ quote # d @ s"
  have "?s = [] \<or> \<not> name_char (hd ?s)" using quoted(4) by (intro blanks_not_name) auto
  note name = read_name [OF quoted(3) this]
  have "read_value (quote # b'' @ a @ quote # d @ s) = (a, d @ s)"
    using quoted takeWhile_arg [OF quoted(7), of "quote # d @ s"]
      dropWhile_arg [OF quoted(7), of "quote # d @ s"]
    by (simp add: read_value_def arg_ok_trim)
  with name quoted at_sepD [OF sep] show ?thesis
    by (simp add: read_option_def Let_def name_ok_def)
qed

lemma option_text_hd: "option_text opt t \<Longrightarrow> trim (t @ s) = t @ s"
  by (cases rule: option_text.cases, assumption) (auto dest!: name_ok_hd intro!: trim_no_blank simp: hd_append)

lemma items_text_hd: "items_text opts t \<Longrightarrow> trim t = t \<and> t \<noteq> []"
proof (induction rule: items_text.induct)
  case (last_item opt t)
  then show ?case using option_text_hd [OF last_item, of "[]"]
    by (auto elim!: option_text.cases simp: name_ok_def)
next
  case (next_item opt t b opts u)
  then show ?case using option_text_hd [OF next_item(1)] by simp
qed

lemma option_text_nonempty: "option_text opt t \<Longrightarrow> t \<noteq> []"
  by (auto elim!: option_text.cases simp: name_ok_def)

lemma read_items:
  "items_text opts t \<Longrightarrow>
   \<exists>opt r os e. read_option t = Some (opt, r) \<and> read_tail r = (os, e) \<and> trim e = [] \<and>
     opt # map fst os = opts"
proof (induction rule: items_text.induct)
  case (last_item opt t)
  obtain r where r: "read_option t = Some (opt, r)" "trim r = []"
    using read_option_text [OF last_item, of "[]"] by (auto simp: at_sep_def)
  then have "read_tail r = ([], r)" by (simp add: read_tail.simps [of r])
  with r show ?case by simp
next
  case (next_item opt t b opts u)
  let ?s = "CHR '','' # b @ u"
  obtain r where r: "read_option (t @ ?s) = Some (opt, r)" "trim r = ?s"
    using read_option_text [OF next_item(1), of ?s] by (auto simp: at_sep_def)
  obtain o' r' os e where ih: "read_option u = Some (o', r')" "read_tail r' = (os, e)"
    "trim e = []" "o' # map fst os = opts" using next_item.IH by blast
  have "trim (b @ u) = u" using next_item(2) items_text_hd [OF next_item(3)] by simp
  with r(2) ih have "\<exists>x. read_tail r = ((o', x) # os, e)"
    by (simp add: read_tail.simps [of r])
  with r(1) ih show ?case by auto
qed

lemma options_of_complete:
  assumes "options_text opts s"
  shows "options_of s = Some opts"
  using assms
proof cases
  case no_items
  have "read_option [] = None" by (simp add: read_option_def)
  with no_items show ?thesis by (simp add: options_of_def read_options_def)
next
  case (items b t)
  have trim: "trim s = t" using items items_text_hd [OF items(3)] by simp
  obtain opt r os e where "read_option t = Some (opt, r)" "read_tail r = (os, e)" "trim e = []"
    "opt # map fst os = opts" using read_items [OF items(3)] by blast
  with trim show ?thesis by (simp add: options_of_def read_options_def)
qed

subsection \<open>Only texts of the language are read\<close>

lemma takeWhile_name_ok: "takeWhile name_char s \<noteq> [] \<Longrightarrow> name_ok (takeWhile name_char s)"
  by (auto simp: name_ok_def dest: set_takeWhileD)

lemma read_value_split:
  assumes "read_value (trim s) = (v, q)"
  shows "arg_ok v \<and>
    (trim s = v @ q \<and> trim q = q \<or> (\<exists>b. blanks b \<and> trim s = quote # b @ v @ quote # q))"
proof (cases "trim s")
  case Nil
  with assms show ?thesis by (simp add: read_value_def arg_ok_def del: dropWhile_eq_Nil_conv)
next
  case (Cons c r)
  show ?thesis
  proof (cases "c = quote \<and> dropWhile arg_char (trim r) \<noteq> [] \<and>
      hd (dropWhile arg_char (trim r)) = quote")
    case True
    then have eq: "read_value (trim s) =
        (takeWhile arg_char (trim r), tl (dropWhile arg_char (trim r)))"
      using Cons by (simp add: read_value_def)
    with assms have v: "v = takeWhile arg_char (trim r)" and "q = tl (dropWhile arg_char (trim r))"
      by simp_all
    with True have q: "quote # q = dropWhile arg_char (trim r)" by (metis list.collapse)
    obtain b where b: "blanks b" "r = b @ trim r" using trim_split by blast
    have "trim r = v @ quote # q" unfolding v q by (rule takeWhile_dropWhile_id [symmetric])
    with b(2) Cons True have "trim s = quote # b @ v @ quote # q" by simp
    with b(1) v show ?thesis using arg_ok_takeWhile by blast
  next
    case False
    then have "read_value (trim s) = (takeWhile arg_char (trim s), dropWhile arg_char (trim s))"
      using Cons by (auto simp: read_value_def)
    with assms have v: "v = takeWhile arg_char (trim s)" and q: "q = dropWhile arg_char (trim s)"
      by simp_all
    have "trim s = v @ q" unfolding v q by simp
    moreover have "trim q = q" unfolding q by (rule trim_arg)
    moreover have "arg_ok v" unfolding v by (rule arg_ok_takeWhile)
    ultimately show ?thesis by blast
  qed
qed

lemma option_cases:
  assumes "(if e \<noteq> [] \<and> hd e = CHR ''='' then
      (case read_value (trim (tl e)) of (v, q) \<Rightarrow> Some ((n, Some v), q)) else Some ((n, None), e)) =
    Some (opt, r)" and "trim e = e"
  shows "opt = (n, None) \<and> r = e \<and> trim e = e \<or>
     (\<exists>w v. e = CHR ''='' # w \<and> opt = (n, Some v) \<and> read_value (trim w) = (v, r))"
  using assms by (cases e) (auto split: prod.splits if_splits)

lemma read_option_split:
  assumes "read_option s = Some (opt, r)"
  shows "\<exists>n b e. name_ok n \<and> blanks b \<and> s = n @ b @ e \<and>
    (opt = (n, None) \<and> r = e \<and> trim e = e \<or>
     (\<exists>w v. e = CHR ''='' # w \<and> opt = (n, Some v) \<and> read_value (trim w) = (v, r)))"
proof -
  let ?n = "takeWhile name_char s" and ?r = "trim (dropWhile name_char s)"
  have n: "name_ok ?n" using assms by (intro takeWhile_name_ok) (auto simp: read_option_def Let_def)
  obtain b where b: "blanks b" "dropWhile name_char s = b @ ?r" using trim_split by blast
  then have s: "s = ?n @ b @ ?r" using takeWhile_dropWhile_id by metis
  have "(if ?r \<noteq> [] \<and> hd ?r = CHR ''='' then
      (case read_value (trim (tl ?r)) of (v, q) \<Rightarrow> Some ((?n, Some v), q)) else Some ((?n, None), ?r)) =
    Some (opt, r)"
    using assms n unfolding read_option_def Let_def name_ok_def by (metis option.distinct(1))
  then have "opt = (?n, None) \<and> r = ?r \<and> trim ?r = ?r \<or>
     (\<exists>w v. ?r = CHR ''='' # w \<and> opt = (?n, Some v) \<and> read_value (trim w) = (v, r))"
    by (rule option_cases) simp
  with n b(1) s show ?thesis by blast
qed

lemma read_option_sound:
  assumes "read_option s = Some (opt, r)"
  shows "\<exists>t. option_text opt t \<and> s = t @ trim r"
proof -
  obtain n b e where n: "name_ok n" and b: "blanks b" and s: "s = n @ b @ e"
    and "opt = (n, None) \<and> r = e \<and> trim e = e \<or>
     (\<exists>w v. e = CHR ''='' # w \<and> opt = (n, Some v) \<and> read_value (trim w) = (v, r))"
    using read_option_split [OF assms] by blast
  then consider "opt = (n, None)" "r = e" "trim e = e"
    | w v where "e = CHR ''='' # w" "opt = (n, Some v)" "read_value (trim w) = (v, r)" by blast
  then show ?thesis
  proof cases
    case 1
    then show ?thesis using option_text.flag [OF n b] s by (intro exI [of _ "n @ b"]) simp
  next
    case (2 w v)
    obtain b' where b': "blanks b'" "w = b' @ trim w" using trim_split by blast
    from read_value_split [OF 2(3)] consider
      (bare) "arg_ok v" "trim w = v @ r" "trim r = r"
      | (quoted) c where "arg_ok v" "blanks c" "trim w = quote # c @ v @ quote # r" by blast
    then show ?thesis
    proof cases
      case bare
      have "s = n @ b @ CHR ''='' # b' @ v @ r"
        unfolding s 2(1) by (subst b'(2)) (simp add: bare(2))
      with bare(3) option_text.bare [OF n b b'(1) bare(1)] 2(2) show ?thesis
        by (intro exI [of _ "n @ b @ CHR ''='' # b' @ v"]) simp
    next
      case (quoted c)
      obtain d where d: "blanks d" "r = d @ trim r" using trim_split by blast
      have "trim w = quote # c @ v @ quote # d @ trim r"
        unfolding quoted(3) by (subst d(2)) (rule refl)
      then have "s = n @ b @ CHR ''='' # b' @ quote # c @ v @ quote # d @ trim r"
        unfolding s 2(1) by (subst b'(2)) simp
      with option_text.quoted [OF n b b'(1) quoted(2,1) d(1)] 2(2) show ?thesis
        by (intro exI [of _ "n @ b @ CHR ''='' # b' @ quote # c @ v @ quote # d"]) simp
    qed
  qed
qed

lemma read_tail_sound:
  "read_tail s = (os, e) \<Longrightarrow>
   (os = [] \<and> trim s = trim e) \<or>
   (\<exists>b t. blanks b \<and> items_text (map fst os) t \<and> trim s = CHR '','' # b @ t @ trim e)"
proof (induction s arbitrary: os e rule: read_tail.induct)
  case (1 s)
  show ?case
  proof (cases "\<exists>opt r. trim s \<noteq> [] \<and> hd (trim s) = CHR '','' \<and>
      read_option (trim (tl (trim s))) = Some (opt, r)")
    case True
    then obtain opt r where comma: "trim s \<noteq> [] \<and> hd (trim s) = CHR '',''"
      and opt: "read_option (trim (tl (trim s))) = Some (opt, r)" by blast
    obtain os' e' where tail: "read_tail r = (os', e')" by fastforce
    with 1(2) comma opt have os: "map fst os = opt # map fst os'" and e: "e' = e" and "os \<noteq> []"
      by (auto simp: read_tail.simps [of s])
    obtain u where u: "option_text opt u" "trim (tl (trim s)) = u @ trim r"
      using read_option_sound [OF opt] by blast
    obtain b where b: "blanks b" "tl (trim s) = b @ trim (tl (trim s))" using trim_split by blast
    have s: "trim s = CHR '','' # b @ u @ trim r"
      using comma b(2) u(2) by (metis list.collapse)
    from 1(1) [OF comma opt refl tail] consider "os' = []" "trim r = trim e'"
      | c t where "blanks c" "items_text (map fst os') t" "trim r = CHR '','' # c @ t @ trim e'"
      by blast
    then show ?thesis
    proof cases
      case 1
      with s os e u(1) b(1) show ?thesis by (auto intro: last_item)
    next
      case (2 c t)
      with items_text.next_item [OF u(1) 2(1,2)] s os e b(1) show ?thesis
        by (intro disjI2 exI [of _ b] exI [of _ "u @ CHR '','' # c @ t"]) simp
    qed
  next
    case False
    then have "read_tail s = ([], s)"
      by (auto simp: read_tail.simps [of s] split: option.splits)
    with 1(2) show ?thesis by simp
  qed
qed

lemma options_of_sound:
  assumes "options_of s = Some opts"
  shows "options_text opts s"
proof -
  obtain b where b: "blanks b" "s = b @ trim s" using trim_split by blast
  show ?thesis
  proof (cases "read_option (trim s)")
    case None
    then have "opts = []" and "trim s = []"
      using assms by (auto simp: options_of_def read_options_def split: if_splits)
    with b options_text.no_items show ?thesis by (metis append_Nil2)
  next
    case (Some x)
    then obtain opt r where x: "read_option (trim s) = Some (opt, r)" by (cases x) auto
    obtain os e where tail: "read_tail r = (os, e)" by fastforce
    with x assms have e: "trim e = []" and opts: "opts = opt # map fst os"
      by (auto simp: options_of_def read_options_def split: if_splits)
    obtain u where u: "option_text opt u" "trim s = u @ trim r"
      using read_option_sound [OF x] by (metis dropWhile_idem)
    from read_tail_sound [OF tail] consider "os = []" "trim r = trim e"
      | c t where "blanks c" "items_text (map fst os) t" "trim r = CHR '','' # c @ t @ trim e"
      by blast
    then have "items_text opts (trim s)"
    proof cases
      case 1
      with u e opts show ?thesis by (simp add: last_item)
    next
      case (2 c t)
      with items_text.next_item [OF u(1) 2(1,2)] u(2) e opts show ?thesis by simp
    qed
    with b options_text.items show ?thesis by metis
  qed
qed

text \<open>The grammar's language, and its unambiguity.\<close>

lemma options_of_iff: "options_of s = Some opts \<longleftrightarrow> options_text opts s"
  using options_of_sound options_of_complete by blast

lemma options_text_unique: "options_text opts s \<Longrightarrow> options_text opts' s \<Longrightarrow> opts = opts'"
  by (metis options_of_complete option.inject)

end
