(* ===== verification/Conf.thy ===== *)
theory Conf
  imports ConfGrammar
begin

text \<open>
  The agent's configuration, \<^verbatim>\<open>phasicj/agent/conf/src/lib.rs\<close>: the record \<open>PjAgentConf\<close>,
  its defaults, and the pass over the token pairs that applies each option. The parser
  that Pest generates is an argument of the pass; what the pass relies on is the locale
  \<open>options_parser\<close>, and \<open>options_language\<close> adds which texts denote which options. Both
  are interpreted on the model of the grammar file.
\<close>

section \<open>The configuration\<close>

record PjAgentConf =
  verbose :: bool
  phasicj_exec :: "string option"
  debug_dump_classes_before_instr :: bool
  debug_dump_classes_after_instr :: bool

definition new_with_defaults :: PjAgentConf where
  "new_with_defaults =
     \<lparr>verbose = False, phasicj_exec = None,
      debug_dump_classes_before_instr = False, debug_dump_classes_after_instr = False\<rparr>"

section \<open>Applying options\<close>

definition eval_bool_option_value :: "string option \<Rightarrow> bool result" where
  "eval_bool_option_value v =
     (case v of
        None \<Rightarrow> Inr True
      | Some s \<Rightarrow>
          if s = ''true'' then Inr True
          else if s = ''false'' then Inr False
          else Inl (Panicked (UnexpectedBoolValue s)))"

definition apply_agent_option :: "string \<Rightarrow> string option \<Rightarrow> (PjAgentConf, unit) prog" where
  "apply_agent_option name v =
     (if name = ''verbose'' then
        bnd (of_result (eval_bool_option_value v)) (\<lambda>b. update (\<lambda>c. c\<lparr>verbose := b\<rparr>))
      else if name = ''phasicj_exec'' then
        (case v of
           None \<Rightarrow> panic ExecWithoutValue
         | Some value \<Rightarrow>
             if value = [] then panic ExecEmptyValue
             else update (\<lambda>c. c\<lparr>phasicj_exec := Some value\<rparr>))
      else if name = ''debug_dump_classes_before_instr'' then
        bnd (of_result (eval_bool_option_value v))
          (\<lambda>b. update (\<lambda>c. c\<lparr>debug_dump_classes_before_instr := b\<rparr>))
      else if name = ''debug_dump_classes_after_instr'' then
        bnd (of_result (eval_bool_option_value v))
          (\<lambda>b. update (\<lambda>c. c\<lparr>debug_dump_classes_after_instr := b\<rparr>))
      else panic (UnrecognizedOption name))"

definition apply_agent_option_pair :: "rule pair \<Rightarrow> (PjAgentConf, unit) prog" where
  "apply_agent_option_pair p =
     (if as_rule p \<noteq> Agent_option then panic AssertionFailed
      else
        (case into_inner p of
           [name] \<Rightarrow> apply_agent_option (as_str name) None
         | [name, arg] \<Rightarrow> apply_agent_option (as_str name) (Some (as_str arg))
         | _ \<Rightarrow> panic UnexpectedOptionPair))"

text \<open>The loop over the pairs inside the list.\<close>

fun apply_option_pairs :: "rule pair list \<Rightarrow> (PjAgentConf, unit) prog" where
  "apply_option_pairs [] = ret ()"
| "apply_option_pairs (p # ps) =
     seq (if as_rule p = Agent_option then apply_agent_option_pair p
          else if as_rule p = EOI then ret ()
          else panic UnreachableReached)
       (apply_option_pairs ps)"

type_synonym options_parse = "string \<Rightarrow> parse_error + rule pair list"

definition apply_agent_options_list_str ::
  "options_parse \<Rightarrow> string \<Rightarrow> (PjAgentConf, unit) prog" where
  "apply_agent_options_list_str parse options_str =
     (case parse options_str of
        Inl _ \<Rightarrow> panic ParseFailed
      | Inr [] \<Rightarrow> panic UnwrapNone
      | Inr (options_list # _) \<Rightarrow>
          if as_rule options_list \<noteq> Agent_options_list then panic AssertionFailed
          else apply_option_pairs (into_inner options_list))"

definition new_from_agent_options_list_str :: "options_parse \<Rightarrow> string \<Rightarrow> PjAgentConf result" where
  "new_from_agent_options_list_str parse options_str =
     (case apply_agent_options_list_str parse options_str new_with_defaults of
        (Inl e, _) \<Rightarrow> Inl e
      | (Inr _, conf) \<Rightarrow> Inr conf)"

text \<open>With the parser of the grammar file, as the agent is built.\<close>

abbreviation conf_of_options :: "string \<Rightarrow> PjAgentConf result" where
  "conf_of_options \<equiv> new_from_agent_options_list_str parse_agent_options_list"

section \<open>What the options mean\<close>

text \<open>
  The specification the pass is proved against: which options are accepted, what a
  rejected one panics with, and the configuration an accepted list denotes, where the
  last setting of a name counts.
\<close>

definition bool_option_names :: "string list" where
  "bool_option_names =
     [''verbose'', ''debug_dump_classes_before_instr'', ''debug_dump_classes_after_instr'']"

fun valid_opt :: "opt \<Rightarrow> bool" where
  "valid_opt (name, v) =
     (if name \<in> set bool_option_names then v \<in> {None, Some ''true'', Some ''false''}
      else name = ''phasicj_exec'' \<and> v \<notin> {None, Some []})"

fun opt_panic :: "opt \<Rightarrow> panic" where
  "opt_panic (name, v) =
     (if name \<in> set bool_option_names then UnexpectedBoolValue (case v of None \<Rightarrow> [] | Some s \<Rightarrow> s)
      else if name = ''phasicj_exec'' then (case v of None \<Rightarrow> ExecWithoutValue | Some _ \<Rightarrow> ExecEmptyValue)
      else UnrecognizedOption name)"

definition last_setting :: "string \<Rightarrow> opt list \<Rightarrow> string option option" where
  "last_setting name opts = map_of (rev opts) name"

definition flag_setting :: "bool \<Rightarrow> string \<Rightarrow> opt list \<Rightarrow> bool" where
  "flag_setting d name opts =
     (case last_setting name opts of None \<Rightarrow> d | Some v \<Rightarrow> v \<noteq> Some ''false'')"

definition denoted_conf :: "PjAgentConf \<Rightarrow> opt list \<Rightarrow> PjAgentConf" where
  "denoted_conf c opts =
     \<lparr>verbose = flag_setting (verbose c) ''verbose'' opts,
      phasicj_exec =
        (case last_setting ''phasicj_exec'' opts of None \<Rightarrow> phasicj_exec c | Some v \<Rightarrow> v),
      debug_dump_classes_before_instr =
        flag_setting (debug_dump_classes_before_instr c) ''debug_dump_classes_before_instr'' opts,
      debug_dump_classes_after_instr =
        flag_setting (debug_dump_classes_after_instr c) ''debug_dump_classes_after_instr'' opts\<rparr>"

fun apply_opts :: "opt list \<Rightarrow> (PjAgentConf, unit) prog" where
  "apply_opts [] = ret ()"
| "apply_opts ((name, v) # opts) = seq (apply_agent_option name v) (apply_opts opts)"

text \<open>The option names are told apart once, here.\<close>

lemma name_distinct [simp]:
  "''verbose'' \<noteq> ''phasicj_exec''" "''phasicj_exec'' \<noteq> ''verbose''"
  "''verbose'' \<noteq> ''debug_dump_classes_before_instr''"
  "''debug_dump_classes_before_instr'' \<noteq> ''verbose''"
  "''verbose'' \<noteq> ''debug_dump_classes_after_instr''"
  "''debug_dump_classes_after_instr'' \<noteq> ''verbose''"
  "''phasicj_exec'' \<noteq> ''debug_dump_classes_before_instr''"
  "''debug_dump_classes_before_instr'' \<noteq> ''phasicj_exec''"
  "''phasicj_exec'' \<noteq> ''debug_dump_classes_after_instr''"
  "''debug_dump_classes_after_instr'' \<noteq> ''phasicj_exec''"
  "''debug_dump_classes_before_instr'' \<noteq> ''debug_dump_classes_after_instr''"
  "''debug_dump_classes_after_instr'' \<noteq> ''debug_dump_classes_before_instr''"
  by simp_all

declare valid_opt.simps [simp del] opt_panic.simps [simp del]

lemma name_cases:
  obtains (verbose) "name = ''verbose''" | (exec) "name = ''phasicj_exec''"
  | (before) "name = ''debug_dump_classes_before_instr''"
  | (after) "name = ''debug_dump_classes_after_instr''"
  | (other) "name \<noteq> ''verbose''" "name \<noteq> ''phasicj_exec''"
      "name \<noteq> ''debug_dump_classes_before_instr''" "name \<noteq> ''debug_dump_classes_after_instr''"
  by blast

lemma eval_bool_valid:
  "v \<in> {None, Some ''true'', Some ''false''} \<Longrightarrow> eval_bool_option_value v = Inr (v \<noteq> Some ''false'')"
  by (auto simp: eval_bool_option_value_def)

lemma eval_bool_invalid:
  "v \<notin> {None, Some ''true'', Some ''false''} \<Longrightarrow>
   eval_bool_option_value v =
     Inl (Panicked (UnexpectedBoolValue (case v of None \<Rightarrow> [] | Some s \<Rightarrow> s)))"
  by (auto simp: eval_bool_option_value_def split: option.splits)

lemma last_setting_single [simp]: "last_setting n [(m, v)] = (if n = m then Some v else None)"
  by (simp add: last_setting_def)

lemma apply_valid:
  assumes "valid_opt (name, v)"
  shows "apply_agent_option name v c = (Inr (), denoted_conf c [(name, v)])"
proof (cases name rule: name_cases)
  case exec
  with assms obtain y where "v = Some y" and "y \<noteq> []"
    by (auto simp: valid_opt.simps bool_option_names_def)
  with exec show ?thesis
    by (simp add: apply_agent_option_def prog_simps denoted_conf_def flag_setting_def)
next
  case other
  with assms show ?thesis by (simp add: valid_opt.simps bool_option_names_def)
qed (use assms in \<open>simp_all add: apply_agent_option_def prog_simps valid_opt.simps
      bool_option_names_def denoted_conf_def flag_setting_def eval_bool_valid\<close>)

lemma apply_invalid:
  assumes "\<not> valid_opt (name, v)"
  shows "apply_agent_option name v c = (Inl (Panicked (opt_panic (name, v))), c)"
proof (cases name rule: name_cases)
  case exec
  with assms show ?thesis
    by (cases v) (auto simp: apply_agent_option_def prog_simps valid_opt.simps opt_panic.simps
        bool_option_names_def)
qed (use assms in \<open>simp_all add: apply_agent_option_def prog_simps valid_opt.simps opt_panic.simps
      bool_option_names_def eval_bool_invalid\<close>)

lemma denoted_conf_append: "denoted_conf (denoted_conf c xs) ys = denoted_conf c (xs @ ys)"
  by (simp add: denoted_conf_def flag_setting_def last_setting_def map_add_def split: option.split)

lemma denoted_conf_Nil [simp]: "denoted_conf c [] = c"
  by (simp add: denoted_conf_def flag_setting_def last_setting_def)

lemma apply_opts_valid: "\<forall>x\<in>set opts. valid_opt x \<Longrightarrow> apply_opts opts c = (Inr (), denoted_conf c opts)"
proof (induction opts arbitrary: c)
  case (Cons x opts)
  obtain name v where x: "x = (name, v)" by (cases x)
  with Cons have "apply_agent_option name v c = (Inr (), denoted_conf c [x])"
    by (simp add: apply_valid)
  with Cons x denoted_conf_append [of c "[x]" opts] show ?case by simp
qed (simp add: prog_simps)

lemma apply_opts_invalid:
  assumes "\<forall>x\<in>set xs. valid_opt x" and "\<not> valid_opt x"
  shows "apply_opts (xs @ x # ys) c = (Inl (Panicked (opt_panic x)), denoted_conf c xs)"
  using assms(1)
proof (induction xs arbitrary: c)
  case Nil
  then show ?case using assms(2) by (cases x) (simp add: apply_invalid)
next
  case (Cons z xs)
  obtain name v where z: "z = (name, v)" by (cases z)
  with Cons have "apply_agent_option name v c = (Inr (), denoted_conf c [z])"
    by (simp add: apply_valid)
  with Cons z denoted_conf_append [of c "[z]" xs] show ?case by simp
qed

text \<open>Either all options are accepted or there is a first that is not.\<close>

lemma first_invalid:
  "(\<forall>x\<in>set opts. valid_opt x) \<or>
   (\<exists>xs x ys. opts = xs @ x # ys \<and> (\<forall>z\<in>set xs. valid_opt z) \<and> \<not> valid_opt x)"
  using split_list_first_prop [of opts "\<lambda>x. \<not> valid_opt x"] by blast

section \<open>The interface to the parser\<close>

text \<open>
  What the pass needs of a parser so that none of its internal checks can fire: a parsed
  string has one root pair, for the list rule, and the root's children are options with a
  name and at most one argument, then the end-of-input pair.
\<close>

locale options_parser =
  fixes parse :: options_parse
  assumes root: "parse s = Inr ts \<Longrightarrow> \<exists>t. ts = [t] \<and> as_rule t = Agent_options_list"
    and children: "parse s = Inr [t] \<Longrightarrow> p \<in> set (into_inner t) \<Longrightarrow>
      as_rule p = EOI \<or> as_rule p = Agent_option \<and> length (into_inner p) \<in> {1, 2}"
begin

lemma parse_cases:
  obtains (failed) e where "parse s = Inl e"
  | (parsed) t where "parse s = Inr [t]" and "as_rule t = Agent_options_list"
  using root by (cases "parse s") blast+

text \<open>The panics the pass's own assertions would raise.\<close>

lemma apply_option_faults:
  "apply_agent_option name v c = (Inl e, c') \<Longrightarrow> \<exists>x. e = Panicked (opt_panic x) \<and> \<not> valid_opt x"
  by (cases "valid_opt (name, v)") (auto simp: apply_valid apply_invalid)

lemma apply_pairs_faults:
  assumes "\<forall>p\<in>set ps. as_rule p = EOI \<or> as_rule p = Agent_option \<and> length (into_inner p) \<in> {1, 2}"
    and "apply_option_pairs ps c = (Inl e, c')"
  shows "\<exists>x. e = Panicked (opt_panic x) \<and> \<not> valid_opt x"
  using assms
proof (induction ps arbitrary: c)
  case (Cons p ps)
  have p: "as_rule p = EOI \<or> as_rule p = Agent_option \<and> length (into_inner p) \<in> {1, 2}"
    using Cons.prems(1) by simp
  from Cons.prems(2) consider
    (now) "(if as_rule p = Agent_option then apply_agent_option_pair p
            else if as_rule p = EOI then ret () else panic UnreachableReached) c = (Inl e, c')"
    | (later) c'' where "apply_option_pairs ps c'' = (Inl e, c')"
    by (auto simp: prog_inv)
  then show ?case
  proof cases
    case now
    with p obtain name v where "apply_agent_option name v c = (Inl e, c')"
      by (auto simp: apply_agent_option_pair_def prog_inv length_Suc_conv numeral_2_eq_2
          split: if_splits list.splits)
    then show ?thesis by (rule apply_option_faults)
  next
    case later
    with Cons show ?thesis by simp
  qed
qed (simp add: prog_simps)

lemma no_internal_fault:
  assumes "new_from_agent_options_list_str parse s = Inl e"
  shows "e = Panicked ParseFailed \<or> (\<exists>x. e = Panicked (opt_panic x) \<and> \<not> valid_opt x)"
proof (cases s rule: parse_cases)
  case failed
  with assms show ?thesis
    by (simp add: new_from_agent_options_list_str_def apply_agent_options_list_str_def prog_simps)
next
  case (parsed t)
  with assms obtain c' where "apply_option_pairs (into_inner t) new_with_defaults = (Inl e, c')"
    by (auto simp: new_from_agent_options_list_str_def apply_agent_options_list_str_def
        split: prod.splits sum.splits)
  with apply_pairs_faults children [OF parsed(1)] show ?thesis by blast
qed

end

text \<open>A parser that moreover reads off the options of a language of texts.\<close>

definition pair_option :: "rule pair \<Rightarrow> opt" where
  "pair_option p =
     (as_str (hd (into_inner p)),
      case tl (into_inner p) of [] \<Rightarrow> None | arg # _ \<Rightarrow> Some (as_str arg))"

definition tree_options :: "rule pair \<Rightarrow> opt list" where
  "tree_options t = map pair_option (filter (\<lambda>p. as_rule p = Agent_option) (into_inner t))"

locale options_language = options_parser +
  fixes denotes :: "opt list \<Rightarrow> string \<Rightarrow> bool"
  assumes accepts: "denotes opts s \<Longrightarrow> \<exists>t. parse s = Inr [t] \<and> tree_options t = opts"
    and rejects: "(\<And>opts. \<not> denotes opts s) \<Longrightarrow> \<exists>e. parse s = Inl e"
begin

lemma apply_pairs:
  "\<forall>p\<in>set ps. as_rule p = EOI \<or> as_rule p = Agent_option \<and> length (into_inner p) \<in> {1, 2} \<Longrightarrow>
   apply_option_pairs ps c =
     apply_opts (map pair_option (filter (\<lambda>p. as_rule p = Agent_option) ps)) c"
proof (induction ps arbitrary: c)
  case (Cons p ps)
  show ?case
  proof (cases "as_rule p = Agent_option")
    case True
    with Cons.prems have "apply_agent_option_pair p =
        apply_agent_option (fst (pair_option p)) (snd (pair_option p))"
      by (auto simp: apply_agent_option_pair_def pair_option_def length_Suc_conv numeral_2_eq_2)
    with True Cons show ?thesis
      by (cases "pair_option p") (simp add: bnd_def split: prod.split sum.split)
  next
    case False
    with Cons show ?thesis by simp
  qed
qed simp

lemma new_from_denoted:
  assumes "denotes opts s"
  shows "new_from_agent_options_list_str parse s =
    (case apply_opts opts new_with_defaults of (Inl e, _) \<Rightarrow> Inl e | (Inr _, c) \<Rightarrow> Inr c)"
proof -
  obtain t where t: "parse s = Inr [t]" and opts: "tree_options t = opts"
    using accepts [OF assms] by blast
  have root: "as_rule t = Agent_options_list" using root [OF t] by simp
  have "apply_option_pairs (into_inner t) c = apply_opts opts c" for c
    using apply_pairs [of "into_inner t" c] children [OF t] opts by (auto simp: tree_options_def)
  with t root show ?thesis
    by (simp add: new_from_agent_options_list_str_def apply_agent_options_list_str_def)
qed

lemma new_from_valid:
  assumes "denotes opts s" and "\<forall>x\<in>set opts. valid_opt x"
  shows "new_from_agent_options_list_str parse s = Inr (denoted_conf new_with_defaults opts)"
  using new_from_denoted [OF assms(1)] apply_opts_valid [OF assms(2)] by simp

lemma new_from_invalid:
  assumes "denotes (xs @ x # ys) s" and "\<forall>z\<in>set xs. valid_opt z" and "\<not> valid_opt x"
  shows "new_from_agent_options_list_str parse s = Inl (Panicked (opt_panic x))"
  using new_from_denoted [OF assms(1)] apply_opts_invalid [OF assms(2,3)] by simp

lemma new_from_rejected:
  assumes "\<And>opts. \<not> denotes opts s"
  shows "new_from_agent_options_list_str parse s = Inl (Panicked ParseFailed)"
  using rejects [OF assms]
  by (auto simp: new_from_agent_options_list_str_def apply_agent_options_list_str_def prog_simps)

lemma new_from_Inr_iff:
  "new_from_agent_options_list_str parse s = Inr c \<longleftrightarrow>
   (\<exists>opts. denotes opts s \<and> (\<forall>x\<in>set opts. valid_opt x) \<and> c = denoted_conf new_with_defaults opts)"
proof
  assume new: "new_from_agent_options_list_str parse s = Inr c"
  then obtain opts where opts: "denotes opts s" using new_from_rejected by fastforce
  from first_invalid [of opts] show "\<exists>opts. denotes opts s \<and> (\<forall>x\<in>set opts. valid_opt x) \<and>
      c = denoted_conf new_with_defaults opts"
  proof
    assume "\<forall>x\<in>set opts. valid_opt x"
    with opts new new_from_valid show ?thesis by fastforce
  next
    assume "\<exists>xs x ys. opts = xs @ x # ys \<and> (\<forall>z\<in>set xs. valid_opt z) \<and> \<not> valid_opt x"
    with opts new new_from_invalid show ?thesis by fastforce
  qed
qed (auto simp: new_from_valid)

end

subsection \<open>The grammar file provides it\<close>

lemma parse_inr:
  assumes "parse_agent_options_list s = Inr ts"
  obtains os where "ts = [PestPair Agent_options_list s (map option_pair os @ [PestPair EOI [] []])]"
    and "options_of s = Some (map fst os)"
  using assms by (auto simp: parse_eq_read_options options_of_def split: option.splits)

lemma option_pair_shape:
  "as_rule (option_pair x) = Agent_option \<and> length (into_inner (option_pair x)) \<in> {1, 2} \<and>
   pair_option (option_pair x) = fst x"
proof -
  obtain name v w where x: "x = ((name, v), w)" by (metis prod.collapse)
  show ?thesis unfolding x by (cases v) (simp_all add: pair_option_def)
qed

lemma tree_options_read:
  "tree_options (PestPair r txt (map option_pair os @ [PestPair EOI [] []])) = map fst os"
  by (induction os) (simp_all add: tree_options_def option_pair_shape)

interpretation grammar: options_language parse_agent_options_list options_text
proof
  fix s ts
  assume "parse_agent_options_list s = Inr ts"
  then show "\<exists>t. ts = [t] \<and> as_rule t = Agent_options_list" by (rule parse_inr) simp
next
  fix s t p
  assume "parse_agent_options_list s = Inr [t]" and "p \<in> set (into_inner t)"
  then show "as_rule p = EOI \<or> as_rule p = Agent_option \<and> length (into_inner p) \<in> {1, 2}"
    by (elim parse_inr) (use option_pair_shape in auto)
next
  fix opts s
  assume "options_text opts s"
  then have "options_of s = Some opts" by (simp add: options_of_iff)
  then show "\<exists>t. parse_agent_options_list s = Inr [t] \<and> tree_options t = opts"
    by (auto simp: options_of_def parse_eq_read_options tree_options_read)
next
  fix s
  assume "\<And>opts. \<not> options_text opts s"
  then have "options_of s = None" using options_of_sound by (cases "options_of s") blast+
  then show "\<exists>e. parse_agent_options_list s = Inl e"
    by (simp add: options_of_def parse_eq_read_options)
qed

section \<open>Writing a configuration as options\<close>

text \<open>
  The option string a user writes for a configuration: every field, arguments quoted (as
  the tests of \<^verbatim>\<open>conf/src/test.rs\<close> do for the executable's path).
\<close>

fun render_opt :: "opt \<Rightarrow> string" where
  "render_opt (name, None) = name"
| "render_opt (name, Some a) = name @ CHR ''='' # quote # a @ [quote]"

fun render_opts :: "opt list \<Rightarrow> string" where
  "render_opts [] = []"
| "render_opts [x] = render_opt x"
| "render_opts (x # xs) = render_opt x @ CHR '','' # render_opts xs"

definition render_flag :: "bool \<Rightarrow> string option" where
  "render_flag b = Some (if b then ''true'' else ''false'')"

definition conf_opts :: "PjAgentConf \<Rightarrow> opt list" where
  "conf_opts c =
     [(''verbose'', render_flag (verbose c)),
      (''debug_dump_classes_before_instr'', render_flag (debug_dump_classes_before_instr c)),
      (''debug_dump_classes_after_instr'', render_flag (debug_dump_classes_after_instr c))] @
     (case phasicj_exec c of None \<Rightarrow> [] | Some e \<Rightarrow> [(''phasicj_exec'', Some e)])"

definition render_conf :: "PjAgentConf \<Rightarrow> string" where
  "render_conf c = render_opts (conf_opts c)"

definition opt_ok :: "opt \<Rightarrow> bool" where
  "opt_ok x \<longleftrightarrow> name_ok (fst x) \<and> (case snd x of None \<Rightarrow> True | Some a \<Rightarrow> arg_ok a)"

definition exec_ok :: "PjAgentConf \<Rightarrow> bool" where
  "exec_ok c \<longleftrightarrow> (case phasicj_exec c of None \<Rightarrow> True | Some e \<Rightarrow> e \<noteq> [] \<and> arg_ok e)"

lemma blanks_Nil [simp]: "blanks []"
  by (simp add: blanks_def)

lemma render_opt_text: "opt_ok x \<Longrightarrow> option_text x (render_opt x)"
proof -
  assume ok: "opt_ok x"
  obtain name v where x: "x = (name, v)" by (cases x)
  show ?thesis
  proof (cases v)
    case None
    with ok x option_text.flag [of name "[]"] show ?thesis by (simp add: opt_ok_def)
  next
    case (Some a)
    with ok x option_text.quoted [of name "[]" "[]" "[]" a "[]"] show ?thesis
      by (simp add: opt_ok_def)
  qed
qed

lemma render_opts_text: "xs \<noteq> [] \<Longrightarrow> \<forall>x\<in>set xs. opt_ok x \<Longrightarrow> items_text xs (render_opts xs)"
proof (induction xs rule: render_opts.induct)
  case (2 x)
  then show ?case by (simp add: last_item render_opt_text)
next
  case (3 x y ys)
  then show ?case
    using next_item [OF render_opt_text, of x "[]" "y # ys" "render_opts (y # ys)"] by simp
qed simp

lemma names_ok:
  "name_ok ''verbose''" "name_ok ''phasicj_exec''"
  "name_ok ''debug_dump_classes_before_instr''" "name_ok ''debug_dump_classes_after_instr''"
  by (simp_all add: name_ok_def name_char_def)

lemma flags_ok: "arg_ok ''true''" "arg_ok ''false''"
  by (simp_all add: arg_ok_def arg_char_def)

lemma conf_opts_ok: "exec_ok c \<Longrightarrow> x \<in> set (conf_opts c) \<Longrightarrow> opt_ok x \<and> valid_opt x"
  by (auto simp: conf_opts_def exec_ok_def opt_ok_def render_flag_def names_ok flags_ok
      valid_opt.simps bool_option_names_def split: option.splits if_splits)

lemma denoted_conf_opts: "denoted_conf new_with_defaults (conf_opts c) = c"
  by (cases c) (simp add: denoted_conf_def conf_opts_def last_setting_def flag_setting_def
      render_flag_def new_with_defaults_def map_add_def split: option.split)

lemma option_text_ok: "option_text x t \<Longrightarrow> opt_ok x"
  by (cases rule: option_text.cases) (auto simp: opt_ok_def)

lemma items_text_ok: "items_text xs t \<Longrightarrow> x \<in> set xs \<Longrightarrow> opt_ok x"
  by (induction rule: items_text.induct) (auto dest: option_text_ok)

lemma options_text_ok: "options_text xs s \<Longrightarrow> x \<in> set xs \<Longrightarrow> opt_ok x"
  by (cases rule: options_text.cases) (auto dest: items_text_ok)

lemma denoted_exec_ok:
  assumes "options_text opts s" and "\<forall>x\<in>set opts. valid_opt x"
  shows "exec_ok (denoted_conf new_with_defaults opts)"
proof (cases "last_setting ''phasicj_exec'' opts")
  case (Some v)
  then have "(''phasicj_exec'', v) \<in> set opts"
    by (auto simp: last_setting_def dest: map_of_SomeD)
  with assms options_text_ok have "opt_ok (''phasicj_exec'', v)" and "valid_opt (''phasicj_exec'', v)"
    by blast+
  with Some show ?thesis
    by (auto simp: exec_ok_def denoted_conf_def opt_ok_def valid_opt.simps bool_option_names_def
        split: option.splits)
qed (simp add: exec_ok_def denoted_conf_def new_with_defaults_def)

lemma conf_exec_ok: "conf_of_options s = Inr c \<Longrightarrow> exec_ok c"
  using denoted_exec_ok by (auto simp: grammar.new_from_Inr_iff)

text \<open>The faults that report something about the option string.\<close>

fun reported_panic :: "panic \<Rightarrow> bool" where
  "reported_panic ParseFailed = True"
| "reported_panic ExecWithoutValue = True"
| "reported_panic ExecEmptyValue = True"
| "reported_panic (UnrecognizedOption _) = True"
| "reported_panic (UnexpectedBoolValue _) = True"
| "reported_panic _ = False"

fun reported_fault :: "fault \<Rightarrow> bool" where
  "reported_fault (Panicked p) = reported_panic p"
| "reported_fault (Undefined _) = False"

lemma reported_opt_panic: "reported_panic (opt_panic x)"
  by (cases x) (simp add: opt_panic.simps split: option.split)

lemma conf_reported: "conf_of_options s = Inl e \<Longrightarrow> reported_fault e"
  using grammar.no_internal_fault [of s e] by (auto simp: reported_opt_panic)

lemma conf_render:
  assumes "exec_ok c"
  shows "conf_of_options (render_conf c) = Inr c"
proof -
  have "items_text (conf_opts c) (render_conf c)"
    unfolding render_conf_def
    using conf_opts_ok [OF assms] by (intro render_opts_text) (simp_all add: conf_opts_def)
  from items [OF blanks_Nil this] have "options_text (conf_opts c) (render_conf c)" by simp
  with conf_opts_ok [OF assms] show ?thesis
    by (auto simp: grammar.new_from_valid denoted_conf_opts)
qed

section \<open>The types of parse trees\<close>

text \<open>
  What the grammar's rules say of a token pair: which pairs it has inside, in which order, and
  which text a leaf has.
\<close>

fun well_typed_pair :: "rule pair \<Rightarrow> bool" where
  "well_typed_pair (PestPair r t ps) \<longleftrightarrow>
     (case r of
        Agent_options_list \<Rightarrow> ps \<noteq> [] \<and> map as_rule ps = replicate (length ps - 1) Agent_option @ [EOI]
      | Agent_option \<Rightarrow>
          map as_rule ps = [Conf_option_name] \<or> map as_rule ps = [Conf_option_name, Conf_option_arg]
      | Conf_option_name \<Rightarrow> ps = [] \<and> name_ok t
      | Conf_option_arg \<Rightarrow> ps = [] \<and> arg_ok t
      | EOI \<Rightarrow> ps = [] \<and> t = []
      | _ \<Rightarrow> False) \<and>
     list_all well_typed_pair ps"

lemma option_pair_typed: "opt_ok (fst x) \<Longrightarrow> well_typed_pair (option_pair x)"
proof -
  obtain name v w where x: "x = ((name, v), w)" by (metis prod.collapse)
  assume "opt_ok (fst x)"
  then show ?thesis unfolding x by (cases v) (simp_all add: opt_ok_def)
qed

lemma list_pair_typed:
  assumes "\<forall>x\<in>set xs. opt_ok (fst x)"
  shows "well_typed_pair (PestPair Agent_options_list s (map option_pair xs @ [PestPair EOI [] []]))"
proof -
  have "map (as_rule \<circ> option_pair) xs = replicate (length xs) Agent_option"
    by (induction xs) (simp_all add: option_pair_shape)
  with assms show ?thesis by (auto simp: list_all_iff option_pair_typed)
qed

section \<open>Properties\<close>

text \<open>
  C1. The configuration an option string yields: the string is accepted exactly when the
  option language gives it a list of valid options, and the result is the configuration
  the list denotes, later settings of a name overriding earlier ones.
\<close>

theorem conf_of_options_iff:
  "conf_of_options s = Inr c \<longleftrightarrow>
   (\<exists>opts. options_text opts s \<and> list_all valid_opt opts \<and> c = denoted_conf new_with_defaults opts)"
  by (simp only: grammar.new_from_Inr_iff list_all_iff)

text \<open>
  C18. The first option that is not valid decides the panic: an unknown name, an
  unexpected boolean, a missing or an empty executable path.
\<close>

theorem conf_first_invalid_option:
  assumes "options_text (xs @ x # ys) s" and "list_all valid_opt xs" and "\<not> valid_opt x"
  shows "conf_of_options s = Inl (Panicked (opt_panic x))"
  using assms grammar.new_from_invalid by (simp add: list_all_iff)

theorem conf_first_invalid_option_witness:
  "conf_of_options ''verbose,foo'' = Inl (Panicked (UnrecognizedOption ''foo''))"
proof -
  have "name_ok ''foo''" by (simp add: name_ok_def name_char_def)
  then have "option_text (''foo'', None) (''foo'' @ [])" by (intro flag) simp_all
  moreover have "option_text (''verbose'', None) (''verbose'' @ [])"
    by (intro flag names_ok) simp
  ultimately have "items_text [(''verbose'', None), (''foo'', None)] (''verbose'' @ CHR '','' # [] @ ''foo'')"
    by (intro next_item last_item) simp_all
  from items [OF blanks_Nil this]
  have "options_text ([(''verbose'', None)] @ (''foo'', None) # []) ''verbose,foo''" by simp
  from conf_first_invalid_option [OF this] show ?thesis
    by (simp add: valid_opt.simps opt_panic.simps bool_option_names_def)
qed

text \<open>C40. A parse failure is reported exactly for the strings outside the option language.\<close>

theorem conf_parse_failure_iff:
  "conf_of_options s = Inl (Panicked ParseFailed) \<longleftrightarrow> (\<nexists>opts. options_text opts s)"
proof
  assume fails: "conf_of_options s = Inl (Panicked ParseFailed)"
  show "\<nexists>opts. options_text opts s"
  proof
    assume "\<exists>opts. options_text opts s"
    then obtain opts where opts: "options_text opts s" ..
    from first_invalid [of opts] show False
    proof
      assume "\<forall>x\<in>set opts. valid_opt x"
      with opts fails grammar.new_from_valid show False by fastforce
    next
      assume "\<exists>xs x ys. opts = xs @ x # ys \<and> (\<forall>z\<in>set xs. valid_opt z) \<and> \<not> valid_opt x"
      then obtain xs x ys where "opts = xs @ x # ys" "\<forall>z\<in>set xs. valid_opt z" "\<not> valid_opt x"
        by blast
      with opts fails grammar.new_from_invalid have "opt_panic x = ParseFailed" by fastforce
      then show False by (cases x) (simp add: opt_panic.simps split: if_splits option.splits)
    qed
  qed
qed (blast intro: grammar.new_from_rejected)

text \<open>
  C21. The pass over the token pairs is safe: whatever the string, none of its assertions,
  unreachable branches or unwraps fires. A panic reports a parse failure or an invalid
  option, and a configuration that is returned has a well-formed executable path.
\<close>

theorem conf_internal_checks_never_fire:
  "case conf_of_options s of Inl e \<Rightarrow> reported_fault e | Inr c \<Rightarrow> exec_ok c"
proof (cases "conf_of_options s")
  case (Inl e)
  then have "reported_fault e" by (rule conf_reported)
  with Inl show ?thesis by simp
next
  case (Inr c)
  then have "exec_ok c" by (rule conf_exec_ok)
  with Inr show ?thesis by simp
qed



text \<open>
  C19. The grammar file's parser accepts exactly the option language, and the tree it
  returns holds exactly the options the text denotes.
\<close>

theorem grammar_language:
  "(\<exists>t. parse_agent_options_list s = Inr [t] \<and> tree_options t = opts) \<longleftrightarrow> options_text opts s"
proof
  assume "\<exists>t. parse_agent_options_list s = Inr [t] \<and> tree_options t = opts"
  then have "options_of s = Some opts"
    by (auto simp: parse_eq_read_options options_of_def tree_options_read split: option.splits)
  then show "options_text opts s" by (rule options_of_sound)
qed (rule grammar.accepts)

text \<open>What may stand in a string before an option and after it.\<close>

definition options_before :: "opt list \<Rightarrow> string \<Rightarrow> bool" where
  "options_before xs s \<longleftrightarrow> (xs = [] \<and> blanks s) \<or>
     (\<exists>b t d. blanks b \<and> items_text xs t \<and> blanks d \<and> s = b @ t @ CHR '','' # d)"

definition options_after :: "opt list \<Rightarrow> string \<Rightarrow> bool" where
  "options_after ys s \<longleftrightarrow> (ys = [] \<and> s = []) \<or> (\<exists>d t. blanks d \<and> items_text ys t \<and> s = CHR '','' # d @ t)"

lemma items_text_append:
  "items_text xs s \<Longrightarrow> blanks d \<Longrightarrow> items_text ys t \<Longrightarrow> items_text (xs @ ys) (s @ CHR '','' # d @ t)"
proof (induction rule: items_text.induct)
  case (last_item opt s)
  then show ?case by (simp add: items_text.next_item)
next
  case (next_item opt s b opts u)
  then show ?case using items_text.next_item [OF next_item(1,2), of "opts @ ys" "u @ CHR '','' # d @ t"] by simp
qed

lemma option_between:
  assumes "options_before xs s" and "option_text x t" and "options_after ys u"
  shows "options_text (xs @ x # ys) (s @ t @ u)"
proof -
  have rest: "items_text (x # ys) (t @ u)"
  proof (cases "ys = [] \<and> u = []")
    case True
    with last_item [OF assms(2)] show ?thesis by simp
  next
    case False
    with assms(3) obtain d v where "blanks d" "items_text ys v" "u = CHR '','' # d @ v"
      unfolding options_after_def by blast
    with next_item [OF assms(2)] show ?thesis by simp
  qed
  show ?thesis
  proof (cases "xs = [] \<and> blanks s")
    case True
    with items [of s, OF _ rest] show ?thesis by simp
  next
    case False
    with assms(1) obtain b v d where "blanks b" "items_text xs v" "blanks d" "s = b @ v @ CHR '','' # d"
      unfolding options_before_def by blast
    with items [of b, OF _ items_text_append [of xs v d, OF _ _ rest]] show ?thesis by simp
  qed
qed

text \<open>
  C38. Blanks after an unquoted boolean value are part of the value, at the end of the string and
  before a comma alike: after valid options, one of the boolean options set to \<open>true\<close> or \<open>false\<close>
  and followed by a blank is a panic that names the value with its blanks, whatever options
  come after it.
\<close>

theorem trailing_blank_panics:
  assumes "options_before xs s" and "list_all valid_opt xs" and "options_after ys u"
    and "name \<in> set bool_option_names" and "v \<in> {''true'', ''false''}" and "blanks b" and "b \<noteq> []"
  shows "conf_of_options (s @ (name @ ''='' @ v @ b) @ u) = Inl (Panicked (UnexpectedBoolValue (v @ b)))"
proof -
  have "arg_ok ''true''" "arg_ok ''false''" by (simp_all add: arg_ok_def arg_char_def)
  then have "arg_ok v" "v \<noteq> []" using assms(5) by auto
  moreover have "\<forall>c\<in>set b. arg_char c" using assms(6) by (simp add: blanks_def arg_char_def)
  ultimately have "arg_ok (v @ b)" by (auto simp: arg_ok_def hd_append)
  moreover have "name_ok name" using assms(4) by (auto simp: bool_option_names_def names_ok)
  ultimately have "option_text (name, Some (v @ b)) (name @ [] @ CHR ''='' # [] @ v @ b)"
    by (intro bare) simp_all
  then have "option_text (name, Some (v @ b)) (name @ ''='' @ v @ b)" by simp
  note placed = option_between [OF assms(1) this assms(3)]
  have "v @ b \<noteq> ''true''" "v @ b \<noteq> ''false''" using assms(5,7) by auto
  with assms(4) have "\<not> valid_opt (name, Some (v @ b))" "opt_panic (name, Some (v @ b)) = UnexpectedBoolValue (v @ b)"
    by (simp_all add: valid_opt.simps opt_panic.simps)
  with grammar.new_from_invalid [OF placed] assms(2) show ?thesis by (simp add: list_all_iff)
qed

theorem trailing_blank_panics_witness:
  "conf_of_options ''verbose,verbose=false ,foo'' = Inl (Panicked (UnexpectedBoolValue ''false ''))"
proof -
  have "option_text (''verbose'', None) (''verbose'' @ [])" by (intro flag names_ok) simp
  then have "options_before [(''verbose'', None)] ''verbose,''"
    using last_item [of "(''verbose'', None)" "''verbose''"] unfolding options_before_def
    by (intro disjI2 exI [of _ "[]"] exI [of _ "''verbose''"]) simp
  moreover have "name_ok ''foo''" by (simp add: name_ok_def name_char_def)
  then have "option_text (''foo'', None) (''foo'' @ [])" by (intro flag) simp_all
  then have "options_after [(''foo'', None)] '',foo''"
    using last_item [of "(''foo'', None)" "''foo''"] unfolding options_after_def
    by (intro disjI2 exI [of _ "[]"] exI [of _ "''foo''"]) simp
  ultimately show ?thesis
    using trailing_blank_panics [of "[(''verbose'', None)]" "''verbose,''" "[(''foo'', None)]" "'',foo''"
        "''verbose''" "''false''" "'' ''"]
    by (simp add: valid_opt.simps bool_option_names_def blanks_def)
qed

text \<open>
  Blanks after the opening quote of an argument are dropped: a quoted path never keeps
  the blanks it starts with.
\<close>

theorem quoted_leading_blanks_dropped:
  assumes "blanks b" and "arg_ok a" and "a \<noteq> []"
  shows "conf_of_options (''phasicj_exec='' @ quote # b @ a @ [quote]) =
    Inr (new_with_defaults\<lparr>phasicj_exec := Some a\<rparr>)"
proof -
  have "option_text (''phasicj_exec'', Some a)
      (''phasicj_exec'' @ [] @ CHR ''='' # [] @ quote # b @ a @ quote # [])"
    by (intro quoted names_ok) (simp_all add: assms)
  from items [OF blanks_Nil last_item [OF this]]
  have "options_text [(''phasicj_exec'', Some a)] (''phasicj_exec='' @ quote # b @ a @ [quote])"
    by simp
  from grammar.new_from_valid [OF this] assms(3) show ?thesis
    by (simp add: valid_opt.simps bool_option_names_def denoted_conf_def flag_setting_def
        new_with_defaults_def)
qed

theorem quoted_leading_blanks_dropped_witness:
  "conf_of_options (''phasicj_exec='' @ quote # ''  '' @ ''pj'' @ [quote]) =
    Inr (new_with_defaults\<lparr>phasicj_exec := Some ''pj''\<rparr>)"
  by (rule quoted_leading_blanks_dropped) (simp_all add: blanks_def arg_ok_def arg_char_def)

text \<open>
  C20. The parser's trees are well typed, whatever the string: one pair for the list, with the
  options and the end inside; in each option a name and at most one argument; names and
  arguments are leaves with the characters of their rules. This is what the pass takes for
  granted when it unwraps and matches pairs.
\<close>

theorem grammar_trees_typed:
  "case parse_agent_options_list s of
     Inl _ \<Rightarrow> True
   | Inr ts \<Rightarrow> \<exists>t. ts = [t] \<and> as_rule t = Agent_options_list \<and> as_str t = s \<and> well_typed_pair t"
proof (cases "parse_agent_options_list s")
  case (Inr ts)
  then obtain xs where ts: "ts = [PestPair Agent_options_list s (map option_pair xs @ [PestPair EOI [] []])]"
    and "options_of s = Some (map fst xs)" by (rule parse_inr)
  then have "options_text (map fst xs) s" by (simp add: options_of_iff)
  then have "\<forall>x\<in>set xs. opt_ok (fst x)" using options_text_ok by fastforce
  with Inr ts show ?thesis by (simp only: sum.case) (intro exI conjI, rule refl, simp_all add: list_pair_typed del: well_typed_pair.simps)
qed simp

section \<open>The option parser on a console\<close>

text \<open>
  \<^verbatim>\<open>phasicj/agent/conf/src/conf_test_repl.rs\<close>: each line of the input is parsed and its
  configuration printed; a line that cannot be read, or is rejected, ends the program.
\<close>

fun conf_test_repl :: "(unit + string) list \<Rightarrow> (PjAgentConf list, unit) prog" where
  "conf_test_repl [] = ret ()"
| "conf_test_repl (line # input) =
     bnd (unwrap_ok line) (\<lambda>line.
     bnd (of_result (conf_of_options line)) (\<lambda>conf.
     seq (update (\<lambda>printed. printed @ [conf]))
       (conf_test_repl input)))"

lemma conf_test_repl_prints:
  "list_all2 (\<lambda>l c. conf_of_options l = Inr c) ls cs \<Longrightarrow>
   conf_test_repl (map Inr ls) out = (Inr (), out @ cs)"
  by (induction arbitrary: out rule: list_all2_induct) (simp_all add: prog_simps)

end
