(* ===== verification/EnvStorage.thy ===== *)
theory EnvStorage
  imports JvmtiEnv Conf
begin

text \<open>
  The agent's configuration in the JVMTI environment-local storage,
  \<^verbatim>\<open>phasicj/agent/jvm/env_storage.rs\<close>: a C structure in memory that JVMTI allocates, with
  the optional path in a block of its own. Memory is read and written through raw pointers;
  what would be undefined behaviour in Rust is a fault of the model.
\<close>

section \<open>Memory\<close>

definition read_block :: "pointer \<Rightarrow> nat \<Rightarrow> ('j world, byte list) prog" where
  "read_block p n = (\<lambda>w. case heap w p of
     None \<Rightarrow> (Inl (Undefined DanglingRead), w)
   | Some b \<Rightarrow> if n \<le> length b then (Inr (take n b), w) else (Inl (Undefined DanglingRead), w))"

text \<open>A copy of no bytes touches nothing.\<close>

definition write_block :: "pointer \<Rightarrow> byte list \<Rightarrow> ('j world, unit) prog" where
  "write_block p bs = (\<lambda>w. if bs = [] then (Inr (), w) else case heap w p of
     None \<Rightarrow> (Inl (Undefined DanglingWrite), w)
   | Some b \<Rightarrow>
       if length bs \<le> length b
       then (Inr (), w\<lparr>heap := (heap w)(p \<mapsto> bs @ drop (length bs) b)\<rparr>)
       else (Inl (Undefined DanglingWrite), w))"

lemma read_block_run: "heap w p = Some b \<Longrightarrow> n \<le> length b \<Longrightarrow> read_block p n w = (Inr (take n b), w)"
  by (simp add: read_block_def)

lemma write_block_run:
  "heap w p = Some b \<Longrightarrow> length bs = length b \<Longrightarrow>
   write_block p bs w = (Inr (), w\<lparr>heap := (heap w)(p \<mapsto> bs)\<rparr>)"
  by (cases "bs = []") (auto simp: write_block_def map_upd_triv)

text \<open>Little-endian integers.\<close>

fun le_bytes :: "nat \<Rightarrow> nat \<Rightarrow> byte list" where
  "le_bytes 0 n = []"
| "le_bytes (Suc k) n = char_of n # le_bytes k (n div 256)"

fun le_value :: "byte list \<Rightarrow> nat" where
  "le_value [] = 0"
| "le_value (c # cs) = of_char c + 256 * le_value cs"

lemma length_le_bytes [simp]: "length (le_bytes k n) = k"
  by (induction k arbitrary: n) simp_all

lemma le_value_le_bytes: "le_value (le_bytes k n) = n mod 256 ^ k"
  by (induction k arbitrary: n) (simp_all add: mod_mult2_eq)

lemma le_value_word: "le_value (le_bytes 8 (unat (w :: 64 word))) = unat w"
proof -
  have "unat w < 256 ^ 8" using unsigned_less [of w] by simp
  then show ?thesis by (simp add: le_value_le_bytes)
qed

section \<open>The structure in memory\<close>

record EnvStorage =
  conf :: PjAgentConf

record RawEnvStorage =
  raw_verbose :: bool
  phasicj_exec_ptr :: pointer
  phasicj_exec_len :: "64 word"
  raw_debug_dump_classes_before_instr :: bool
  raw_debug_dump_classes_after_instr :: bool

text \<open>
  The \<open>repr(C)\<close> layout on a 64-bit target: a flag, seven bytes of padding, two words, two
  flags, six bytes of padding. What a write leaves in the padding is unspecified; nothing
  reads it.
\<close>

definition size_of_raw :: nat where "size_of_raw = 32"
definition align_of_raw :: nat where "align_of_raw = 8"

definition bool_byte :: "bool \<Rightarrow> byte" where
  "bool_byte b = (if b then CHR 0x01 else CHR 0x00)"

definition byte_bool :: "byte \<Rightarrow> bool result" where
  "byte_bool c =
     (if c = CHR 0x00 then Inr False else if c = CHR 0x01 then Inr True else Inl (Undefined InvalidBool))"

definition raw_bytes :: "RawEnvStorage \<Rightarrow> byte list" where
  "raw_bytes r =
     bool_byte (raw_verbose r) # replicate 7 (CHR 0x00) @
     le_bytes 8 (unat (phasicj_exec_ptr r)) @ le_bytes 8 (unat (phasicj_exec_len r)) @
     [bool_byte (raw_debug_dump_classes_before_instr r), bool_byte (raw_debug_dump_classes_after_instr r)] @
     replicate 6 (CHR 0x00)"

definition raw_ptr_field :: "byte list \<Rightarrow> pointer" where
  "raw_ptr_field b = of_nat (le_value (take 8 (drop 8 b)))"

definition raw_len_field :: "byte list \<Rightarrow> 64 word" where
  "raw_len_field b = of_nat (le_value (take 8 (drop 16 b)))"

lemma length_raw_bytes [simp]: "length (raw_bytes r) = 32"
  by (simp add: raw_bytes_def)

lemma raw_bytes_fields:
  "raw_bytes r ! 0 = bool_byte (raw_verbose r)"
  "raw_ptr_field (raw_bytes r) = phasicj_exec_ptr r"
  "raw_len_field (raw_bytes r) = phasicj_exec_len r"
  "raw_bytes r ! 24 = bool_byte (raw_debug_dump_classes_before_instr r)"
  "raw_bytes r ! 25 = bool_byte (raw_debug_dump_classes_after_instr r)"
  by (simp_all add: raw_bytes_def raw_ptr_field_def raw_len_field_def le_value_word nth_append
      nth_Cons' take_Cons' drop_Cons')

lemma byte_bool_byte [simp]: "byte_bool (bool_byte b) = Inr b"
  by (simp add: byte_bool_def bool_byte_def)

section \<open>Operations\<close>

definition is_jvmti_allocation_aligned :: "nat \<Rightarrow> pointer \<Rightarrow> bool" where
  "is_jvmti_allocation_aligned align_of_t env_storage \<longleftrightarrow> unat env_storage mod align_of_t = 0"

definition allocate :: "'j jvmti_table \<Rightarrow> nat \<Rightarrow> ('j world, pointer) prog" where
  "allocate J sz =
     (if sz = 0 then panic ZeroSizedAllocation
      else if sz < 2 ^ 63 then bnd (jvmti_allocate J (of_nat sz)) assume_init
      else panic UnwrapErr)"

definition allocate_type :: "'j jvmti_table \<Rightarrow> nat \<Rightarrow> nat \<Rightarrow> ('j world, pointer) prog" where
  "allocate_type J size_of_t align_of_t =
     bnd (allocate J size_of_t) (\<lambda>buf.
       if \<not> is_jvmti_allocation_aligned align_of_t buf then panic AllocationMisaligned
       else ret buf)"

definition RawEnvStorage_allocate :: "'j jvmti_table \<Rightarrow> ('j world, pointer) prog" where
  "RawEnvStorage_allocate J = allocate_type J size_of_raw align_of_raw"

definition RawEnvStorage_get_ptr :: "'j jvmti_table \<Rightarrow> ('j world, pointer option) prog" where
  "RawEnvStorage_get_ptr J =
     bnd (get_environment_local_storage J) (\<lambda>written.
     bnd (assume_init written) (\<lambda>p.
     ret (if p = 0 then None else Some p)))"

definition RawEnvStorage_from_conf ::
  "'j jvmti_table \<Rightarrow> PjAgentConf \<Rightarrow> ('j world, RawEnvStorage) prog" where
  "RawEnvStorage_from_conf J given =
     bnd (case phasicj_exec given of
            None \<Rightarrow> ret (0, 0)
          | Some s \<Rightarrow>
              bnd (allocate J (length s)) (\<lambda>p.
              seq (write_block p s) (ret (p, of_nat (length s)))))
       (\<lambda>(p, n). ret
          \<lparr>raw_verbose = verbose given, phasicj_exec_ptr = p, phasicj_exec_len = n,
           raw_debug_dump_classes_before_instr = debug_dump_classes_before_instr given,
           raw_debug_dump_classes_after_instr = debug_dump_classes_after_instr given\<rparr>)"

text \<open>\<open>to_env_storage\<close> reads the structure through its pointer, field by field.\<close>

definition to_env_storage :: "pointer \<Rightarrow> ('j world, EnvStorage) prog" where
  "to_env_storage self =
     bnd (read_block self size_of_raw) (\<lambda>b.
     bnd (if raw_ptr_field b = 0 then ret None
          else bnd (read_block (raw_ptr_field b) (unat (raw_len_field b))) (\<lambda>buf.
               bnd (unwrap_ok (to_str buf)) (\<lambda>s. ret (Some s)))) (\<lambda>exec.
     bnd (of_result (byte_bool (b ! 0))) (\<lambda>v.
     bnd (of_result (byte_bool (b ! 24))) (\<lambda>before.
     bnd (of_result (byte_bool (b ! 25))) (\<lambda>after.
     ret \<lparr>conf = \<lparr>verbose = v, phasicj_exec = exec, debug_dump_classes_before_instr = before,
                   debug_dump_classes_after_instr = after\<rparr>\<rparr>)))))"

definition EnvStorage_of :: "'j jvmti_table \<Rightarrow> ('j world, EnvStorage option) prog" where
  "EnvStorage_of J =
     bnd (RawEnvStorage_get_ptr J) (\<lambda>p.
       case p of None \<Rightarrow> ret None | Some p \<Rightarrow> bnd (to_env_storage p) (\<lambda>s. ret (Some s)))"

definition EnvStorage_init :: "'j jvmti_table \<Rightarrow> PjAgentConf \<Rightarrow> ('j world, unit) prog" where
  "EnvStorage_init J c =
     bnd (EnvStorage_of J) (\<lambda>existing.
     if existing \<noteq> None then panic StorageAlreadyInitialized
     else
       bnd (RawEnvStorage_allocate J) (\<lambda>storage.
       bnd (RawEnvStorage_from_conf J c) (\<lambda>raw.
       seq (write_block storage (raw_bytes raw))
         (set_environment_local_storage J storage))))"

definition EnvStorage_free :: "'j jvmti_table \<Rightarrow> ('j world, unit) prog" where
  "EnvStorage_free J =
     bnd (RawEnvStorage_get_ptr J) (\<lambda>found.
     bnd (expect StorageNotInitialized found) (\<lambda>storage.
     bnd (read_block storage size_of_raw) (\<lambda>b.
     seq (if raw_ptr_field b \<noteq> 0 then jvmti_deallocate J (raw_ptr_field b) else ret ())
       (set_environment_local_storage J 0))))"

section \<open>The stored configuration\<close>

text \<open>
  What \<open>init\<close> leaves: the storage pointer leads to the bytes of a structure with the
  configuration's flags, and its pointer, unless null, to a block with the path.
\<close>

definition raw_for :: "PjAgentConf \<Rightarrow> pointer \<Rightarrow> 64 word \<Rightarrow> RawEnvStorage" where
  "raw_for c p n =
     \<lparr>raw_verbose = verbose c, phasicj_exec_ptr = p, phasicj_exec_len = n,
      raw_debug_dump_classes_before_instr = debug_dump_classes_before_instr c,
      raw_debug_dump_classes_after_instr = debug_dump_classes_after_instr c\<rparr>"

definition exec_stored :: "'j world \<Rightarrow> string option \<Rightarrow> pointer \<Rightarrow> 64 word \<Rightarrow> bool" where
  "exec_stored w exec p n \<longleftrightarrow>
     (case exec of
        None \<Rightarrow> p = 0
      | Some s \<Rightarrow> p \<noteq> 0 \<and> p \<noteq> env_local w \<and> heap w p = Some s \<and> unat n = length s \<and> utf8_valid s)"

definition holds_conf :: "'j world \<Rightarrow> PjAgentConf \<Rightarrow> bool" where
  "holds_conf w c \<longleftrightarrow>
     env_local w \<noteq> 0 \<and>
     (\<exists>p n. heap w (env_local w) = Some (raw_bytes (raw_for c p n)) \<and>
            exec_stored w (phasicj_exec c) p n)"

definition storable :: "PjAgentConf \<Rightarrow> bool" where
  "storable c \<longleftrightarrow> (\<forall>s. phasicj_exec c = Some s \<longrightarrow> s \<noteq> [] \<and> utf8_valid s)"

lemma arg_char_ascii: "arg_char c \<Longrightarrow> ascii_char c"
  by (auto simp: arg_char_def ascii_char_def byte_in_def)

lemma conf_storable: "conf_of_options s = Inr c \<Longrightarrow> storable c"
  using conf_exec_ok [of s c]
  by (auto simp: exec_ok_def arg_ok_def storable_def intro!: utf8_valid_ascii arg_char_ascii
      split: option.splits)

lemma raw_for_fields [simp]:
  "raw_verbose (raw_for c p n) = verbose c" "phasicj_exec_ptr (raw_for c p n) = p"
  "phasicj_exec_len (raw_for c p n) = n"
  "raw_debug_dump_classes_before_instr (raw_for c p n) = debug_dump_classes_before_instr c"
  "raw_debug_dump_classes_after_instr (raw_for c p n) = debug_dump_classes_after_instr c"
  by (simp_all add: raw_for_def)

text \<open>The stored configuration survives whatever leaves the pointer and the blocks alone.\<close>

lemma holds_conf_mono:
  assumes "holds_conf w c" and "env_local w' = env_local w" and "heap w \<subseteq>\<^sub>m heap w'"
  shows "holds_conf w' c"
proof -
  have up: "heap w p = Some b \<Longrightarrow> heap w' p = Some b" for p b
    using assms(3) by (metis map_le_def domI)
  from assms(1) obtain p n where "env_local w \<noteq> 0"
    "heap w (env_local w) = Some (raw_bytes (raw_for c p n))" "exec_stored w (phasicj_exec c) p n"
    by (auto simp: holds_conf_def)
  moreover from this(3) have "exec_stored w' (phasicj_exec c) p n"
    using assms(2) by (auto simp: exec_stored_def up split: option.splits)
  ultimately show ?thesis using assms(2) up unfolding holds_conf_def by metis
qed

lemma holds_conf_jvm [simp]: "holds_conf (w\<lparr>jvm := j\<rparr>) c = holds_conf w c"
  by (simp add: holds_conf_def exec_stored_def cong: option.case_cong)

section \<open>Each operation\<close>

lemma to_env_storage_holds:
  assumes "holds_conf w c"
  shows "to_env_storage (env_local w) w = (Inr \<lparr>conf = c\<rparr>, w)"
proof -
  from assms obtain p n where b: "heap w (env_local w) = Some (raw_bytes (raw_for c p n))"
    and x: "exec_stored w (phasicj_exec c) p n" by (auto simp: holds_conf_def)
  have r: "read_block (env_local w) size_of_raw w = (Inr (raw_bytes (raw_for c p n)), w)"
    using b by (simp add: read_block_def size_of_raw_def)
  show ?thesis
  proof (cases "phasicj_exec c")
    case None
    with x have "p = 0" by (simp add: exec_stored_def)
    with r None show ?thesis by (simp add: to_env_storage_def prog_simps raw_bytes_fields)
  next
    case (Some s)
    with x have p: "p \<noteq> 0" "heap w p = Some s" "unat n = length s" "utf8_valid s"
      by (auto simp: exec_stored_def)
    then have "read_block p (unat n) w = (Inr s, w)" by (simp add: read_block_def)
    with r Some p show ?thesis
      by (simp add: to_env_storage_def prog_simps raw_bytes_fields to_str_def)
  qed
qed

lemma get_ptr_acts:
  assumes "jvmti_laws J"
  shows "acts (\<lambda>w. if env_local w = 0 then None else Some (env_local w)) id (RawEnvStorage_get_ptr J)"
proof (rule actsI)
  fix w
  show "(\<exists>e j. call_fault e \<and> RawEnvStorage_get_ptr J w = (Inl e, w\<lparr>jvm := j\<rparr>)) \<or>
    (\<exists>j. RawEnvStorage_get_ptr J w =
       (Inr (if env_local w = 0 then None else Some (env_local w)), (id w)\<lparr>jvm := j\<rparr>))"
    using get_env_local_acts [OF assms]
    by (rule actsE [of _ _ _ w]) (auto simp: RawEnvStorage_get_ptr_def prog_simps)
qed

lemma of_cases:
  assumes "jvmti_laws J"
  obtains (fault) e j where "call_fault e" "EnvStorage_of J w = (Inl e, w\<lparr>jvm := j\<rparr>)"
  | (vacant) j where "env_local w = 0" "EnvStorage_of J w = (Inr None, w\<lparr>jvm := j\<rparr>)"
  | (there) j where "env_local w \<noteq> 0"
      "\<And>c. holds_conf w c \<Longrightarrow> EnvStorage_of J w = (Inr (Some \<lparr>conf = c\<rparr>), w\<lparr>jvm := j\<rparr>)"
proof -
  note get = get_ptr_acts [OF assms]
  show thesis
  proof (rule actsE [OF get, of w])
    fix e j assume "call_fault e" "RawEnvStorage_get_ptr J w = (Inl e, w\<lparr>jvm := j\<rparr>)"
    then show thesis by (intro fault) (simp_all add: EnvStorage_of_def)
  next
    fix j assume run: "RawEnvStorage_get_ptr J w =
      (Inr (if env_local w = 0 then None else Some (env_local w)), (id w)\<lparr>jvm := j\<rparr>)"
    show thesis
    proof (cases "env_local w = 0")
      case True
      with run show thesis by (intro vacant) (simp_all add: EnvStorage_of_def prog_simps)
    next
      case False
      have "EnvStorage_of J w = (Inr (Some \<lparr>conf = c\<rparr>), w\<lparr>jvm := j\<rparr>)" if "holds_conf w c" for c
        using run False to_env_storage_holds [of "w\<lparr>jvm := j\<rparr>" c] that
        by (simp add: EnvStorage_of_def prog_simps)
      with False show thesis by (rule there)
    qed
  qed
qed

lemma allocate_cases:
  assumes "jvmti_laws J" and "sz \<noteq> 0"
  obtains (fault) e j where "call_fault e" "allocate J sz w = (Inl e, w\<lparr>jvm := j\<rparr>)"
  | (fresh) p block j where "p \<noteq> 0" "heap w p = None" "length block = sz" "sz < 2 ^ 63"
      "allocate J sz w = (Inr p, w\<lparr>jvm := j, heap := (heap w)(p \<mapsto> block)\<rparr>)"
proof (cases "sz < 2 ^ 63")
  case True
  then have sz: "unat (of_nat sz :: 64 word) = sz" unfolding unat_of_nat by (intro mod_less) simp
  then have nz: "(of_nat sz :: 64 word) \<noteq> 0" using assms(2) by (metis unsigned_0)
  show thesis
  proof (rule jvmti_allocate_cases [OF assms(1), of "of_nat sz" w])
    fix e j assume "call_fault e" "jvmti_allocate J (of_nat sz) w = (Inl e, w\<lparr>jvm := j\<rparr>)"
    then show thesis using True assms(2) by (intro fault) (simp_all add: allocate_def)
  next
    fix p block j assume "p \<noteq> 0" "heap w p = None" "length block = unat (of_nat sz :: 64 word)"
      "jvmti_allocate J (of_nat sz) w = (Inr (Some p), w\<lparr>jvm := j, heap := (heap w)(p \<mapsto> block)\<rparr>)"
    then show thesis using True assms(2) sz by (intro fresh) (simp_all add: allocate_def prog_simps)
  qed (use nz in simp)
next
  case False
  with assms(2) show thesis
    by (intro fault [of "Panicked UnwrapErr" "jvm w"]) (simp_all add: allocate_def prog_simps)
qed

text \<open>Every panic of storage that is not a call fault.\<close>

fun storage_fault :: "fault \<Rightarrow> bool" where
  "storage_fault (Panicked AllocationMisaligned) = True"
| "storage_fault e = call_fault e"

lemma call_storage_fault: "call_fault e \<Longrightarrow> storage_fault e"
  by (cases e rule: storage_fault.cases) simp_all

lemma raw_allocate_cases:
  assumes "jvmti_laws J"
  obtains (fault) e k h where "storage_fault e"
      "RawEnvStorage_allocate J w = (Inl e, w\<lparr>jvm := k, heap := h\<rparr>)" "heap w \<subseteq>\<^sub>m h"
  | (fresh) p block j where "p \<noteq> 0" "heap w p = None" "length block = size_of_raw"
      "RawEnvStorage_allocate J w = (Inr p, w\<lparr>jvm := j, heap := (heap w)(p \<mapsto> block)\<rparr>)"
proof -
  have sz: "size_of_raw \<noteq> 0" by (simp add: size_of_raw_def)
  show thesis
  proof (rule allocate_cases [OF assms sz, of w])
    fix e j assume "call_fault e" "allocate J size_of_raw w = (Inl e, w\<lparr>jvm := j\<rparr>)"
    then show thesis
      by (intro fault [of e "heap w" j])
         (simp_all add: RawEnvStorage_allocate_def allocate_type_def call_storage_fault)
  next
    fix p block j assume a: "p \<noteq> 0" "heap w p = None" "length block = size_of_raw"
      "allocate J size_of_raw w = (Inr p, w\<lparr>jvm := j, heap := (heap w)(p \<mapsto> block)\<rparr>)"
    show thesis
    proof (cases "is_jvmti_allocation_aligned align_of_raw p")
      case True
      with a show thesis
        by (intro fresh) (simp_all add: RawEnvStorage_allocate_def allocate_type_def prog_simps)
    next
      case False
      with a show thesis
        by (intro fault [of "Panicked AllocationMisaligned" "(heap w)(p \<mapsto> block)" j])
           (simp_all add: RawEnvStorage_allocate_def allocate_type_def prog_simps map_le_def dom_def)
    qed
  qed
qed

lemma from_conf_cases:
  assumes "jvmti_laws J" and "storable c"
  obtains (fault) e j where "call_fault e" "RawEnvStorage_from_conf J c w = (Inl e, w\<lparr>jvm := j\<rparr>)"
  | (bare) "phasicj_exec c = None" "RawEnvStorage_from_conf J c w = (Inr (raw_for c 0 0), w)"
  | (path) s p n j where "phasicj_exec c = Some s" "p \<noteq> 0" "heap w p = None" "unat n = length s"
      "RawEnvStorage_from_conf J c w =
         (Inr (raw_for c p n), w\<lparr>jvm := j, heap := (heap w)(p \<mapsto> s)\<rparr>)"
proof (cases "phasicj_exec c")
  case None
  then show thesis by (intro bare) (simp_all add: RawEnvStorage_from_conf_def prog_simps raw_for_def)
next
  case (Some s)
  with assms(2) have "length s \<noteq> 0" by (simp add: storable_def)
  show thesis
  proof (rule allocate_cases [OF assms(1) \<open>length s \<noteq> 0\<close>, of w])
    fix e j assume "call_fault e" "allocate J (length s) w = (Inl e, w\<lparr>jvm := j\<rparr>)"
    then show thesis using Some by (intro fault) (simp_all add: RawEnvStorage_from_conf_def)
  next
    fix p block j assume a: "p \<noteq> 0" "heap w p = None" "length block = length s" "length s < 2 ^ 63"
      "allocate J (length s) w = (Inr p, w\<lparr>jvm := j, heap := (heap w)(p \<mapsto> block)\<rparr>)"
    have "unat (of_nat (length s) :: 64 word) = length s"
      using a(4) unfolding unat_of_nat by (intro mod_less) simp
    with a Some show thesis
      by (intro path [of s p "of_nat (length s)" j])
         (simp_all add: RawEnvStorage_from_conf_def prog_simps write_block_run raw_for_def)
  qed
qed

lemma set_env_local_cases:
  assumes "jvmti_laws J"
  obtains (fault) e j where "call_fault e" "set_environment_local_storage J p w = (Inl e, w\<lparr>jvm := j\<rparr>)"
  | (wrote) j where "set_environment_local_storage J p w = (Inr (), w\<lparr>env_local := p, jvm := j\<rparr>)"
  using set_env_local_acts [OF assms, of p] by (rule actsE [of _ _ _ w]) (auto intro: that)

text \<open>
  \<open>init\<close> on an empty storage: it stores the configuration, or it fails and the storage is
  as empty as before. Blocks are only ever added.
\<close>

definition heap_grown :: "'j world \<Rightarrow> 'j world \<Rightarrow> bool" where
  "heap_grown w w' \<longleftrightarrow>
     heap w \<subseteq>\<^sub>m heap w' \<and> w' = w\<lparr>jvm := jvm w', heap := heap w', env_local := env_local w'\<rparr>"

lemma heap_grown_jvm [simp]: "heap_grown w (w\<lparr>jvm := j\<rparr>)"
  by (simp add: heap_grown_def)

text \<open>A heap that has got new blocks of so many bytes in all, and lost none.\<close>

definition grown_by :: "nat \<Rightarrow> (pointer \<rightharpoonup> byte list) \<Rightarrow> (pointer \<rightharpoonup> byte list) \<Rightarrow> bool" where
  "grown_by k h h' \<longleftrightarrow>
     h \<subseteq>\<^sub>m h' \<and> finite (dom h' - dom h) \<and> (\<Sum>p\<in>dom h' - dom h. length (the (h' p))) = k"

lemma grown_by_refl: "grown_by 0 h h"
  by (simp add: grown_by_def)

lemma grown_by_fresh:
  assumes "grown_by k h h'" and "h' p = None"
  shows "grown_by (k + length b) h (h'(p \<mapsto> b))"
proof -
  let ?D = "dom h' - dom h"
  have "h p = None" using assms by (metis grown_by_def domIff map_le_def)
  then have dom: "dom (h'(p \<mapsto> b)) - dom h = insert p ?D" and p: "p \<notin> ?D" using assms(2) by auto
  have "h \<subseteq>\<^sub>m h'(p \<mapsto> b)" using assms(1) \<open>h p = None\<close> by (auto simp: grown_by_def map_le_def)
  moreover have "(\<Sum>q\<in>?D. length (the ((h'(p \<mapsto> b)) q))) = (\<Sum>q\<in>?D. length (the (h' q)))"
    using p by (intro sum.cong) auto
  ultimately show ?thesis using assms(1) p unfolding grown_by_def dom by simp
qed

text \<open>What a stored configuration takes: the structure and the path.\<close>

definition footprint :: "PjAgentConf \<Rightarrow> nat" where
  "footprint c = size_of_raw + (case phasicj_exec c of None \<Rightarrow> 0 | Some s \<Rightarrow> length s)"

text \<open>The last two steps of \<open>init\<close>: write the structure, and publish its address.\<close>

definition commit :: "'j jvmti_table \<Rightarrow> pointer \<Rightarrow> RawEnvStorage \<Rightarrow> ('j world, unit) prog" where
  "commit J p raw = seq (write_block p (raw_bytes raw)) (set_environment_local_storage J p)"

lemma init_eq:
  "EnvStorage_init J c =
     bnd (EnvStorage_of J) (\<lambda>existing.
     if existing \<noteq> None then panic StorageAlreadyInitialized
     else bnd (RawEnvStorage_allocate J) (\<lambda>p. bnd (RawEnvStorage_from_conf J c) (commit J p)))"
  unfolding EnvStorage_init_def commit_def [abs_def] by (rule refl)

lemma commit_cases:
  assumes laws: "jvmti_laws J" and t: "t = w\<lparr>jvm := j, heap := h\<rparr>" and empty: "env_local w = 0"
    and grown: "heap w \<subseteq>\<^sub>m h" and p: "p \<noteq> 0" "heap w p = None" "h p = Some block" "length block = size_of_raw"
    and x: "exec_stored (t\<lparr>env_local := p\<rparr>) (phasicj_exec c) q n"
  obtains (fault) e u where "storage_fault e" "commit J p (raw_for c q n) t = (Inl e, u)"
      "env_local u = 0" "heap_grown w u"
  | (stored) u where "commit J p (raw_for c q n) t = (Inr (), u)" "holds_conf u c" "heap_grown w u"
      "heap u = h(p \<mapsto> raw_bytes (raw_for c q n))"
proof -
  let ?h = "h(p \<mapsto> raw_bytes (raw_for c q n))"
  let ?v = "t\<lparr>heap := ?h\<rparr>"
  have wr: "write_block p (raw_bytes (raw_for c q n)) t = (Inr (), ?v)"
    using t p(3,4) by (simp add: write_block_run size_of_raw_def)
  have up: "heap w \<subseteq>\<^sub>m ?h" using grown p(2) by (auto simp: map_le_def)
  show thesis
  proof (rule set_env_local_cases [OF laws, of p ?v], goal_cases fault wrote)
    case (fault e k)
    then show thesis using t wr up empty
      by (intro that(1) [of e "?v\<lparr>jvm := k\<rparr>"]) (simp_all add: commit_def call_storage_fault heap_grown_def)
  next
    case (wrote k)
    have "exec_stored (?v\<lparr>env_local := p, jvm := k\<rparr>) (phasicj_exec c) q n"
      using x t by (auto simp: exec_stored_def split: option.splits)
    then have "holds_conf (?v\<lparr>env_local := p, jvm := k\<rparr>) c"
      using p(1) unfolding holds_conf_def by (intro conjI exI [of _ q] exI [of _ n]) simp_all
    with wrote t wr up show thesis
      by (intro that(2) [of "?v\<lparr>env_local := p, jvm := k\<rparr>"]) (simp_all add: commit_def heap_grown_def)
  qed
qed

lemma init_cases:
  assumes laws: "jvmti_laws J" and empty: "env_local w = 0" and c: "storable c"
  obtains (fault) e w' where "storage_fault e" "EnvStorage_init J c w = (Inl e, w')"
      "env_local w' = 0" "heap_grown w w'"
  | (stored) w' where "EnvStorage_init J c w = (Inr (), w')" "holds_conf w' c" "heap_grown w w'"
      "grown_by (footprint c) (heap w) (heap w')"
proof (rule of_cases [OF laws, of w], goal_cases fault vacant there)
  case (fault e j)
  then show thesis
    using that(1) [of e "w\<lparr>jvm := j\<rparr>"] empty by (simp add: init_eq call_storage_fault)
next
  case (there j)
  with empty show thesis by simp
next
  case (vacant j)
  let ?w = "w\<lparr>jvm := j\<rparr>"
  have init: "EnvStorage_init J c w =
    bnd (RawEnvStorage_allocate J) (\<lambda>p. bnd (RawEnvStorage_from_conf J c) (commit J p)) ?w"
    using vacant by (simp add: init_eq)
  show thesis
  proof (rule raw_allocate_cases [OF laws, of ?w], goal_cases fault fresh)
    case (fault e k h)
    with init empty show thesis
      by (intro that(1) [of e "w\<lparr>jvm := k, heap := h\<rparr>"]) (simp_all add: heap_grown_def)
  next
    case (fresh p block j')
    let ?u = "?w\<lparr>jvm := j', heap := (heap ?w)(p \<mapsto> block)\<rparr>"
    have p: "p \<noteq> 0" "heap w p = None" "length block = size_of_raw" using fresh by simp_all
    have run: "EnvStorage_init J c w = bnd (RawEnvStorage_from_conf J c) (commit J p) ?u"
      using init fresh(4) by simp
    have up: "heap w \<subseteq>\<^sub>m (heap w)(p \<mapsto> block)" using p(2) by (auto simp: map_le_def)
    show thesis
    proof (rule from_conf_cases [OF laws c, of ?u], goal_cases fault bare path)
      case (fault e k)
      then show thesis using run empty up
        by (intro that(1) [of e "?u\<lparr>jvm := k\<rparr>"]) (simp_all add: call_storage_fault heap_grown_def)
    next
      case bare
      then have x: "exec_stored (?u\<lparr>env_local := p\<rparr>) (phasicj_exec c) 0 0" by (simp add: exec_stored_def)
      have "grown_by (footprint c) (heap w) ((heap w)(p \<mapsto> raw_bytes (raw_for c 0 0)))"
        using grown_by_fresh [of 0 "heap w" "heap w" p, OF grown_by_refl p(2), of "raw_bytes (raw_for c 0 0)"] bare(1)
        by (simp add: footprint_def size_of_raw_def)
      then show thesis
        by - (rule commit_cases [OF laws _ empty up p(1,2) _ p(3) x]; use run bare that in simp)
    next
      case (path s q n k)
      let ?h = "(heap w)(p \<mapsto> block, q \<mapsto> s)"
      have q: "q \<noteq> p" "heap w q = None" using path(3) by (auto split: if_splits)
      have x: "exec_stored (w\<lparr>jvm := k, heap := ?h, env_local := p\<rparr>) (phasicj_exec c) q n"
        using path(1,2,4) q(1) c by (simp add: exec_stored_def storable_def)
      let ?new = "(heap w)(q \<mapsto> s, p \<mapsto> raw_bytes (raw_for c q n))"
      have "grown_by (0 + length s + length (raw_bytes (raw_for c q n))) (heap w) ?new"
        by (intro grown_by_fresh grown_by_refl) (use p(2) q in auto)
      then have grown: "grown_by (footprint c) (heap w) ?new"
        using path(1) by (simp add: footprint_def size_of_raw_def add.commute)
      have same: "?h(p \<mapsto> raw_bytes (raw_for c q n)) = ?new" using q(1) by (auto simp: fun_eq_iff)
      have "heap w \<subseteq>\<^sub>m ?h" "?h p = Some block" using p(2) q by (auto simp: map_le_def)
      note ends = commit_cases [OF laws refl empty this(1) p(1,2) this(2) p(3) x]
      show thesis
      proof (rule ends, goal_cases fault stored)
        case (fault e u)
        with run path show thesis by (intro that(1) [of e u]) simp_all
      next
        case (stored u)
        have "heap u = ?new" using stored(4) same by (rule trans)
        then have "grown_by (footprint c) (heap w) (heap u)" using grown by simp
        moreover have "EnvStorage_init J c w = (Inr (), u)" using run path stored(1) by simp
        ultimately show thesis using stored(2,3) by (intro that(2) [of u])
      qed
    qed
  qed
qed

text \<open>
  \<open>free\<close> on a stored configuration: the pointer is cleared and the path's block released;
  the structure's own block stays allocated.
\<close>

lemma free_run:
  assumes "jvmti_laws J" and "heap w (env_local w) = Some (raw_bytes (raw_for c p n))" and "env_local w \<noteq> 0"
  obtains (fault) e j where "call_fault e" "EnvStorage_free J w = (Inl e, w\<lparr>jvm := j\<rparr>)"
  | (releases) j where "EnvStorage_free J w =
      seq (if p \<noteq> 0 then jvmti_deallocate J p else ret ()) (set_environment_local_storage J 0) (w\<lparr>jvm := j\<rparr>)"
proof (rule actsE [OF get_ptr_acts [OF assms(1)], of w], goal_cases fault returns)
  case (fault e j)
  then show thesis by (intro that(1)) (simp_all add: EnvStorage_free_def)
next
  case (returns j)
  with assms(2,3) show thesis
    by (intro that(2) [of j]) (simp add: EnvStorage_free_def prog_simps read_block_def size_of_raw_def raw_bytes_fields)
qed

lemma release_cases:
  assumes "jvmti_laws J" and "p \<noteq> 0 \<Longrightarrow> heap w p \<noteq> None"
  obtains (fault) e j where "call_fault e"
      "(if p \<noteq> 0 then jvmti_deallocate J p else ret ()) w = (Inl e, w\<lparr>jvm := j\<rparr>)"
  | (released) j where "(if p \<noteq> 0 then jvmti_deallocate J p else ret ()) w =
      (Inr (), w\<lparr>jvm := j, heap := (if p = 0 then heap w else (heap w)(p := None))\<rparr>)"
proof (cases "p = 0")
  case True
  then show thesis by (intro that(2) [of "jvm w"]) (simp add: ret_def)
next
  case False
  show thesis
  proof (rule actsE [OF deallocate_acts [OF assms(1), of p], of w, folded deallocate_owned [OF assms(2) [OF False]]],
      goal_cases fault returns)
    case (fault e j)
    with False show thesis by (intro that(1)) simp_all
  next
    case (returns j)
    with False show thesis by (intro that(2) [of j]) simp
  qed
qed

lemma free_cases:
  assumes laws: "jvmti_laws J" and h: "holds_conf w c"
  obtains (fault) e w' where "call_fault e" "EnvStorage_free J w = (Inl e, w')"
      "env_local w' = env_local w"
  | (freed) w' where "EnvStorage_free J w = (Inr (), w')" "env_local w' = 0"
      "heap w' (env_local w) = heap w (env_local w)"
      "w' = w\<lparr>jvm := jvm w', heap := heap w', env_local := 0\<rparr>"
      "\<exists>p n. heap w (env_local w) = Some (raw_bytes (raw_for c p n)) \<and> exec_stored w (phasicj_exec c) p n \<and>
         heap w' = (if p = 0 then heap w else (heap w)(p := None))"
proof -
  from h obtain p n where b: "heap w (env_local w) = Some (raw_bytes (raw_for c p n))"
    and x: "exec_stored w (phasicj_exec c) p n" and nz: "env_local w \<noteq> 0"
    by (auto simp: holds_conf_def)
  have distinct: "p \<noteq> 0 \<Longrightarrow> p \<noteq> env_local w"
    using x by (auto simp: exec_stored_def split: option.splits)
  show thesis
  proof (rule free_run [OF laws b nz], goal_cases fault releases)
    case (fault e j)
    then show thesis by (intro that(1) [of e "w\<lparr>jvm := j\<rparr>"]) simp_all
  next
    case free: (releases j)
    show thesis
    proof (rule release_cases [OF laws, of p "w\<lparr>jvm := j\<rparr>"], goal_cases owned fault released)
      case owned
      with x show ?case by (auto simp: exec_stored_def split: option.splits)
    next
      case (fault e k)
      with free show thesis by (intro that(1) [of e "w\<lparr>jvm := k\<rparr>"]) simp_all
    next
      case rel: (released k)
      define h where "h = (if p = 0 then heap w else (heap w)(p := None))"
      have run: "EnvStorage_free J w = set_environment_local_storage J 0 (w\<lparr>jvm := k, heap := h\<rparr>)"
        using free rel by (simp add: h_def)
      have kept: "h (env_local w) = heap w (env_local w)" using distinct by (auto simp: h_def)
      show thesis
      proof (rule set_env_local_cases [OF laws, of 0 "w\<lparr>jvm := k, heap := h\<rparr>"], goal_cases fault wrote)
        case (fault e l)
        with run show thesis by (intro that(1) [of e "w\<lparr>jvm := l, heap := h\<rparr>"]) simp_all
      next
        case (wrote l)
        with run kept b x show thesis
          by (intro that(2) [of "w\<lparr>jvm := l, heap := h, env_local := 0\<rparr>"]) (auto simp: h_def)
      qed
    qed
  qed
qed

section \<open>The storage as an optional cell\<close>

text \<open>
  The contract: the storage is a cell that is empty or holds a configuration. Storing into
  a full cell and releasing an empty one are refused with their panics.
\<close>

datatype cell_op = Init PjAgentConf | Of | Free

definition env_step :: "'j jvmti_table \<times> cell_op \<Rightarrow> ('j world, EnvStorage option) prog" where
  "env_step x = (case x of (J, op) \<Rightarrow>
     case op of
       Init c \<Rightarrow> seq (EnvStorage_init J c) (ret None)
     | Of \<Rightarrow> EnvStorage_of J
     | Free \<Rightarrow> seq (EnvStorage_free J) (ret None))"

definition cell_step :: "'j jvmti_table \<times> cell_op \<Rightarrow> (PjAgentConf option, EnvStorage option) prog" where
  "cell_step x = (\<lambda>cell.
     case snd x of
       Init c \<Rightarrow>
         if cell = None then (Inr None, Some c) else (Inl (Panicked StorageAlreadyInitialized), cell)
     | Of \<Rightarrow> (Inr (map_option (\<lambda>c. \<lparr>conf = c\<rparr>) cell), cell)
     | Free \<Rightarrow>
         if cell = None then (Inl (Panicked StorageNotInitialized), cell) else (Inr None, None))"

definition cell_rel :: "'j world \<Rightarrow> PjAgentConf option \<Rightarrow> bool" where
  "cell_rel w cell \<longleftrightarrow> (case cell of None \<Rightarrow> env_local w = 0 | Some c \<Rightarrow> holds_conf w c)"

definition cell_legal :: "'j jvmti_table \<times> cell_op \<Rightarrow> bool" where
  "cell_legal x \<longleftrightarrow> jvmti_laws (fst x) \<and> (\<forall>c. snd x = Init c \<longrightarrow> storable c)"

lemma init_full:
  assumes "jvmti_laws J" and "holds_conf w c" and "EnvStorage_init J d w = (r, w')"
  shows "(\<exists>e. r = Inl e \<and> storage_fault e) \<or>
    r = Inl (Panicked StorageAlreadyInitialized) \<and> holds_conf w' c"
proof (rule of_cases [OF assms(1), of w], goal_cases fault vacant there)
  case (fault e j)
  with assms(3) show ?thesis by (auto simp: EnvStorage_init_def call_storage_fault)
next
  case (vacant j)
  with assms(2) show ?thesis by (simp add: holds_conf_def)
next
  case (there j)
  with assms show ?thesis by (auto simp: EnvStorage_init_def prog_simps)
qed

lemma free_empty:
  assumes "jvmti_laws J" and "env_local w = 0" and "EnvStorage_free J w = (r, w')"
  shows "(\<exists>e. r = Inl e \<and> storage_fault e) \<or>
    r = Inl (Panicked StorageNotInitialized) \<and> env_local w' = 0"
proof (rule actsE [OF get_ptr_acts [OF assms(1)], of w], goal_cases fault returns)
  case (fault e j)
  with assms(3) show ?thesis by (auto simp: EnvStorage_free_def call_storage_fault)
next
  case (returns j)
  with assms(2,3) show ?thesis by (auto simp: EnvStorage_free_def prog_simps)
qed

text \<open>Each operation on either state of the cell.\<close>

lemma init_simulates:
  assumes "cell_rel w cell" and "jvmti_laws J" and "storable c" and "env_step (J, Init c) w = (r, w')"
  shows "(\<exists>e. r = Inl e \<and> storage_fault e) \<or>
    (\<exists>d. cell_step (J, Init c) cell = (r, d) \<and> cell_rel w' d)"
proof -
  obtain q u where q: "EnvStorage_init J c w = (q, u)" by fastforce
  show ?thesis
  proof (cases cell)
    case None
    with assms(1) have "env_local w = 0" by (simp add: cell_rel_def)
    from init_cases [OF assms(2) this assms(3)] show ?thesis
      by (rule; insert assms(4) q None)
         (auto simp: env_step_def cell_step_def cell_rel_def prog_simps)
  next
    case (Some d)
    with assms(1) have "holds_conf w d" by (simp add: cell_rel_def)
    from init_full [OF assms(2) this q] assms(4) q Some show ?thesis
      by (auto simp: env_step_def cell_step_def cell_rel_def)
  qed
qed

lemma of_simulates:
  assumes "cell_rel w cell" and "jvmti_laws J" and "env_step (J, Of) w = (r, w')"
  shows "(\<exists>e. r = Inl e \<and> storage_fault e) \<or>
    (\<exists>d. cell_step (J, Of) cell = (r, d) \<and> cell_rel w' d)"
proof (rule of_cases [OF assms(2), of w], goal_cases fault vacant there)
  case (fault e j)
  with assms(3) show ?thesis by (auto simp: env_step_def call_storage_fault)
next
  case (vacant j)
  with assms show ?thesis
    by (cases cell) (auto simp: env_step_def cell_step_def cell_rel_def holds_conf_def)
next
  case (there j)
  with assms show ?thesis
    by (cases cell) (auto simp: env_step_def cell_step_def cell_rel_def)
qed

lemma free_simulates:
  assumes "cell_rel w cell" and "jvmti_laws J" and "env_step (J, Free) w = (r, w')"
  shows "(\<exists>e. r = Inl e \<and> storage_fault e) \<or>
    (\<exists>d. cell_step (J, Free) cell = (r, d) \<and> cell_rel w' d)"
proof -
  obtain q u where q: "EnvStorage_free J w = (q, u)" by fastforce
  show ?thesis
  proof (cases cell)
    case None
    with assms(1) have "env_local w = 0" by (simp add: cell_rel_def)
    from free_empty [OF assms(2) this q] assms(3) q None show ?thesis
      by (auto simp: env_step_def cell_step_def cell_rel_def)
  next
    case (Some d)
    with assms(1) have "holds_conf w d" by (simp add: cell_rel_def)
    from free_cases [OF assms(2) this] show ?thesis
      by (rule; insert assms(3) q Some)
         (auto simp: env_step_def cell_step_def cell_rel_def prog_simps call_storage_fault)
  qed
qed

lemma env_step_simulates:
  assumes "cell_rel w cell" and "cell_legal x" and "env_step x w = (r, w')"
  shows "(\<exists>e. r = Inl e \<and> storage_fault e) \<or> (\<exists>d. cell_step x cell = (r, d) \<and> cell_rel w' d)"
proof -
  obtain J op where x: "x = (J, op)" by (cases x)
  with assms(2) have "jvmti_laws J" "\<And>c. op = Init c \<Longrightarrow> storable c" by (simp_all add: cell_legal_def)
  with assms(1,3) x show ?thesis
    by (cases op) (auto dest: init_simulates of_simulates free_simulates)
qed

interpretation env: implements env_step cell_step cell_rel storage_fault cell_legal
proof
  show "\<not> storage_fault e" if "cell_step x a = (Inl e, b)" for x a e b
    using that by (cases "snd x") (auto simp: cell_step_def split: if_splits)
qed (rule env_step_simulates)

section \<open>Progress\<close>

lemma get_ptr_progress:
  assumes "jvmti_laws J" and "jvmti_obliging J H" and "H n w"
  obtains j where "RawEnvStorage_get_ptr J w =
      (Inr (if env_local w = 0 then None else Some (env_local w)), w\<lparr>jvm := j\<rparr>)" "H n (w\<lparr>jvm := j\<rparr>)"
proof (rule acts_succeeds [OF get_env_local_acts [OF assms(1)] get_env_local_succeeds [OF assms(2)] assms(3)])
  fix j assume "get_environment_local_storage J w = (Inr (Some (env_local w)), (id w)\<lparr>jvm := j\<rparr>)"
    "H n ((id w)\<lparr>jvm := j\<rparr>)"
  then show thesis by (intro that [of j]) (simp_all add: RawEnvStorage_get_ptr_def prog_simps)
qed

lemma allocate_progress:
  assumes "jvmti_laws J" and "jvmti_obliging J H" and "H (Suc n) w" and "0 < sz" and "sz \<le> max_block"
  obtains p block j where "p \<noteq> 0" "heap w p = None" "length block = sz" "unat p mod 16 = 0"
    "allocate J sz w = (Inr p, w\<lparr>jvm := j, heap := (heap w)(p \<mapsto> block)\<rparr>)"
    "H n (w\<lparr>jvm := j, heap := (heap w)(p \<mapsto> block)\<rparr>)"
proof -
  have "sz < 2 ^ 63" using assms(5) by (simp add: max_block_def)
  then have sz: "unat (of_nat sz :: 64 word) = sz" unfolding unat_of_nat by (intro mod_less) simp
  then have pos: "0 < (of_nat sz :: 64 word)" using assms(4) by (metis unsigned_0 word_gt_0 less_irrefl)
  show thesis
  proof (rule jvmti_allocate_succeeds [OF assms(1-3) pos])
    show "unat (of_nat sz :: 64 word) \<le> max_block" using sz assms(5) by simp
  next
    fix p block j assume "p \<noteq> 0" "heap w p = None" "length block = unat (of_nat sz :: 64 word)"
      "unat p mod 16 = 0"
      "jvmti_allocate J (of_nat sz) w = (Inr (Some p), w\<lparr>jvm := j, heap := (heap w)(p \<mapsto> block)\<rparr>)"
      "H n (w\<lparr>jvm := j, heap := (heap w)(p \<mapsto> block)\<rparr>)"
    then show thesis
      using that [of p block j] sz assms(4) \<open>sz < 2 ^ 63\<close> by (simp add: allocate_def prog_simps)
  qed
qed

lemma raw_allocate_progress:
  assumes "jvmti_laws J" and "jvmti_obliging J H" and "H (Suc n) w"
  obtains p block j where "p \<noteq> 0" "heap w p = None" "length block = size_of_raw"
    "RawEnvStorage_allocate J w = (Inr p, w\<lparr>jvm := j, heap := (heap w)(p \<mapsto> block)\<rparr>)"
    "H n (w\<lparr>jvm := j, heap := (heap w)(p \<mapsto> block)\<rparr>)"
proof -
  have sz: "0 < size_of_raw" "size_of_raw \<le> max_block" by (simp_all add: size_of_raw_def max_block_def)
  show thesis
  proof (rule allocate_progress [OF assms sz])
    fix p block j assume a: "p \<noteq> 0" "heap w p = None" "length block = size_of_raw" "unat p mod 16 = 0"
      "allocate J size_of_raw w = (Inr p, w\<lparr>jvm := j, heap := (heap w)(p \<mapsto> block)\<rparr>)"
      "H n (w\<lparr>jvm := j, heap := (heap w)(p \<mapsto> block)\<rparr>)"
    have "unat p mod 8 = 0" using a(4) by presburger
    with a show thesis
      by (intro that [of p block j])
         (simp_all add: RawEnvStorage_allocate_def allocate_type_def prog_simps
            is_jvmti_allocation_aligned_def align_of_raw_def)
  qed
qed

definition exec_fits :: "PjAgentConf \<Rightarrow> bool" where
  "exec_fits c \<longleftrightarrow> (\<forall>s. phasicj_exec c = Some s \<longrightarrow> length s \<le> max_block)"

lemma from_conf_progress:
  assumes "jvmti_laws J" and "jvmti_obliging J H" and "H (Suc n) w" and "storable c" and "exec_fits c"
  obtains raw k h where "RawEnvStorage_from_conf J c w = (Inr raw, w\<lparr>jvm := k, heap := h\<rparr>)"
    "heap w \<subseteq>\<^sub>m h" "H n (w\<lparr>jvm := k, heap := h\<rparr>)"
proof (cases "phasicj_exec c")
  case None
  then show thesis
    using obliging_Suc [of J H n w, OF assms(2,3)]
    by (intro that [of _ "heap w" "jvm w"]) (simp_all add: RawEnvStorage_from_conf_def prog_simps)
next
  case (Some s)
  with assms(4,5) have len: "0 < length s" "length s \<le> max_block"
    by (auto simp: storable_def exec_fits_def)
  show thesis
  proof (rule allocate_progress [OF assms(1-3) len])
    fix p block j assume a: "p \<noteq> 0" "heap w p = None" "length block = length s"
      "allocate J (length s) w = (Inr p, w\<lparr>jvm := j, heap := (heap w)(p \<mapsto> block)\<rparr>)"
      "H n (w\<lparr>jvm := j, heap := (heap w)(p \<mapsto> block)\<rparr>)"
    have "H n (w\<lparr>jvm := j, heap := (heap w)(p \<mapsto> s)\<rparr>)"
      by (rule obliging_stable [OF assms(2) a(5)]) auto
    with a Some show thesis
      by (intro that [of _ "(heap w)(p \<mapsto> s)" j])
         (simp_all add: RawEnvStorage_from_conf_def prog_simps write_block_run map_le_def dom_def)
  qed
qed

lemma of_progress:
  assumes "jvmti_laws J" and "jvmti_obliging J H" and "H n w" and "holds_conf w c"
  obtains j where "EnvStorage_of J w = (Inr (Some \<lparr>conf = c\<rparr>), w\<lparr>jvm := j\<rparr>)" "H n (w\<lparr>jvm := j\<rparr>)"
proof (rule get_ptr_progress [OF assms(1-3)])
  fix j assume "RawEnvStorage_get_ptr J w =
      (Inr (if env_local w = 0 then None else Some (env_local w)), w\<lparr>jvm := j\<rparr>)" "H n (w\<lparr>jvm := j\<rparr>)"
  moreover have "to_env_storage (env_local w) (w\<lparr>jvm := j\<rparr>) = (Inr \<lparr>conf = c\<rparr>, w\<lparr>jvm := j\<rparr>)"
    using to_env_storage_holds [of "w\<lparr>jvm := j\<rparr>" c] assms(4) by simp
  moreover have "env_local w \<noteq> 0" using assms(4) by (simp add: holds_conf_def)
  ultimately show thesis by (intro that [of j]) (simp_all add: EnvStorage_of_def prog_simps)
qed

lemma init_progress:
  assumes "jvmti_laws J" and "jvmti_obliging J H" and "H (Suc (Suc n)) w" and "env_local w = 0"
    and "storable c" and "exec_fits c"
  obtains w' where "EnvStorage_init J c w = (Inr (), w')" "holds_conf w' c" "heap_grown w w'" "H n w'"
proof -
  obtain j where j: "EnvStorage_of J w = (Inr None, w\<lparr>jvm := j\<rparr>)" "H (Suc (Suc n)) (w\<lparr>jvm := j\<rparr>)"
    by (rule get_ptr_progress [OF assms(1-3)])
       (use assms(4) in \<open>simp add: EnvStorage_of_def prog_simps\<close>)
  obtain p block k where k: "p \<noteq> 0" "length block = size_of_raw"
    "RawEnvStorage_allocate J (w\<lparr>jvm := j\<rparr>) = (Inr p, w\<lparr>jvm := k, heap := (heap w)(p \<mapsto> block)\<rparr>)"
    "H (Suc n) (w\<lparr>jvm := k, heap := (heap w)(p \<mapsto> block)\<rparr>)"
    by (rule raw_allocate_progress [OF assms(1,2) j(2)]) simp
  let ?u = "w\<lparr>jvm := k, heap := (heap w)(p \<mapsto> block)\<rparr>"
  obtain raw l h where l: "RawEnvStorage_from_conf J c ?u = (Inr raw, ?u\<lparr>jvm := l, heap := h\<rparr>)"
    "heap ?u \<subseteq>\<^sub>m h" "H n (?u\<lparr>jvm := l, heap := h\<rparr>)"
    by (rule from_conf_progress [OF assms(1,2) k(4) assms(5,6)])
  let ?v = "?u\<lparr>jvm := l, heap := h(p \<mapsto> raw_bytes raw)\<rparr>"
  have hp: "h p = Some block" using l(2) by (auto simp: map_le_def)
  then have wr: "write_block p (raw_bytes raw) (?u\<lparr>jvm := l, heap := h\<rparr>) = (Inr (), ?v)"
    using k(2) by (simp add: write_block_run size_of_raw_def)
  have "H n ?v" by (rule obliging_stable [OF assms(2) l(3)]) (use hp in auto)
  then obtain m where m: "set_environment_local_storage J p ?v = (Inr (), ?v\<lparr>env_local := p, jvm := m\<rparr>)"
    "H n (?v\<lparr>env_local := p, jvm := m\<rparr>)"
    by (rule acts_succeeds [OF set_env_local_acts [OF assms(1)] set_env_local_succeeds [OF assms(2)]])
  have run: "EnvStorage_init J c w = (Inr (), ?v\<lparr>env_local := p, jvm := m\<rparr>)"
    using j(1) k(3) l(1) wr m(1) by (simp add: EnvStorage_init_def)
  show thesis
  proof (rule init_cases [OF assms(1,4,5)], goal_cases fault stored)
    case (fault e w')
    with run show thesis by simp
  next
    case (stored w')
    with run have "w' = ?v\<lparr>env_local := p, jvm := m\<rparr>" by simp
    with stored m(2) show thesis by (intro that [of w']) simp_all
  qed
qed

lemma free_progress:
  assumes "jvmti_laws J" and "jvmti_obliging J H" and "H n w" and "holds_conf w c"
  obtains w' where "EnvStorage_free J w = (Inr (), w')" "H n w'"
proof -
  from assms(4) obtain p m where b: "heap w (env_local w) = Some (raw_bytes (raw_for c p m))"
    and x: "exec_stored w (phasicj_exec c) p m" and nz: "env_local w \<noteq> 0"
    by (auto simp: holds_conf_def)
  obtain j where j: "RawEnvStorage_get_ptr J w = (Inr (Some (env_local w)), w\<lparr>jvm := j\<rparr>)" "H n (w\<lparr>jvm := j\<rparr>)"
    by (rule get_ptr_progress [OF assms(1-3)]) (use nz in simp)
  let ?w = "w\<lparr>jvm := j\<rparr>"
  have free: "EnvStorage_free J w =
      seq (if p \<noteq> 0 then jvmti_deallocate J p else ret ()) (set_environment_local_storage J 0) ?w"
    using j b by (simp add: EnvStorage_free_def prog_simps read_block_def size_of_raw_def raw_bytes_fields)
  have "\<exists>u. (if p \<noteq> 0 then jvmti_deallocate J p else ret ()) ?w = (Inr (), u) \<and> H n u"
  proof (cases "p = 0")
    case True
    with j(2) show ?thesis by (simp add: ret_def)
  next
    case False
    with x have "heap ?w p \<noteq> None" by (auto simp: exec_stored_def split: option.splits)
    show ?thesis
      by (rule jvmti_deallocate_succeeds [OF assms(1,2) j(2) \<open>heap ?w p \<noteq> None\<close>]) (use False in simp)
  qed
  then obtain u where u: "(if p \<noteq> 0 then jvmti_deallocate J p else ret ()) ?w = (Inr (), u)" "H n u" by blast
  obtain k where k: "set_environment_local_storage J 0 u = (Inr (), u\<lparr>env_local := 0, jvm := k\<rparr>)"
    "H n (u\<lparr>env_local := 0, jvm := k\<rparr>)"
    by (rule acts_succeeds [OF set_env_local_acts [OF assms(1)] set_env_local_succeeds [OF assms(2)] u(2)])
  have "EnvStorage_free J w = (Inr (), u\<lparr>env_local := 0, jvm := k\<rparr>)"
    unfolding free by (cases "p = 0") (use u(1) k(1) in \<open>simp_all add: ret_def bnd_def\<close>)
  then show thesis using k(2) by (rule that)
qed

text \<open>A world with a configuration stored, for the examples.\<close>

definition sample_conf :: PjAgentConf where
  "sample_conf = \<lparr>verbose = True, phasicj_exec = Some ''/opt/pj'',
     debug_dump_classes_before_instr = False, debug_dump_classes_after_instr = False\<rparr>"

definition sample_world :: "nat world" where
  "sample_world =
     \<lparr>jvm = 0, heap = Map.empty, env_local = 0, thread_local = (\<lambda>_. 0), jvmti_phase = JVMTI_PHASE_ONLOAD,
      potential = \<lparr>can_generate_all_class_hook_events = 1, can_generate_early_class_hook_events = 1,
        other_capabilities = 0\<rparr>,
      capabilities = \<lparr>can_generate_all_class_hook_events = 0, can_generate_early_class_hook_events = 0,
        other_capabilities = 0\<rparr>,
      callbacks = default_callbacks, enabled = [], boot_search = [], jni_calls = [],
      files = \<lparr>nodes = Map.empty, plan = []\<rparr>, recorder_state = initial_recorder, logger_set = False\<rparr>"

lemma sample_facts [simp]:
  "storable sample_conf" "exec_fits sample_conf" "env_local sample_world = 0"
  "reference_healthy n sample_world \<longleftrightarrow> n \<le> 2 ^ 31"
  by (auto simp: storable_def sample_conf_def exec_fits_def max_block_def sample_world_def
      reference_healthy_def utf8_valid_def ascii_char_def byte_in_def)

definition stored_world :: "nat world" where
  "stored_world = snd (EnvStorage_init reference_jvmti sample_conf sample_world)"

lemma stored_world:
  "EnvStorage_init reference_jvmti sample_conf sample_world = (Inr (), stored_world)"
  "holds_conf stored_world sample_conf" "reference_healthy 5 stored_world"
  "heap_grown sample_world stored_world"
proof -
  have "reference_healthy (Suc (Suc 5)) sample_world" by simp
  from init_progress [OF reference_laws reference_obliging this sample_facts(3,1,2)] obtain u where
    "EnvStorage_init reference_jvmti sample_conf sample_world = (Inr (), u)"
    "holds_conf u sample_conf" "heap_grown sample_world u" "reference_healthy 5 u" by metis
  then show "EnvStorage_init reference_jvmti sample_conf sample_world = (Inr (), stored_world)"
    "holds_conf stored_world sample_conf" "reference_healthy 5 stored_world"
    "heap_grown sample_world stored_world"
    by (simp_all add: stored_world_def)
qed

section \<open>Properties\<close>

text \<open>
  C5. The environment-local storage is a cell for one configuration: any sequence of
  \<open>init\<close>, \<open>of\<close> and \<open>free\<close> has, outcome by outcome, what a cell gives, second \<open>init\<close>s and
  \<open>free\<close>s refused with their panics, until a JVMTI call fails; no raw pointer access is
  ever undefined behaviour.
\<close>

theorem env_storage_refines_cell:
  assumes "env_local w = 0" and "\<forall>x\<in>set ops. cell_legal x"
    and "run_ops storage_fault env_step ops w = (rs, w')"
    and "run_ops storage_fault cell_step ops None = (qs, cell)"
  shows "(rs = qs \<and> cell_rel w' cell) \<or>
    (\<exists>k e. k < length ops \<and> storage_fault e \<and> rs = take k qs @ [Inl e])"
  using env.runs_refine [OF _ assms(2-4)] assms(1) by (simp add: cell_rel_def)

text \<open>
  C17. On a JVM that obliges with memory for two blocks, a configuration stored by \<open>init\<close> is
  read back unchanged by \<open>of\<close>, any number of times over.
\<close>

theorem env_storage_roundtrip:
  assumes "jvmti_laws J" and "jvmti_obliging J H" and "H 2 w" and "env_local w = 0"
    and "storable c" and "exec_fits c"
  shows "\<exists>w'. EnvStorage_init J c w = (Inr (), w') \<and>
    fst (run_ops storage_fault env_step (replicate n (J, Of)) w') = replicate n (Inr (Some \<lparr>conf = c\<rparr>))"
proof -
  obtain w' where init: "EnvStorage_init J c w = (Inr (), w')" "holds_conf w' c" "H 0 w'"
    using init_progress [of J H 0 w c] assms by (auto simp: numeral_2_eq_2)
  have "fst (run_ops storage_fault env_step (replicate n (J, Of)) u) =
      replicate n (Inr (Some \<lparr>conf = c\<rparr>))" if "holds_conf u c" "H 0 u" for u
    using that
  proof (induction n arbitrary: u)
    case (Suc n)
    from of_progress [OF assms(1,2) Suc.prems(2,1)] obtain j where
      "EnvStorage_of J u = (Inr (Some \<lparr>conf = c\<rparr>), u\<lparr>jvm := j\<rparr>)" "H 0 (u\<lparr>jvm := j\<rparr>)" by metis
    with Suc.IH [of "u\<lparr>jvm := j\<rparr>"] Suc.prems(1) show ?case
      by (simp add: env_step_def case_prod_unfold)
  qed simp
  with init show ?thesis by blast
qed

theorem env_storage_roundtrip_witness:
  "\<exists>w'. EnvStorage_init reference_jvmti sample_conf sample_world = (Inr (), w') \<and>
    fst (run_ops storage_fault env_step (replicate 2 (reference_jvmti, Of)) w') =
      replicate 2 (Inr (Some \<lparr>conf = sample_conf\<rparr>))"
  by (rule env_storage_roundtrip [OF reference_laws reference_obliging])
     simp_all

theorem env_storage_refines_cell_witness:
  "\<exists>rs w'. run_ops storage_fault env_step [(reference_jvmti, Of), (reference_jvmti, Free)] sample_world = (rs, w') \<and>
    (rs = [Inr None, Inl (Panicked StorageNotInitialized)] \<and> env_local w' = 0 \<or>
     (\<exists>k e. k < 2 \<and> storage_fault e \<and>
        rs = take k [Inr None, Inl (Panicked StorageNotInitialized)] @ [Inl e]))"
proof -
  let ?ops = "[(reference_jvmti, Of), (reference_jvmti, Free)]"
  obtain rs w' where run: "run_ops storage_fault env_step ?ops sample_world = (rs, w')" by fastforce
  have "run_ops storage_fault cell_step ?ops None =
      ([Inr None, Inl (Panicked StorageNotInitialized)], None)"
    by (simp add: cell_step_def)
  note this' = env_storage_refines_cell [OF _ _ run this]
  have "\<forall>x\<in>set ?ops. cell_legal x" by (simp add: cell_legal_def reference_laws)
  with this' have "rs = [Inr None, Inl (Panicked StorageNotInitialized)] \<and> env_local w' = 0 \<or>
     (\<exists>k e. k < 2 \<and> storage_fault e \<and>
        rs = take k [Inr None, Inl (Panicked StorageNotInitialized)] @ [Inl e])"
    by (simp add: cell_rel_def numeral_2_eq_2)
  with run show ?thesis by blast
qed

text \<open>
  C37. \<open>free\<close> gives back only the block of the path: when it returns, the storage is empty
  and the path's block is gone, but the block of the structure is still allocated and no
  pointer leads to it.
\<close>

theorem env_storage_free_leaks:
  assumes "jvmti_laws J" and "holds_conf w c" and "EnvStorage_free J w = (Inr (), w')"
  shows "env_local w' = 0 \<and> heap w' (env_local w) = heap w (env_local w) \<and> heap w (env_local w) \<noteq> None \<and>
    (\<forall>s. phasicj_exec c = Some s \<longrightarrow> (\<exists>p. heap w p = Some s \<and> dom (heap w') = dom (heap w) - {p}))"
proof -
  have b: "heap w (env_local w) \<noteq> None" using assms(2) by (auto simp: holds_conf_def)
  obtain p n where w': "env_local w' = 0" "heap w' (env_local w) = heap w (env_local w)"
    and x: "exec_stored w (phasicj_exec c) p n" "heap w' = (if p = 0 then heap w else (heap w)(p := None))"
    by (rule free_cases [OF assms(1,2)]) (use assms(3) in auto)
  have "\<exists>p. heap w p = Some s \<and> dom (heap w') = dom (heap w) - {p}" if "phasicj_exec c = Some s" for s
    using x that by (intro exI [of _ p]) (auto simp: exec_stored_def)
  with w' b show ?thesis by blast
qed

theorem env_storage_free_leaks_witness:
  "\<exists>w'. EnvStorage_free reference_jvmti stored_world = (Inr (), w') \<and> env_local w' = 0 \<and>
    heap w' (env_local stored_world) \<noteq> None"
proof -
  obtain w' where "EnvStorage_free reference_jvmti stored_world = (Inr (), w')"
    by (rule free_progress [OF reference_laws reference_obliging stored_world(3,2)])
  with env_storage_free_leaks [OF reference_laws stored_world(2) this] show ?thesis by auto
qed

end
