(* ===== verification/JniEnv.thy ===== *)
theory JniEnv
  imports JvmtiEnv
begin

text \<open>
  The JNI wrappers, \<^verbatim>\<open>phasicj/agent/jvm/jni_env.rs\<close>. The table is an argument, as for
  JVMTI; JNI reports a class or a method that is not there by a null result.
\<close>

definition find_class :: "'j jni_table \<Rightarrow> byte list \<Rightarrow> ('j world, jclass) prog" where
  "find_class env name =
     bnd (expect UnwrapNone (FindClass env)) (\<lambda>f.
     bnd (foreign (f name)) (\<lambda>cls.
     if cls = 0 then panic BarePanic else ret cls))"

text \<open>The null check of the source tests the class, not the method.\<close>

definition get_static_method_id ::
  "'j jni_table \<Rightarrow> jclass \<Rightarrow> byte list \<Rightarrow> byte list \<Rightarrow> ('j world, jmethodID) prog" where
  "get_static_method_id env cls name sig =
     bnd (expect UnwrapNone (GetStaticMethodID env)) (\<lambda>f.
     bnd (foreign (f cls name sig)) (\<lambda>method_id.
     if cls = 0 then panic BarePanic else ret method_id))"

text \<open>JNI leaves a call with a null class or a null method undefined.\<close>

definition call_static_void_method ::
  "'j jni_table \<Rightarrow> jclass \<Rightarrow> jmethodID \<Rightarrow> ('j world, unit) prog" where
  "call_static_void_method env cls method_id =
     bnd (expect UnwrapNone (CallStaticVoidMethod env)) (\<lambda>f.
     if cls = 0 \<or> method_id = 0 then throw (Undefined NullCall)
     else foreign (f cls method_id))"

text \<open>The check of this file, which nothing calls.\<close>

definition jni_env_check :: "32 word \<Rightarrow> ('w, unit) prog" where
  "jni_env_check err = (if err \<noteq> JNI_OK then panic BarePanic else ret ())"

text \<open>
  The laws: the look-ups change nothing but the JVM's own state, a call is recorded with its
  class and method.
\<close>

definition jni_laws :: "'j jni_table \<Rightarrow> bool" where
  "jni_laws N \<longleftrightarrow>
     entry_law (FindClass N) (\<lambda>f. \<forall>name w. \<exists>cls j. f name w = (cls, w\<lparr>jvm := j\<rparr>)) \<and>
     entry_law (GetStaticMethodID N) (\<lambda>f. \<forall>cls name sig w. \<exists>m j. f cls name sig w = (m, w\<lparr>jvm := j\<rparr>)) \<and>
     entry_law (CallStaticVoidMethod N) (\<lambda>f. \<forall>cls m w. \<exists>j.
       f cls m w = ((), w\<lparr>jvm := j, jni_calls := jni_calls w @ [(cls, m)]\<rparr>))"

text \<open>A table that has its entries and knows some classes and methods.\<close>

definition jni_provides ::
  "'j jni_table \<Rightarrow> (byte list \<Rightarrow> jclass) \<Rightarrow> (jclass \<Rightarrow> byte list \<Rightarrow> byte list \<Rightarrow> jmethodID) \<Rightarrow> bool" where
  "jni_provides N cls_of meth_of \<longleftrightarrow>
     entry_obliging (FindClass N) (\<lambda>f. \<forall>name w. fst (f name w) = cls_of name) \<and>
     entry_obliging (GetStaticMethodID N)
       (\<lambda>f. \<forall>cls name sig w. cls \<noteq> 0 \<longrightarrow> fst (f cls name sig w) = meth_of cls name sig) \<and>
     entry_obliging (CallStaticVoidMethod N) (\<lambda>_. True)"

text \<open>A table that has no identifier for the method the agent calls.\<close>

definition method_missing :: "'j jni_table \<Rightarrow> bool" where
  "method_missing N \<longleftrightarrow> (\<exists>f cls w. GetStaticMethodID N = Some f \<and> cls \<noteq> 0 \<and>
     fst (f cls ''phasicj$agent$rt$enableInstrumentation'' ''()V'' w) = 0)"

definition reference_jni :: "(byte list \<Rightarrow> jclass) \<Rightarrow> (jclass \<Rightarrow> byte list \<Rightarrow> byte list \<Rightarrow> jmethodID) \<Rightarrow> nat jni_table" where
  "reference_jni cls_of meth_of =
     \<lparr>FindClass = Some (\<lambda>name w. (cls_of name, w)),
      GetStaticMethodID = Some (\<lambda>cls name sig w. (meth_of cls name sig, w)),
      CallStaticVoidMethod = Some (\<lambda>cls m w. ((), w\<lparr>jni_calls := jni_calls w @ [(cls, m)]\<rparr>))\<rparr>"

lemma reference_jni_laws: "jni_laws (reference_jni c m)"
  unfolding jni_laws_def
proof (intro conjI)
  show "entry_law (CallStaticVoidMethod (reference_jni c m)) (\<lambda>f. \<forall>cls m w. \<exists>j.
       f cls m w = ((), w\<lparr>jvm := j, jni_calls := jni_calls w @ [(cls, m)]\<rparr>))"
  proof (simp only: reference_jni_def jni_table.simps entry_law_Some, intro allI)
    fix cls m and w :: "nat world"
    show "\<exists>j. ((), w\<lparr>jni_calls := jni_calls w @ [(cls, m)]\<rparr>) =
      ((), w\<lparr>jvm := j, jni_calls := jni_calls w @ [(cls, m)]\<rparr>)"
      by (rule exI [of _ "jvm w"]) simp
  qed
qed (simp_all add: reference_jni_def)

lemma reference_jni_provides: "jni_provides (reference_jni c m) c m"
  by (simp add: jni_provides_def reference_jni_def entry_obliging_def)

lemma find_class_run:
  assumes "jni_laws N" and "jni_provides N cls_of meth_of"
  obtains j where "find_class N name w =
    ((if cls_of name = 0 then Inl (Panicked BarePanic) else Inr (cls_of name)), w\<lparr>jvm := j\<rparr>)"
proof -
  have "entry_obliging (FindClass N) (\<lambda>f. \<forall>name w. fst (f name w) = cls_of name)"
    using assms(2) by (simp only: jni_provides_def)
  from entry_obligingD [OF this] obtain f where f: "FindClass N = Some f"
    and fst: "\<forall>name w. fst (f name w) = cls_of name" by (elim exE conjE)
  have "entry_law (FindClass N) (\<lambda>f. \<forall>name w. \<exists>cls j. f name w = (cls, w\<lparr>jvm := j\<rparr>))"
    using assms(1) by (simp only: jni_laws_def)
  then have "\<exists>cls j. f name w = (cls, w\<lparr>jvm := j\<rparr>)" by (simp add: f)
  then obtain cls j where run: "f name w = (cls, w\<lparr>jvm := j\<rparr>)" by (elim exE)
  moreover have "cls = cls_of name" using fst run by (metis fst_conv)
  ultimately show thesis using f by (intro that [of j]) (simp add: find_class_def prog_simps foreign_def)
qed

lemma get_static_method_id_run:
  assumes "jni_laws N" and "jni_provides N cls_of meth_of" and "cls \<noteq> 0"
  obtains j where "get_static_method_id N cls name sig w = (Inr (meth_of cls name sig), w\<lparr>jvm := j\<rparr>)"
proof -
  have "entry_obliging (GetStaticMethodID N)
      (\<lambda>f. \<forall>cls name sig w. cls \<noteq> 0 \<longrightarrow> fst (f cls name sig w) = meth_of cls name sig)"
    using assms(2) by (simp only: jni_provides_def)
  from entry_obligingD [OF this] obtain f where f: "GetStaticMethodID N = Some f"
    and fst: "\<forall>cls name sig w. cls \<noteq> 0 \<longrightarrow> fst (f cls name sig w) = meth_of cls name sig"
    by (elim exE conjE)
  have "entry_law (GetStaticMethodID N)
      (\<lambda>f. \<forall>cls name sig w. \<exists>m j. f cls name sig w = (m, w\<lparr>jvm := j\<rparr>))"
    using assms(1) by (simp only: jni_laws_def)
  then have "\<exists>m j. f cls name sig w = (m, w\<lparr>jvm := j\<rparr>)" by (simp add: f)
  then obtain m j where run: "f cls name sig w = (m, w\<lparr>jvm := j\<rparr>)" by (elim exE)
  moreover have "m = meth_of cls name sig" using fst run assms(3) by (metis fst_conv)
  ultimately show thesis
    using f assms(3) by (intro that [of j]) (simp add: get_static_method_id_def prog_simps foreign_def)
qed

lemma call_static_void_method_run:
  assumes "jni_laws N" and "jni_provides N cls_of meth_of"
  obtains j where "call_static_void_method N cls m w =
    (if cls = 0 \<or> m = 0 then (Inl (Undefined NullCall), w)
     else (Inr (), w\<lparr>jvm := j, jni_calls := jni_calls w @ [(cls, m)]\<rparr>))"
proof -
  have "entry_obliging (CallStaticVoidMethod N) (\<lambda>_. True)"
    using assms(2) by (simp only: jni_provides_def)
  from entry_obligingD [OF this] obtain f where f: "CallStaticVoidMethod N = Some f"
    by (elim exE conjE)
  have "entry_law (CallStaticVoidMethod N) (\<lambda>f. \<forall>cls m w. \<exists>j.
       f cls m w = ((), w\<lparr>jvm := j, jni_calls := jni_calls w @ [(cls, m)]\<rparr>))"
    using assms(1) by (simp only: jni_laws_def)
  then have "\<exists>j. f cls m w = ((), w\<lparr>jvm := j, jni_calls := jni_calls w @ [(cls, m)]\<rparr>)" by (simp add: f)
  then obtain j where "f cls m w = ((), w\<lparr>jvm := j, jni_calls := jni_calls w @ [(cls, m)]\<rparr>)" by (elim exE)
  with f show thesis
    by (intro that [of j]) (simp add: call_static_void_method_def prog_simps foreign_def)
qed

end
