(* ===== verification/Instrumenter.thy ===== *)
theory Instrumenter
  imports Utf8
begin

text \<open>
  The instrumenter, \<^verbatim>\<open>phasicj/agent/instr/rust/lib.rs\<close>: it runs an external program as a
  child process, writes the class to its standard input and takes its standard output. How
  the operating system starts a program and how that program behaves is an argument.
\<close>

section \<open>Processes\<close>

record Output =
  status_success :: bool
  out_bytes :: "byte list"

text \<open>
  A started process: whether it takes the bytes written to it, and how it ends given all of
  them.
\<close>

record process =
  accepts :: "byte list \<Rightarrow> io_error + unit"
  ends :: "byte list \<Rightarrow> io_error + Output"

type_synonym os = "string \<Rightarrow> string list \<Rightarrow> io_error + process"

record Command =
  program :: string
  arguments :: "string list"
  stdin_piped :: bool
  stdout_piped :: bool

record Child =
  child_process :: process
  child_stdin :: bool
  child_stdout :: bool

definition Command_new :: "string \<Rightarrow> Command" where
  "Command_new p = \<lparr>program = p, arguments = [], stdin_piped = False, stdout_piped = False\<rparr>"

definition command_arg :: "string \<Rightarrow> Command \<Rightarrow> Command" where
  "command_arg a c = c\<lparr>arguments := arguments c @ [a]\<rparr>"

text \<open>The pipes that were asked for are there in the child; the others are not.\<close>

definition spawn :: "os \<Rightarrow> Command \<Rightarrow> io_error + Child" where
  "spawn os c =
     (case os (program c) (arguments c) of
        Inl e \<Rightarrow> Inl e
      | Inr p \<Rightarrow> Inr \<lparr>child_process = p, child_stdin = stdin_piped c, child_stdout = stdout_piped c\<rparr>)"

definition wait_with_output :: "Child \<Rightarrow> byte list \<Rightarrow> io_error + Output" where
  "wait_with_output child written =
     (case ends (child_process child) written of
        Inl e \<Rightarrow> Inl e
      | Inr out \<Rightarrow> Inr (if child_stdout child then out else out\<lparr>out_bytes := []\<rparr>))"

section \<open>The instrumenter\<close>

definition DEFAULT_PHASICJ_EXEC :: string where
  "DEFAULT_PHASICJ_EXEC = ''phasicj''"

record Instrumenter =
  instr_exec :: "string option"

definition using_system_path :: Instrumenter where
  "using_system_path = \<lparr>instr_exec = None\<rparr>"

definition wrap :: "string \<Rightarrow> Instrumenter" where
  "wrap exec = \<lparr>instr_exec = Some exec\<rparr>"

definition invoke_phasicj_agent_instrument_class ::
  "os \<Rightarrow> Instrumenter \<Rightarrow> byte list \<Rightarrow> ('w, io_error + Output) prog" where
  "invoke_phasicj_agent_instrument_class os self class_data =
     (let child = (case instr_exec self of
                     None \<Rightarrow> Command_new DEFAULT_PHASICJ_EXEC
                   | Some path \<Rightarrow> Command_new path);
          child = (command_arg ''instrument-class'' (command_arg ''agent'' child))
                    \<lparr>stdin_piped := True, stdout_piped := True\<rparr>
      in trying (ret (spawn os child)) (\<lambda>child.
         bnd (expect UnwrapNone (if child_stdin child then Some (child_process child) else None)) (\<lambda>child_in.
         trying (ret (accepts child_in class_data)) (\<lambda>_.
         ret (wait_with_output child class_data)))))"

definition instrument :: "os \<Rightarrow> Instrumenter \<Rightarrow> byte list \<Rightarrow> ('w, io_error + byte list) prog" where
  "instrument os self class_data =
     trying (invoke_phasicj_agent_instrument_class os self class_data) (\<lambda>output.
     if \<not> status_success output then ret (Inl Other)
     else ret (Inr (out_bytes output)))"

text \<open>What a run of the external program comes to.\<close>

definition exec_program :: "string option \<Rightarrow> string" where
  "exec_program exec = (case exec of None \<Rightarrow> ''phasicj'' | Some path \<Rightarrow> path)"

definition process_outcome :: "io_error + process \<Rightarrow> byte list \<Rightarrow> io_error + Output" where
  "process_outcome started d =
     (case started of
        Inl e \<Rightarrow> Inl e
      | Inr p \<Rightarrow> (case accepts p d of Inl e \<Rightarrow> Inl e | Inr _ \<Rightarrow> ends p d))"

definition exec_outcome :: "os \<Rightarrow> string option \<Rightarrow> byte list \<Rightarrow> io_error + byte list" where
  "exec_outcome os exec d =
     (case process_outcome (os (exec_program exec) [''agent'', ''instrument-class'']) d of
        Inl e \<Rightarrow> Inl e
      | Inr out \<Rightarrow> if status_success out then Inr (out_bytes out) else Inl Other)"

lemma invoke_run:
  "invoke_phasicj_agent_instrument_class os self d w =
     (Inr (process_outcome (os (exec_program (instr_exec self)) [''agent'', ''instrument-class'']) d), w)"
proof -
  let ?c = "(command_arg ''instrument-class'' (command_arg ''agent''
      (case instr_exec self of None \<Rightarrow> Command_new DEFAULT_PHASICJ_EXEC | Some path \<Rightarrow> Command_new path)))
      \<lparr>stdin_piped := True, stdout_piped := True\<rparr>"
  let ?started = "os (exec_program (instr_exec self)) [''agent'', ''instrument-class'']"
  have c: "program ?c = exec_program (instr_exec self)" "arguments ?c = [''agent'', ''instrument-class'']"
    "stdin_piped ?c" "stdout_piped ?c"
    by (cases "instr_exec self";
        simp add: exec_program_def Command_new_def command_arg_def DEFAULT_PHASICJ_EXEC_def)+
  have "spawn os ?c = (case ?started of Inl e \<Rightarrow> Inl e
      | Inr p \<Rightarrow> Inr \<lparr>child_process = p, child_stdin = True, child_stdout = True\<rparr>)"
    unfolding spawn_def c(1,2) using c(3,4) by (simp split: sum.split)
  then show ?thesis
    unfolding invoke_phasicj_agent_instrument_class_def Let_def process_outcome_def
    by (cases ?started; cases "accepts (projr ?started) d"; cases "ends (projr ?started) d")
       (simp_all add: prog_simps wait_with_output_def)
qed

text \<open>
  Instrumenting never panics and touches no state: it runs the configured program, or
  \<open>phasicj\<close> from the search path, with the two fixed arguments, and its result is the
  program's output if it started, took the class and ended with success, and otherwise an
  error.
\<close>

theorem instrument_outcome:
  "instrument os self d w = (Inr (exec_outcome os (instr_exec self) d), w)"
  by (simp add: instrument_def exec_outcome_def trying_def bnd_def invoke_run ret_def split: sum.split)

text \<open>The same for the two ways an instrumenter is made.\<close>

lemma instrument_made:
  "instrument os using_system_path d w = (Inr (exec_outcome os None d), w)"
  "instrument os (wrap path) d w = (Inr (exec_outcome os (Some path) d), w)"
  by (simp_all add: instrument_def exec_outcome_def trying_def bnd_def invoke_run ret_def
      using_system_path_def wrap_def split: sum.split)

end
