(* ===== verification/RtEmbed.thy ===== *)
theory RtEmbed
  imports FileSystem
begin

text \<open>
  The runtime jar carried inside the agent, \<^verbatim>\<open>phasicj/agent/rt/embed/lib.rs\<close>, and the
  native library of the experimental instrumenter, which is unpacked the same way,
  \<^verbatim>\<open>phasicj/agent/experimental/svm/rust/embed/lib.rs\<close>. The embedded bytes and their hash
  are build products (\<open>include_bytes!\<close>), the temporary directory is the environment's:
  they are arguments.
\<close>

definition rt_jar_default_temp_file_path :: "path \<Rightarrow> string \<Rightarrow> path" where
  "rt_jar_default_temp_file_path temp_dir rt_jar_sha1_hash =
     path_push
       (path_push
         (path_push temp_dir (components ''phasicj/rt.jar.temp/sha1''))
         (components rt_jar_sha1_hash))
       (components ''rt.jar'')"

definition write_rt_jar_file_if_missing ::
  "byte list \<Rightarrow> path \<Rightarrow> (fsys, io_error + unit) prog" where
  "write_rt_jar_file_if_missing rt_jar file_path =
     bnd (path_exists file_path) (\<lambda>present.
       if \<not> present then
         bnd (expect ParentMissing (path_parent file_path)) (\<lambda>parent_path.
         trying (create_dir_all parent_path) (\<lambda>_.
         trying (file_create file_path) (\<lambda>file.
         trying (file_write_all file rt_jar) (\<lambda>_.
         trying (file_sync_all file) (\<lambda>_.
         ret (Inr ()))))))
       else ret (Inr ()))"

definition svm_default_temp_file_path :: "path \<Rightarrow> string \<Rightarrow> string \<Rightarrow> path" where
  "svm_default_temp_file_path temp_dir svm_file_name svm_sha1_hash =
     path_push temp_dir
       (components (''phasicj/'' @ svm_file_name @ ''.temp/sha1/'' @ svm_sha1_hash @ ''/'' @ svm_file_name))"

definition write_svm_file_if_missing ::
  "byte list \<Rightarrow> path \<Rightarrow> (fsys, io_error + unit) prog" where
  "write_svm_file_if_missing svm file_path =
     bnd (path_exists file_path) (\<lambda>present.
       if \<not> present then
         bnd (expect ParentMissing (path_parent file_path)) (\<lambda>parent_path.
         trying (create_dir_all parent_path) (\<lambda>_.
         trying (file_create file_path) (\<lambda>file.
         trying (file_write_all file svm) (\<lambda>_.
         trying (file_sync_all file) (\<lambda>_.
         ret (Inr ()))))))
       else ret (Inr ()))"

section \<open>Unpacking\<close>

text \<open>
  The contract of a routine that unpacks embedded data to a path: it leaves a present
  path alone, it delivers the data where nothing was, it changes nothing else but for
  directories it adds, and it succeeds when the disk works.
\<close>

definition present :: "fsys \<Rightarrow> path \<Rightarrow> bool" where
  "present f p \<longleftrightarrow> p \<noteq> [] \<and> (is_dir f p \<or> nodes f p \<noteq> None)"

definition deliverable :: "fsys \<Rightarrow> path \<Rightarrow> bool" where
  "deliverable f p \<longleftrightarrow>
     p \<noteq> [] \<and> last p \<noteq> RootDir \<and> (\<forall>q\<in>set (inits (butlast p)). \<forall>d. nodes f q \<noteq> Some (File d))"

lemma deliverable_named: "deliverable f p \<Longrightarrow> p \<noteq> []"
  by (simp add: deliverable_def)

locale unpacker =
  fixes unpack :: "byte list \<Rightarrow> path \<Rightarrow> (fsys, io_error + unit) prog"
  assumes keeps: "plan f = [] \<Longrightarrow> present f p \<Longrightarrow> unpack data p f = (Inr (Inr ()), f)"
    and delivers: "unpack data p f = (Inr (Inr ()), g) \<Longrightarrow> \<not> present f p \<Longrightarrow>
      nodes g p = Some (File data)"
    and frame: "unpack data p f = (r, g) \<Longrightarrow> dirs_added f (g\<lparr>nodes := (nodes g)(p := nodes f p)\<rparr>)"
    and succeeds: "plan f = [] \<Longrightarrow> deliverable f p \<Longrightarrow>
      \<exists>g. unpack data p f = (Inr (Inr ()), g) \<and> plan g = [] \<and> present g p"
    and interrupted: "plan f = [] \<Longrightarrow> deliverable f p \<Longrightarrow> \<not> present f p \<Longrightarrow>
      \<exists>pl g. unpack data p (f\<lparr>plan := pl\<rparr>) = (Inr (Inl e), g) \<and>
        nodes g p = Some (File (take n data)) \<and> plan g = []"
begin

text \<open>A second call is a no-op, whatever the data.\<close>

lemma idempotent:
  assumes "plan f = []" and "deliverable f p" and "unpack data p f = (Inr (Inr ()), g)"
  shows "unpack data' p g = (Inr (Inr ()), g)"
proof -
  obtain h where "unpack data p f = (Inr (Inr ()), h) \<and> plan h = [] \<and> present h p"
    using succeeds [OF assms(1,2)] by blast
  with assms(3) show ?thesis using keeps [of g p data'] by simp
qed

lemma delivers_fresh:
  assumes "plan f = []" and "deliverable f p" and "\<not> present f p"
  shows "\<exists>g. unpack data p f = (Inr (Inr ()), g) \<and> nodes g p = Some (File data)"
  using succeeds [OF assms(1,2)] delivers assms(3) by blast

text \<open>
  Data cut short by a failed write is taken for the whole by the next call.
\<close>

lemma cut_short_kept:
  assumes "plan f = []" and "deliverable f p" and "\<not> present f p"
  shows "\<exists>pl g. unpack data p (f\<lparr>plan := pl\<rparr>) = (Inr (Inl e), g) \<and>
    unpack data p g = (Inr (Inr ()), g) \<and> nodes g p = Some (File (take n data))"
proof -
  obtain pl g where g: "unpack data p (f\<lparr>plan := pl\<rparr>) = (Inr (Inl e), g)"
    "nodes g p = Some (File (take n data))" "plan g = []"
    using interrupted [OF assms] by blast
  then show ?thesis using keeps [of g p data] deliverable_named [OF assms(2)] by (auto simp: present_def)
qed

end

subsection \<open>The agent's two unpackers\<close>

lemma write_svm_is_write_rt_jar: "write_svm_file_if_missing = write_rt_jar_file_if_missing"
  by (simp add: fun_eq_iff write_svm_file_if_missing_def write_rt_jar_file_if_missing_def)

lemma path_exists_quiet:
  "quiet (Suc k) (plan f) \<Longrightarrow>
   path_exists p f = (Inr (present f p), f\<lparr>plan := drop 1 (plan f)\<rparr>)"
  by (simp add: path_exists_def prog_simps outcome_quiet present_def is_dir_def)

lemma path_exists_cases:
  assumes "path_exists p f = (r, g)"
  shows "nodes g = nodes f \<and> (\<exists>b. r = Inr b \<and> (b \<longrightarrow> present f p))"
proof -
  obtain x u where o: "outcome f = (Inr x, u)" "nodes u = nodes f"
    by (metis outcome_cases surj_pair)
  with assms show ?thesis by (auto simp: path_exists_def prog_simps present_def is_dir_def)
qed

lemma present_same: "nodes g = nodes f \<Longrightarrow> present g p = present f p"
  by (simp add: present_def is_dir_def)

text \<open>The part after the test for presence.\<close>

definition unpack_anew :: "byte list \<Rightarrow> path \<Rightarrow> (fsys, io_error + unit) prog" where
  "unpack_anew data file_path =
     bnd (expect ParentMissing (path_parent file_path)) (\<lambda>parent_path.
     trying (create_dir_all parent_path) (\<lambda>_.
     trying (file_create file_path) (\<lambda>file.
     trying (file_write_all file data) (\<lambda>_.
     trying (file_sync_all file) (\<lambda>_.
     ret (Inr ()))))))"

lemma write_rt_jar_eq:
  "write_rt_jar_file_if_missing data p =
     bnd (path_exists p) (\<lambda>b. if \<not> b then unpack_anew data p else ret (Inr ()))"
  unfolding write_rt_jar_file_if_missing_def unpack_anew_def by (rule refl)

definition only_at :: "path \<Rightarrow> fsys \<Rightarrow> fsys \<Rightarrow> bool" where
  "only_at p f g \<longleftrightarrow> (\<forall>q. q \<noteq> p \<longrightarrow> nodes g q = nodes f q)"

lemma file_create_cases:
  assumes "file_create p f = (r, g)"
  shows "only_at p f g \<and> (\<exists>x. r = Inr x) \<and> (\<forall>h. r = Inr (Inr h) \<longrightarrow> h = p)"
proof -
  obtain x u where o: "outcome f = (Inr x, u)" "nodes u = nodes f"
    by (metis outcome_cases surj_pair)
  with assms show ?thesis
    by (cases x) (auto simp: file_create_def prog_simps only_at_def is_dir_def split: if_splits)
qed

lemma file_write_all_cases:
  assumes "file_write_all p data f = (r, g)"
  shows "only_at p f g \<and> (\<exists>x. r = Inr x) \<and> (r = Inr (Inr ()) \<longrightarrow> nodes g p = Some (File data))"
proof -
  obtain x u where o: "outcome f = (Inr x, u)" "nodes u = nodes f"
    by (metis outcome_cases surj_pair)
  with assms show ?thesis
    by (cases x) (auto simp: file_write_all_def prog_simps only_at_def)
qed

lemma file_sync_all_cases:
  assumes "file_sync_all p f = (r, g)"
  shows "nodes g = nodes f \<and> (\<exists>x. r = Inr x)"
proof -
  obtain x u where o: "outcome f = (Inr x, u)" "nodes u = nodes f"
    by (metis outcome_cases surj_pair)
  with assms show ?thesis
    by (cases x) (auto simp: file_sync_all_def prog_simps)
qed

lemma dirs_added_except:
  assumes "dirs_added f g" and "only_at p g h"
  shows "dirs_added f (h\<lparr>nodes := (nodes h)(p := nodes f p)\<rparr>)"
  using assms by (auto simp: dirs_added_def only_at_def)

lemma only_at_trans: "only_at p f g \<Longrightarrow> only_at p g h \<Longrightarrow> only_at p f h"
  by (simp add: only_at_def)

lemma only_at_same: "nodes g = nodes f \<Longrightarrow> only_at p f g"
  by (simp add: only_at_def)

lemma unpack_anew_cases:
  assumes "unpack_anew data p f = (r, g)"
  shows "dirs_added f (g\<lparr>nodes := (nodes g)(p := nodes f p)\<rparr>) \<and>
    (r = Inr (Inr ()) \<longrightarrow> nodes g p = Some (File data))"
proof (cases "path_parent p")
  case None
  with assms show ?thesis by (auto simp: unpack_anew_def prog_simps dirs_added_refl)
next
  case (Some par)
  with assms have "trying (create_dir_all par) (\<lambda>_. trying (file_create p) (\<lambda>file.
      trying (file_write_all file data) (\<lambda>_. trying (file_sync_all file) (\<lambda>_. ret (Inr ()))))) f
      = (r, g)"
    by (simp add: unpack_anew_def prog_simps)
  then show ?thesis
  proof (cases rule: trying_cases)
    case (goes_on x1 g1)
    then have d: "dirs_added f g1" using make_dirs_cases by (simp add: create_dir_all_def)
    note frame = dirs_added_except [OF d]
    from goes_on(2) show ?thesis
    proof (cases rule: trying_cases)
      case (goes_on h g2)
      then have o2: "only_at p g1 g2" and h: "h = p" using file_create_cases by blast+
      from goes_on(2) show ?thesis unfolding h
      proof (cases rule: trying_cases)
        case (goes_on x3 g3)
        then have o3: "only_at p g1 g3" and w: "nodes g3 p = Some (File data)"
          using file_write_all_cases [OF goes_on(1)] only_at_trans [OF o2] by auto
        from goes_on(2) have "nodes g = nodes g3"
          using file_sync_all_cases by (cases rule: trying_cases) (auto simp: prog_inv)
        with o3 w have "only_at p g1 g" and "nodes g p = Some (File data)"
          by (auto simp: only_at_def)
        with frame show ?thesis by blast
      qed (use frame file_write_all_cases only_at_trans [OF o2] in blast)+
    qed (use frame file_create_cases in blast)+
  qed (use make_dirs_cases in \<open>auto simp: create_dir_all_def dirs_added_def\<close>)
qed

text \<open>A run whose next operations are quiet delivers; one stopped in the write leaves a part.\<close>

definition parent_steps :: "path \<Rightarrow> nat" where
  "parent_steps p = length (inits (butlast p))"

lemma unpack_anew_write:
  assumes del: "deliverable f p" and new: "\<not> present f p"
    and quiet: "quiet (Suc (parent_steps p)) (plan f)"
  shows "\<exists>g. nodes g p = Some (File []) \<and> plan g = drop (Suc (parent_steps p)) (plan f) \<and>
    unpack_anew data p f =
      trying (file_write_all p data) (\<lambda>_. trying (file_sync_all p) (\<lambda>_. ret (Inr ()))) g"
proof -
  let ?par = "butlast p"
  have p: "p \<noteq> []" "last p \<noteq> RootDir" and par: "path_parent p = Some ?par"
    using del by (auto simp: deliverable_def path_parent_def)
  have quiet_par: "quiet (parent_steps p) (plan f)"
    and quiet_create: "quiet (Suc 0) (drop (parent_steps p) (plan f))"
    using quiet_split [of "parent_steps p" "Suc 0" "plan f"] quiet by simp_all
  obtain g where g: "create_dir_all ?par f = (Inr (Inr ()), g)"
    and plan: "plan g = drop (parent_steps p) (plan f)"
    and other: "\<forall>q. q \<notin> set (inits ?par) \<longrightarrow> nodes g q = nodes f q"
    using make_dirs_quiet [of "inits ?par" f] quiet_par del
    unfolding create_dir_all_def parent_steps_def deliverable_def by blast
  have "is_dir g ?par"
    using make_dirs_cases [OF g [unfolded create_dir_all_def]] inits_last [of ?par]
    by (cases "?par = []") (auto simp: is_dir_def)
  moreover have "length ?par < length p" using p(1) by simp
  then have "p \<notin> set (inits ?par)" using inits_shorter leD by blast
  with new other p have "\<not> is_dir g p" by (auto simp: present_def is_dir_def)
  moreover have "outcome g = (Inr Fine, g\<lparr>plan := drop 1 (plan g)\<rparr>)"
    using quiet_create plan by (intro outcome_quiet [of 0]) simp
  ultimately have "file_create p g =
      (Inr (Inr p), g\<lparr>plan := drop 1 (plan g), nodes := (nodes g)(p \<mapsto> File [])\<rparr>)"
    by (simp add: file_create_def prog_simps is_dir_def)
  with g par plan show ?thesis
    by (intro exI [of _ "g\<lparr>plan := drop 1 (plan g), nodes := (nodes g)(p \<mapsto> File [])\<rparr>"])
       (simp add: unpack_anew_def prog_simps)
qed

lemma write_rt_jar_present:
  assumes "plan f = []" and "present f p"
  shows "write_rt_jar_file_if_missing data p f = (Inr (Inr ()), f)"
  using assms path_exists_quiet [of 0 f p] by (simp add: write_rt_jar_eq prog_simps)

lemma write_rt_jar_absent:
  assumes "quiet (Suc k) (plan f)" and "\<not> present f p"
  shows "write_rt_jar_file_if_missing data p f = unpack_anew data p (f\<lparr>plan := drop 1 (plan f)\<rparr>)"
  using assms path_exists_quiet [of k f p] by (simp add: write_rt_jar_eq prog_simps)

lemma write_rt_jar_frame:
  assumes "write_rt_jar_file_if_missing data p f = (r, g)"
  shows "dirs_added f (g\<lparr>nodes := (nodes g)(p := nodes f p)\<rparr>)"
proof -
  obtain b u where b: "path_exists p f = (Inr b, u)" and u: "nodes u = nodes f"
    using path_exists_cases by (metis surj_pair)
  show ?thesis
  proof (cases b)
    case True
    with assms b u show ?thesis by (auto simp: write_rt_jar_eq prog_simps dirs_added_def)
  next
    case False
    with assms b have "unpack_anew data p u = (r, g)" by (simp add: write_rt_jar_eq prog_simps)
    then show ?thesis using unpack_anew_cases u by (metis dirs_added_def)
  qed
qed

lemma write_rt_jar_succeeds:
  assumes plan: "plan f = []" and del: "deliverable f p"
  shows "\<exists>g. write_rt_jar_file_if_missing data p f = (Inr (Inr ()), g) \<and> plan g = [] \<and> present g p"
proof (cases "present f p")
  case True
  with plan show ?thesis by (auto simp: write_rt_jar_present)
next
  case False
  obtain g where g: "plan g = []" "unpack_anew data p f =
      trying (file_write_all p data) (\<lambda>_. trying (file_sync_all p) (\<lambda>_. ret (Inr ()))) g"
    using unpack_anew_write [OF del False, of data] plan by auto
  have same: "f\<lparr>plan := []\<rparr> = f" using plan by (cases f) simp
  have "write_rt_jar_file_if_missing data p f = unpack_anew data p f"
    using write_rt_jar_absent [of 0 f p data, unfolded plan drop_Nil same] False by simp
  with g deliverable_named [OF del] show ?thesis
    by (simp add: file_write_all_def file_sync_all_def outcome_def prog_simps present_def)
qed

lemma write_rt_jar_interrupted:
  assumes del: "deliverable f p" and new: "\<not> present f p"
  shows "\<exists>pl g. write_rt_jar_file_if_missing data p (f\<lparr>plan := pl\<rparr>) = (Inr (Inl e), g) \<and>
    nodes g p = Some (File (take n data)) \<and> plan g = []"
proof -
  let ?pl = "replicate (Suc (Suc (parent_steps p))) Fine @ [Stops n e]"
  let ?f = "f\<lparr>plan := ?pl\<rparr>"
  let ?h = "?f\<lparr>plan := drop 1 (plan ?f)\<rparr>"
  have "deliverable ?h p" "\<not> present ?h p" and absent: "\<not> present ?f p"
    using del new by (simp_all add: deliverable_def present_def is_dir_def)
  moreover have "plan ?h = replicate (Suc (parent_steps p)) Fine @ [Stops n e]" by simp
  ultimately obtain g where g: "nodes g p = Some (File [])" "plan g = [Stops n e]"
    "unpack_anew data p ?h =
       trying (file_write_all p data) (\<lambda>_. trying (file_sync_all p) (\<lambda>_. ret (Inr ()))) g"
    using unpack_anew_write [of ?h p data] by auto
  have "write_rt_jar_file_if_missing data p ?f = unpack_anew data p ?h"
    using absent by (intro write_rt_jar_absent [of "Suc (parent_steps p)"]) simp_all
  with g have "write_rt_jar_file_if_missing data p ?f =
      (Inr (Inl e), g\<lparr>plan := [], nodes := (nodes g)(p \<mapsto> File (take n data))\<rparr>)"
    by (simp add: file_write_all_def outcome_def prog_simps)
  then show ?thesis by (intro exI conjI) (assumption, simp_all)
qed

interpretation rt_jar: unpacker write_rt_jar_file_if_missing
proof
  fix data p f g
  assume ok: "write_rt_jar_file_if_missing data p f = (Inr (Inr ()), g)" and new: "\<not> present f p"
  obtain b u where b: "path_exists p f = (Inr b, u)" and "b \<longrightarrow> present f p"
    using path_exists_cases by (metis surj_pair)
  with ok new have "unpack_anew data p u = (Inr (Inr ()), g)"
    by (auto simp: write_rt_jar_eq prog_simps)
  then show "nodes g p = Some (File data)" using unpack_anew_cases by blast
qed (rule write_rt_jar_present write_rt_jar_frame write_rt_jar_succeeds write_rt_jar_interrupted; assumption)+

interpretation svm_library: unpacker write_svm_file_if_missing
  unfolding write_svm_is_write_rt_jar by (rule rt_jar.unpacker_axioms)

section \<open>Where the files go\<close>

text \<open>A path segment: a file name with no separator that is not a dot name.\<close>

definition file_name :: "string \<Rightarrow> bool" where
  "file_name w \<longleftrightarrow> w \<noteq> [] \<and> CHR ''/'' \<notin> set w \<and> w \<noteq> ''.'' \<and> w \<noteq> ''..''"

lemma split_slash_name: "CHR ''/'' \<notin> set w \<Longrightarrow> split_slash w = [w]"
  by (induction w) auto

lemma components_name: "file_name w \<Longrightarrow> components w = [Normal w]"
  by (cases w) (auto simp: components_def segment_def file_name_def split_slash_name)

lemma path_push_name:
  "buf \<noteq> [] \<Longrightarrow> file_name w \<Longrightarrow> path_push buf (components w) = buf @ [Normal w]"
  by (simp add: path_push_def components_name is_absolute_def)

lemma rt_jar_path:
  assumes "temp_dir \<noteq> []" and "file_name hash"
  shows "rt_jar_default_temp_file_path temp_dir hash =
    temp_dir @ [Normal ''phasicj'', Normal ''rt.jar.temp'', Normal ''sha1'', Normal hash, Normal ''rt.jar'']"
proof -
  have "components ''phasicj/rt.jar.temp/sha1'' =
      [Normal ''phasicj'', Normal ''rt.jar.temp'', Normal ''sha1'']"
    and "components ''rt.jar'' = [Normal ''rt.jar'']"
    by (simp_all add: components_def segment_def)
  with assms show ?thesis
    by (simp add: rt_jar_default_temp_file_path_def path_push_def components_name is_absolute_def)
qed

section \<open>Properties\<close>

text \<open>
  C31. On a working disk the call for the runtime jar succeeds when the path is present, and
  when its parent directories are not files. A present path is left alone, whatever it holds,
  and so is everything else; where nothing was, the file then holds exactly the embedded
  bytes, and every other path is as before, but for directories added on the way.
\<close>

theorem rt_jar_delivered:
  assumes "plan f = []" and "present f p \<or> deliverable f p"
  shows "\<exists>g. write_rt_jar_file_if_missing jar p f = (Inr (Inr ()), g) \<and>
    (if present f p then g = f
     else nodes g p = Some (File jar) \<and> dirs_added f (g\<lparr>nodes := (nodes g)(p := nodes f p)\<rparr>))"
proof (cases "present f p")
  case True
  with rt_jar.keeps [OF assms(1)] show ?thesis by simp
next
  case False
  with assms(2) rt_jar.delivers_fresh [OF assms(1)] rt_jar.frame show ?thesis by simp blast
qed

definition empty_disk :: fsys where
  "empty_disk = \<lparr>nodes = Map.empty, plan = []\<rparr>"

lemma deliverable_empty_disk: "p \<noteq> [] \<Longrightarrow> last p \<noteq> RootDir \<Longrightarrow> deliverable empty_disk p"
  by (simp add: deliverable_def empty_disk_def)

theorem rt_jar_delivered_witness:
  "\<exists>g. write_rt_jar_file_if_missing ''JAR'' [RootDir, Normal ''tmp'', Normal ''rt.jar''] empty_disk =
      (Inr (Inr ()), g) \<and>
    nodes g [RootDir, Normal ''tmp'', Normal ''rt.jar''] = Some (File ''JAR'') \<and>
    write_rt_jar_file_if_missing ''NEW'' [RootDir, Normal ''j'']
      (empty_disk\<lparr>nodes := [[RootDir, Normal ''j''] \<mapsto> File ''OLD'']\<rparr>) =
      (Inr (Inr ()), empty_disk\<lparr>nodes := [[RootDir, Normal ''j''] \<mapsto> File ''OLD'']\<rparr>)"
proof -
  let ?p = "[RootDir, Normal ''tmp'', Normal ''rt.jar'']"
  let ?f = "empty_disk\<lparr>nodes := [[RootDir, Normal ''j''] \<mapsto> File ''OLD'']\<rparr>"
  have "plan empty_disk = []" "\<not> present empty_disk ?p" "deliverable empty_disk ?p"
    by (simp_all add: deliverable_empty_disk present_def is_dir_def) (simp_all add: empty_disk_def)
  with rt_jar_delivered [of empty_disk ?p "''JAR''"]
  have "\<exists>g. write_rt_jar_file_if_missing ''JAR'' ?p empty_disk = (Inr (Inr ()), g) \<and>
    nodes g ?p = Some (File ''JAR'')" by auto
  moreover have "plan ?f = []" "present ?f [RootDir, Normal ''j'']"
    by (simp_all add: present_def empty_disk_def)
  with rt_jar_delivered [of ?f "[RootDir, Normal ''j'']" "''NEW''"]
  have "write_rt_jar_file_if_missing ''NEW'' [RootDir, Normal ''j''] ?f = (Inr (Inr ()), ?f)" by auto
  ultimately show ?thesis by blast
qed

text \<open>
  Unpacking the runtime jar never changes another file, whatever fails: a path other
  than the jar's is left as it was or becomes a directory where nothing was.
\<close>

theorem rt_jar_frame:
  assumes "write_rt_jar_file_if_missing jar p f = (r, g)" and "q \<noteq> p" and "nodes f q = Some n"
  shows "nodes g q = Some n"
  using rt_jar.frame [OF assms(1)] assms(2,3)
  by (auto simp: dirs_added_def dest: spec [of _ q])

theorem rt_jar_frame_witness:
  "nodes (snd (write_rt_jar_file_if_missing ''JAR'' [RootDir, Normal ''j'']
      \<lparr>nodes = [[RootDir, Normal ''k''] \<mapsto> File ''x''], plan = [Fine, Fine, Stops 1 StorageFull]\<rparr>))
    [RootDir, Normal ''k''] = Some (File ''x'')"
proof (rule rt_jar_frame)
  show "write_rt_jar_file_if_missing ''JAR'' [RootDir, Normal ''j'']
      \<lparr>nodes = [[RootDir, Normal ''k''] \<mapsto> File ''x''], plan = [Fine, Fine, Stops 1 StorageFull]\<rparr> =
    (fst (write_rt_jar_file_if_missing ''JAR'' [RootDir, Normal ''j'']
      \<lparr>nodes = [[RootDir, Normal ''k''] \<mapsto> File ''x''], plan = [Fine, Fine, Stops 1 StorageFull]\<rparr>),
     snd (write_rt_jar_file_if_missing ''JAR'' [RootDir, Normal ''j'']
      \<lparr>nodes = [[RootDir, Normal ''k''] \<mapsto> File ''x''], plan = [Fine, Fine, Stops 1 StorageFull]\<rparr>))"
    by simp
qed simp_all

text \<open>
  C33. A write that the disk cuts short is not repaired: the call reports the error, but the
  truncated file stays, and the next call finds the path present and reports success.
\<close>

theorem rt_jar_cut_short_accepted:
  assumes "plan f = []" and "deliverable f p" and "\<not> present f p"
  shows "\<exists>pl g. write_rt_jar_file_if_missing jar p (f\<lparr>plan := pl\<rparr>) = (Inr (Inl e), g) \<and>
    write_rt_jar_file_if_missing jar p g = (Inr (Inr ()), g) \<and>
    nodes g p = Some (File (take n jar))"
  by (rule rt_jar.cut_short_kept [OF assms])

theorem rt_jar_cut_short_accepted_witness:
  "\<exists>pl g. write_rt_jar_file_if_missing ''JAR'' [RootDir, Normal ''j''] (empty_disk\<lparr>plan := pl\<rparr>) =
      (Inr (Inl StorageFull), g) \<and>
    write_rt_jar_file_if_missing ''JAR'' [RootDir, Normal ''j''] g = (Inr (Inr ()), g) \<and>
    nodes g [RootDir, Normal ''j''] = Some (File (take 1 ''JAR''))"
  by (rule rt_jar_cut_short_accepted)
     (simp_all add: deliverable_empty_disk present_def is_dir_def, simp_all add: empty_disk_def)

text \<open>
  The jar's default path has the embedded jar's hash as a directory of its own, so agents
  with different jars never share a file.
\<close>

theorem rt_jar_paths_distinct:
  assumes "temp_dir \<noteq> []" and "file_name hash" and "file_name hash'"
    and "hash \<noteq> hash'"
  shows "rt_jar_default_temp_file_path temp_dir hash \<noteq> rt_jar_default_temp_file_path temp_dir hash'"
  using assms by (simp add: rt_jar_path)

theorem rt_jar_paths_distinct_witness:
  "rt_jar_default_temp_file_path [RootDir, Normal ''tmp''] ''3f2a'' \<noteq>
   rt_jar_default_temp_file_path [RootDir, Normal ''tmp''] ''90cc''"
  by (rule rt_jar_paths_distinct) (simp_all add: file_name_def)

end
