(* ===== verification/Debug.thy ===== *)
theory Debug
  imports RtEmbed
begin

text \<open>
  Writing classes to files for debugging, \<^verbatim>\<open>phasicj/agent/debug.rs\<close>.
  \<open>print_verbose_startup_info\<close> only logs, but where messages at level info are enabled it
  panics when the current directory cannot be had; where they are not, the macro does not
  evaluate its arguments.
\<close>

definition print_verbose_startup_info :: "bool \<Rightarrow> path option \<Rightarrow> ('w, unit) prog" where
  "print_verbose_startup_info info_enabled current_dir =
     (if info_enabled then bnd (expect UnwrapErr current_dir) (\<lambda>_. ret ()) else ret ())"

definition dump_path :: "path \<Rightarrow> string \<Rightarrow> path" where
  "dump_path prefix class_name = path_push (path_push [] prefix) (components (class_name @ ''.class''))"

definition dump_class_to_file ::
  "path \<Rightarrow> string \<Rightarrow> byte list \<Rightarrow> (fsys, io_error + unit) prog" where
  "dump_class_to_file prefix class_name class_data =
     (let path_buf = dump_path prefix class_name in
      bnd (expect UnwrapNone (path_parent path_buf)) (\<lambda>parent.
      trying (create_dir_all parent) (\<lambda>_.
      trying (file_create path_buf) (\<lambda>file.
      trying (file_write_all file class_data) (\<lambda>_.
      ret (Inr ()))))))"

section \<open>Where a class goes\<close>

text \<open>
  The internal names of classes: segments between slashes, none of them empty, and no dots.
\<close>

definition class_name_ok :: "string \<Rightarrow> bool" where
  "class_name_ok n \<longleftrightarrow> CHR ''.'' \<notin> set n \<and> [] \<notin> set (split_slash n)"

lemma split_slash_not_Nil [simp]: "split_slash s \<noteq> []"
  by (induction s) (auto split: list.splits)

lemma split_slash_append:
  "CHR ''/'' \<notin> set t \<Longrightarrow> split_slash (s @ t) = butlast (split_slash s) @ [last (split_slash s) @ t]"
proof (induction s)
  case Nil
  then show ?case by (induction t) (auto split: list.splits)
next
  case (Cons c s)
  then show ?case
    using split_slash_not_Nil [of s] by (cases "split_slash s") (auto split: list.splits)
qed

lemma segment_normal:
  assumes "CHR ''.'' \<notin> set w" and "w \<noteq> []"
  shows "segment w = [Normal w]" and "segment (w @ ''.class'') = [Normal (w @ ''.class'')]"
proof -
  from assms have "w \<noteq> ''.''" "w \<noteq> ''..''" by auto
  with assms(2) show "segment w = [Normal w]" by (simp add: segment_def)
  from assms show "segment (w @ ''.class'') = [Normal (w @ ''.class'')]"
    by (cases w) (auto simp: segment_def)
qed

lemma split_slash_chars: "w \<in> set (split_slash s) \<Longrightarrow> set w \<subseteq> set s"
  by (induction s arbitrary: w) (auto split: list.splits if_splits, blast)

lemma concat_segments:
  "\<forall>w\<in>set ws. CHR ''.'' \<notin> set w \<and> w \<noteq> [] \<Longrightarrow> concat (map segment ws) = map Normal ws"
  by (induction ws) (simp_all add: segment_normal)

definition class_file_path :: "string \<Rightarrow> path" where
  "class_file_path n =
     map Normal (butlast (split_slash n)) @ [Normal (last (split_slash n) @ ''.class'')]"

lemma class_components:
  assumes "class_name_ok n"
  shows "components (n @ ''.class'') = class_file_path n"
proof -
  have ws: "\<forall>w\<in>set (split_slash n). CHR ''.'' \<notin> set w \<and> w \<noteq> []"
    using assms split_slash_chars unfolding class_name_ok_def by blast
  have split: "split_slash (n @ ''.class'') =
      butlast (split_slash n) @ [last (split_slash n) @ ''.class'']"
    by (intro split_slash_append) simp
  have last: "last (split_slash n) \<in> set (split_slash n)" by simp
  have "n \<noteq> []" using assms by (auto simp: class_name_ok_def)
  moreover have "hd n \<noteq> CHR ''/''" using assms \<open>n \<noteq> []\<close> by (cases n) (auto simp: class_name_ok_def)
  moreover have "hd (split_slash (n @ ''.class'')) \<noteq> ''.''"
  proof -
    have "hd (split_slash (n @ ''.class'')) = hd (split_slash n) \<or>
      hd (split_slash (n @ ''.class'')) = last (split_slash n) @ ''.class''"
      unfolding split by (cases "split_slash n" rule: rev_cases) (auto simp: hd_append)
    moreover have "hd (split_slash n) \<noteq> ''.''"
      using ws list.set_sel(1) [OF split_slash_not_Nil, of n] by (metis list.set_intros(1))
    ultimately show ?thesis by auto
  qed
  ultimately have "components (n @ ''.class'') = concat (map segment (split_slash (n @ ''.class'')))"
    by (simp add: components_def)
  also have "\<dots> = concat (map segment (butlast (split_slash n))) @ segment (last (split_slash n) @ ''.class'')"
    by (simp add: split)
  also have "concat (map segment (butlast (split_slash n))) = map Normal (butlast (split_slash n))"
    using ws by (intro concat_segments) (auto dest: in_set_butlastD)
  also have "segment (last (split_slash n) @ ''.class'') = [Normal (last (split_slash n) @ ''.class'')]"
    using ws last by (intro segment_normal) auto
  finally show ?thesis by (simp add: class_file_path_def)
qed

text \<open>The segments determine the name.\<close>

fun join_slash :: "string list \<Rightarrow> string" where
  "join_slash [] = []"
| "join_slash [w] = w"
| "join_slash (w # ws) = w @ CHR ''/'' # join_slash ws"

lemma join_split: "join_slash (split_slash s) = s"
proof (induction s)
  case (Cons c s)
  show ?case
    using Cons split_slash_not_Nil [of s]
    by (cases "split_slash s") (auto, (cases "tl (split_slash s)"; simp)+)
qed simp

lemma class_file_path_inj: "class_file_path m = class_file_path n \<Longrightarrow> m = n"
proof -
  assume "class_file_path m = class_file_path n"
  then have "butlast (split_slash m) = butlast (split_slash n)" "last (split_slash m) = last (split_slash n)"
    by (auto simp: class_file_path_def inj_map_eq_map inj_def)
  then have "split_slash m = split_slash n" by (metis append_butlast_last_id split_slash_not_Nil)
  then show ?thesis by (metis join_split)
qed

lemma dump_path_below:
  assumes "class_name_ok n"
  shows "dump_path prefix n = prefix @ class_file_path n"
proof -
  have "filter (\<lambda>c. c \<noteq> CurDir) (class_file_path n) = class_file_path n"
    by (auto simp: class_file_path_def filter_id_conv)
  moreover have "\<not> is_absolute (class_file_path n)"
    by (cases "butlast (split_slash n)") (auto simp: class_file_path_def is_absolute_def)
  ultimately show ?thesis
    by (simp add: dump_path_def path_push_def class_components [OF assms])
qed

lemma class_file_path_parts: "class_file_path n \<noteq> []" "last (class_file_path n) \<noteq> RootDir"
  by (simp_all add: class_file_path_def)

section \<open>What a dump does\<close>

lemma dump_cases:
  assumes "dump_class_to_file prefix n data f = (r, g)"
  shows "dirs_added f (g\<lparr>nodes := (nodes g)(dump_path prefix n := nodes f (dump_path prefix n))\<rparr>) \<and>
    (r = Inr (Inr ()) \<longrightarrow> nodes g (dump_path prefix n) = Some (File data))"
proof (cases "path_parent (dump_path prefix n)")
  case None
  with assms show ?thesis by (auto simp: dump_class_to_file_def Let_def prog_simps dirs_added_refl)
next
  case (Some par)
  let ?p = "dump_path prefix n"
  from assms Some have "trying (create_dir_all par) (\<lambda>_. trying (file_create ?p) (\<lambda>file.
      trying (file_write_all file data) (\<lambda>_. ret (Inr ())))) f = (r, g)"
    by (simp add: dump_class_to_file_def Let_def prog_simps)
  then show ?thesis
  proof (cases rule: trying_cases)
    case (goes_on x1 g1)
    then have d: "dirs_added f g1" using make_dirs_cases by (simp add: create_dir_all_def)
    note frame = dirs_added_except [OF d]
    from goes_on(2) show ?thesis
    proof (cases rule: trying_cases)
      case (goes_on h g2)
      then have o2: "only_at ?p g1 g2" and h: "h = ?p" using file_create_cases by blast+
      from goes_on(2) show ?thesis unfolding h
      proof (cases rule: trying_cases)
        case (goes_on x3 g3)
        then have "only_at ?p g1 g" and "nodes g ?p = Some (File data)"
          using file_write_all_cases [OF goes_on(1)] only_at_trans [OF o2] by (auto simp: prog_inv)
        with frame show ?thesis by blast
      qed (use frame file_write_all_cases only_at_trans [OF o2] in blast)+
    qed (use frame file_create_cases in blast)+
  qed (use make_dirs_cases in \<open>auto simp: create_dir_all_def dirs_added_def\<close>)
qed

text \<open>A dump whose path has only directories above it succeeds on a disk without faults.\<close>

definition dumpable :: "fsys \<Rightarrow> path \<Rightarrow> bool" where
  "dumpable f p \<longleftrightarrow> deliverable f p \<and> \<not> is_dir f p"

lemma dump_quiet:
  assumes "plan f = []" and "dumpable f (dump_path prefix n)"
  obtains g where "dump_class_to_file prefix n data f = (Inr (Inr ()), g)" "plan g = []"
    "nodes g (dump_path prefix n) = Some (File data)"
proof -
  let ?p = "dump_path prefix n"
  let ?par = "butlast ?p"
  have p: "?p \<noteq> []" "last ?p \<noteq> RootDir" and par: "path_parent ?p = Some ?par"
    using assms(2) by (auto simp: dumpable_def deliverable_def path_parent_def)
  have noFile: "\<And>q d. q \<in> set (inits ?par) \<Longrightarrow> nodes f q \<noteq> Some (File d)"
    using assms(2) by (auto simp: dumpable_def deliverable_def)
  have qu: "quiet (length (inits ?par)) (plan f)" using assms(1) by simp
  obtain g where g: "create_dir_all ?par f = (Inr (Inr ()), g)" and plan: "plan g = []"
    and other: "\<forall>q. q \<notin> set (inits ?par) \<longrightarrow> nodes g q = nodes f q"
    using make_dirs_quiet [OF qu noFile] assms(1) unfolding create_dir_all_def by auto
  have dir: "is_dir g ?par"
    using make_dirs_cases [OF g [unfolded create_dir_all_def]] inits_last [of ?par]
    by (cases "?par = []") (auto simp: is_dir_def)
  have "length ?par < length ?p" using p(1) by simp
  then have "?p \<notin> set (inits ?par)" using inits_shorter leD by blast
  with other assms(2) have "\<not> is_dir g ?p" by (auto simp: dumpable_def is_dir_def)
  with dir plan have c: "file_create ?p g = (Inr (Inr ?p), g\<lparr>nodes := (nodes g)(?p \<mapsto> File [])\<rparr>)"
    by (simp add: file_create_def prog_simps outcome_def)
  let ?h = "g\<lparr>nodes := (nodes g)(?p \<mapsto> File [], ?p \<mapsto> File data)\<rparr>"
  have "file_write_all ?p data (g\<lparr>nodes := (nodes g)(?p \<mapsto> File [])\<rparr>) = (Inr (Inr ()), ?h)"
    using plan by (simp add: file_write_all_def prog_simps outcome_def)
  with g par c have "dump_class_to_file prefix n data f = (Inr (Inr ()), ?h)"
    by (simp add: dump_class_to_file_def Let_def trying_def prog_simps)
  with plan show thesis by (intro that [of ?h]) simp_all
qed

section \<open>Properties\<close>

text \<open>
  C34. Dumping a class writes below the given directory and nowhere else: whatever the
  outcome, only the file of that class changes, but for directories added, and a dump that
  reports success has put exactly the class data there.
\<close>

theorem dump_stays_below:
  assumes "class_name_ok n" and "dump_class_to_file prefix n data f = (r, g)"
  shows "(\<forall>q. q \<noteq> prefix @ class_file_path n \<longrightarrow>
        nodes g q = nodes f q \<or> nodes f q = None \<and> nodes g q = Some Dir) \<and>
    (r = Inr (Inr ()) \<longrightarrow> nodes g (prefix @ class_file_path n) = Some (File data))"
proof -
  note cases = dump_cases [OF assms(2), unfolded dump_path_below [OF assms(1)]]
  have "nodes g q = nodes f q \<or> nodes f q = None \<and> nodes g q = Some Dir"
    if "q \<noteq> prefix @ class_file_path n" for q
    using cases that unfolding dirs_added_def by (auto dest: spec [of _ q])
  with cases show ?thesis by blast
qed

lemma sample_class_ok: "class_name_ok ''a/B''"
  by (simp add: class_name_ok_def)

theorem dump_stays_below_witness:
  "\<exists>r g. dump_class_to_file [Normal ''out''] ''a/B'' [CHR ''x''] \<lparr>nodes = Map.empty, plan = []\<rparr> = (r, g) \<and>
     (\<forall>q. q \<noteq> [Normal ''out''] @ class_file_path ''a/B'' \<longrightarrow> nodes g q = None \<or> nodes g q = Some Dir)"
proof -
  obtain r g where run: "dump_class_to_file [Normal ''out''] ''a/B'' [CHR ''x''] \<lparr>nodes = Map.empty, plan = []\<rparr> = (r, g)"
    by fastforce
  from dump_stays_below [OF sample_class_ok run] run show ?thesis by auto
qed

text \<open>Two classes are never dumped to the same file of a directory.\<close>

theorem dump_paths_distinct:
  assumes "class_name_ok m" and "class_name_ok n" and "dump_path prefix m = dump_path prefix n"
  shows "m = n"
  using assms class_file_path_inj by (simp add: dump_path_below)

theorem dump_paths_distinct_witness:
  "dump_path [Normal ''out''] ''a/B'' \<noteq> dump_path [Normal ''out''] ''a/C''"
proof
  have ok: "class_name_ok ''a/C''" by (simp add: class_name_ok_def)
  assume "dump_path [Normal ''out''] ''a/B'' = dump_path [Normal ''out''] ''a/C''"
  from dump_paths_distinct [OF sample_class_ok ok this] show False by simp
qed

end
