(* ===== verification/Events.thy ===== *)
theory Events
  imports EnvStorage JniEnv Instrumenter Debug
begin

text \<open>
  The agent's event callbacks, \<^verbatim>\<open>phasicj/agent/jvm/events.rs\<close>. The JVM calls them: the start
  of the VM, its initialisation and death, and each class file about to be loaded, which
  the agent replaces by what the external instrumenter makes of it.
\<close>

section \<open>Callbacks\<close>

definition get_initial_agent_callbacks :: jvmtiEventCallbacks where
  "get_initial_agent_callbacks =
     default_callbacks\<lparr>VMStart := Some Pj_vm_start, VMInit := Some Pj_vm_init,
       VMDeath := Some Pj_vm_death, ClassFileLoadHook := Some Pj_class_file_load_hook\<rparr>"

definition enable_instrumentation :: "'j jni_table \<Rightarrow> ('j world, unit) prog" where
  "enable_instrumentation env =
     bnd (unwrap_ok (cstring_new ''java/lang/Object'')) (\<lambda>class_name.
     bnd (unwrap_ok (cstring_new ''phasicj$agent$rt$enableInstrumentation'')) (\<lambda>method_name.
     bnd (unwrap_ok (cstring_new ''()V'')) (\<lambda>method_signature.
     bnd (find_class env class_name) (\<lambda>java_lang_object_class.
     bnd (get_static_method_id env java_lang_object_class method_name method_signature)
       (\<lambda>enable_instr_method.
     call_static_void_method env java_lang_object_class enable_instr_method)))))"

definition pj_vm_start :: "'j jni_table \<Rightarrow> ('j world, unit) prog" where
  "pj_vm_start jni_env = enable_instrumentation jni_env"

definition pj_vm_init :: "('j world, unit) prog" where
  "pj_vm_init = ret ()"

definition pj_vm_death :: "'j jvmti_table \<Rightarrow> ('j world, unit) prog" where
  "pj_vm_death env = EnvStorage_free env"

section \<open>The class file load hook\<close>

text \<open>
  \<open>CStr::from_ptr\<close> reads through the pointer, a null one included; the JVM's class data is
  as many bytes as it says, unless the length is negative.
\<close>

definition cstr_from_ptr :: "byte list option \<Rightarrow> ('w, byte list) prog" where
  "cstr_from_ptr p =
     (case p of None \<Rightarrow> throw (Undefined DanglingRead) | Some buf \<Rightarrow> ret (cstr_bytes buf))"

definition slice_from_raw_parts :: "byte list \<Rightarrow> 32 word \<Rightarrow> ('w, byte list) prog" where
  "slice_from_raw_parts class_data len =
     (if sint len < 0 then panic UnwrapErr
      else if unat len \<le> length class_data then ret (take (unat len) class_data)
      else throw (Undefined DanglingRead))"

text \<open>
  The callback's result is what it has written through \<open>new_class_data_len\<close> and
  \<open>new_class_data\<close>, nothing on an early return.
\<close>

definition pj_class_file_load_hook ::
  "'j jvmti_table \<Rightarrow> os \<Rightarrow> byte list option \<Rightarrow> 32 word \<Rightarrow> byte list \<Rightarrow>
   ('j world, (32 word \<times> pointer) option) prog" where
  "pj_class_file_load_hook J os name class_data_len class_data =
     bnd (EnvStorage_of J) (\<lambda>found.
     bnd (expect StorageMissing found) (\<lambda>env_storage.
     bnd (cstr_from_ptr name) (\<lambda>bytes.
     bnd (expect UnwrapNone (case to_str bytes of Inl _ \<Rightarrow> None | Inr s \<Rightarrow> Some s)) (\<lambda>class_name.
     if starts_with class_name ''phasicj/agent/rt/'' then ret None
     else
       bnd (slice_from_raw_parts class_data class_data_len) (\<lambda>class.
       seq (if debug_dump_classes_before_instr (conf env_storage) then
              bnd (zoom files files_update
                     (dump_class_to_file (components ''classes/before_instr'') class_name class)) unwrap_ok
            else ret ())
       (bnd (case phasicj_exec (conf env_storage) of
               None \<Rightarrow> instrument os using_system_path class
             | Some path \<Rightarrow> instrument os (wrap path) class) (\<lambda>instr_result.
       (case instr_result of
          Inl _ \<Rightarrow> ret None
        | Inr instrumented_class \<Rightarrow>
            seq (if debug_dump_classes_after_instr (conf env_storage) then
                   bnd (zoom files files_update
                     (dump_class_to_file (components ''classes/after_instr'') class_name instrumented_class)) unwrap_ok
                 else ret ())
            (if length instrumented_class < 2 ^ 63 then
               bnd (jvmti_allocate J (of_nat (length instrumented_class))) (\<lambda>written.
               bnd (assume_init written) (\<lambda>jvmti_buf.
               seq (write_block jvmti_buf instrumented_class)
               (if length instrumented_class < 2 ^ 31 then
                  ret (Some (of_nat (length instrumented_class), jvmti_buf))
                else panic UnwrapErr)))
             else panic UnwrapErr)))))))))"

section \<open>Steps of the hook\<close>

lemma dump_faults:
  assumes "dump_class_to_file prefix n data f = (Inl e, g)"
  shows "e = Panicked UnwrapNone"
proof -
  have io: "create_dir_all q f \<noteq> (Inl e, h)" for q f h
    using make_dirs_cases unfolding create_dir_all_def by fastforce
  have cr: "file_create q f \<noteq> (Inl e, h)" for q f h
    using file_create_cases by fastforce
  have wr: "file_write_all q data f \<noteq> (Inl e, h)" for q f h
    using file_write_all_cases by fastforce
  from assms show ?thesis
    by (auto simp: dump_class_to_file_def Let_def prog_inv io cr wr)
qed

lemma dump_step:
  assumes "(if b then bnd (zoom files files_update (dump_class_to_file p n d)) unwrap_ok else ret ()) w = (r, w')"
  shows "(\<exists>f. w' = w\<lparr>files := f\<rparr>) \<and> (\<forall>e. r = Inl e \<longrightarrow> (\<exists>q. e = Panicked q)) \<and> (\<not> b \<longrightarrow> w' = w)"
proof (cases b)
  case True
  obtain x g where x: "dump_class_to_file p n d (files w) = (x, g)" by fastforce
  then have z: "zoom files files_update (dump_class_to_file p n d) w = (x, w\<lparr>files := g\<rparr>)"
    by (simp add: zoom_def)
  show ?thesis
  proof (cases x)
    case (Inl e)
    with x dump_faults have "e = Panicked UnwrapNone" by blast
    with assms True z Inl show ?thesis by auto
  next
    case (Inr y)
    with assms True z show ?thesis by (cases y) (auto simp: prog_simps)
  qed
next
  case False
  with assms show ?thesis by (auto simp: prog_simps intro: exI [of _ "files w"])
qed

lemma instrument_conf:
  "(case exec of None \<Rightarrow> instrument os using_system_path d | Some path \<Rightarrow> instrument os (wrap path) d) =
     ret (exec_outcome os exec d)"
  by (cases exec) (simp_all add: instrument_made fun_eq_iff ret_def)

text \<open>Handing the new class over to the JVM.\<close>

definition hand_over :: "'j jvmti_table \<Rightarrow> byte list \<Rightarrow> ('j world, (32 word \<times> pointer) option) prog" where
  "hand_over J bs =
     (if length bs < 2 ^ 63 then
        bnd (jvmti_allocate J (of_nat (length bs))) (\<lambda>written.
        bnd (assume_init written) (\<lambda>jvmti_buf.
        seq (write_block jvmti_buf bs)
        (if length bs < 2 ^ 31 then ret (Some (of_nat (length bs), jvmti_buf)) else panic UnwrapErr)))
      else panic UnwrapErr)"

definition handed_over :: "'j world \<Rightarrow> byte list \<Rightarrow> 32 word \<Rightarrow> pointer \<Rightarrow> 'j world \<Rightarrow> bool" where
  "handed_over w bs n p w' \<longleftrightarrow>
     unat n = length bs \<and>
     (if bs = [] then p = 0 \<and> heap w' = heap w
      else p \<noteq> 0 \<and> heap w p = None \<and> heap w' = (heap w)(p \<mapsto> bs))"

lemma hand_over_cases:
  assumes "jvmti_laws J" and "hand_over J bs w = (r, w')"
  shows "heap w \<subseteq>\<^sub>m heap w' \<and> w' = w\<lparr>jvm := jvm w', heap := heap w'\<rparr> \<and>
    ((\<exists>q. r = Inl (Panicked q)) \<or>
     (\<exists>n p. r = Inr (Some (n, p)) \<and> handed_over w bs n p w'))"
proof (cases "length bs < 2 ^ 63")
  case False
  with assms(2) show ?thesis by (auto simp: hand_over_def prog_simps)
next
  case True
  then have len: "unat (of_nat (length bs) :: 64 word) = length bs"
    unfolding unat_of_nat by (intro mod_less) simp
  have small: "unat (of_nat (length bs) :: 32 word) = length bs" if "length bs < 2 ^ 31"
    using that unfolding unat_of_nat by (intro mod_less) simp
  note run = assms(2) [unfolded hand_over_def if_P [OF True]]
  show ?thesis
  proof (rule jvmti_allocate_cases [OF assms(1), of "of_nat (length bs)" w], goal_cases fault empty fresh)
    case (fault e j)
    then have "\<exists>q. e = Panicked q" by (cases e rule: call_fault.cases) auto
    with fault run show ?case by auto
  next
    case (empty j)
    then have "bs = []" using len by (metis length_0_conv unsigned_0)
    with empty run show ?case by (auto simp: prog_simps write_block_def handed_over_def)
  next
    case (fresh p block j)
    have "bs \<noteq> []" using fresh(1) by auto
    moreover have "write_block p bs (w\<lparr>jvm := j, heap := (heap w)(p \<mapsto> block)\<rparr>) =
        (Inr (), w\<lparr>jvm := j, heap := (heap w)(p \<mapsto> bs)\<rparr>)"
      using fresh(4) len by (simp add: write_block_run)
    moreover have "heap w \<subseteq>\<^sub>m (heap w)(p \<mapsto> bs)" using fresh(3) by (auto simp: map_le_def)
    ultimately show ?case
      using fresh run small by (auto simp: prog_simps handed_over_def split: if_splits)
  qed
qed

text \<open>The hook after the configuration and the name are known.\<close>

definition hook_body ::
  "'j jvmti_table \<Rightarrow> os \<Rightarrow> PjAgentConf \<Rightarrow> string \<Rightarrow> byte list \<Rightarrow> ('j world, (32 word \<times> pointer) option) prog" where
  "hook_body J os c class_name class =
     seq (if debug_dump_classes_before_instr c then
            bnd (zoom files files_update
                   (dump_class_to_file (components ''classes/before_instr'') class_name class)) unwrap_ok
          else ret ())
     (bnd (case phasicj_exec c of
             None \<Rightarrow> instrument os using_system_path class
           | Some path \<Rightarrow> instrument os (wrap path) class) (\<lambda>instr_result.
     (case instr_result of
        Inl _ \<Rightarrow> ret None
      | Inr instrumented_class \<Rightarrow>
          seq (if debug_dump_classes_after_instr c then
                 bnd (zoom files files_update
                   (dump_class_to_file (components ''classes/after_instr'') class_name instrumented_class)) unwrap_ok
               else ret ())
          (hand_over J instrumented_class))))"

lemma hook_eq:
  "pj_class_file_load_hook J os name class_data_len class_data =
     bnd (EnvStorage_of J) (\<lambda>found.
     bnd (expect StorageMissing found) (\<lambda>env_storage.
     bnd (cstr_from_ptr name) (\<lambda>bytes.
     bnd (expect UnwrapNone (case to_str bytes of Inl _ \<Rightarrow> None | Inr s \<Rightarrow> Some s)) (\<lambda>class_name.
     if starts_with class_name ''phasicj/agent/rt/'' then ret None
     else bnd (slice_from_raw_parts class_data class_data_len)
            (\<lambda>class. hook_body J os (conf env_storage) class_name class)))))"
  unfolding pj_class_file_load_hook_def hook_body_def hand_over_def by (rule refl)

definition hook_frame :: "'j world \<Rightarrow> 'j world \<Rightarrow> bool" where
  "hook_frame w w' \<longleftrightarrow>
     heap w \<subseteq>\<^sub>m heap w' \<and> w' = w\<lparr>jvm := jvm w', heap := heap w', files := files w'\<rparr>"

lemma hook_frameI: "heap w \<subseteq>\<^sub>m h \<Longrightarrow> hook_frame w (w\<lparr>jvm := j, heap := h, files := f\<rparr>)"
  by (simp add: hook_frame_def)

lemma hook_frame_parts:
  assumes "hook_frame w w'"
  obtains j h f where "w' = w\<lparr>jvm := j, heap := h, files := f\<rparr>" and "heap w \<subseteq>\<^sub>m h"
  using assms unfolding hook_frame_def by metis

lemma hook_frame_same: "hook_frame w (w\<lparr>jvm := j\<rparr>)" "hook_frame w (w\<lparr>files := f\<rparr>)"
  by (simp_all add: hook_frame_def)

lemma hook_frame_trans:
  assumes "hook_frame u v" and "hook_frame v w"
  shows "hook_frame u w"
proof -
  from assms(1) obtain j h f where v: "v = u\<lparr>jvm := j, heap := h, files := f\<rparr>" "heap u \<subseteq>\<^sub>m h"
    by (rule hook_frame_parts)
  from assms(2) obtain k i g where w: "w = v\<lparr>jvm := k, heap := i, files := g\<rparr>" "heap v \<subseteq>\<^sub>m i"
    by (rule hook_frame_parts)
  from v w show ?thesis by (auto simp: hook_frame_def intro: map_le_trans)
qed

lemma hook_frame_holds: "hook_frame w w' \<Longrightarrow> holds_conf w c \<Longrightarrow> holds_conf w' c"
  by (elim hook_frame_parts) (auto intro: holds_conf_mono)

text \<open>What the hook hands back, by the outcome of the instrumenter.\<close>

definition hook_result ::
  "'j world \<Rightarrow> io_error + byte list \<Rightarrow> fault + (32 word \<times> pointer) option \<Rightarrow> 'j world \<Rightarrow> bool" where
  "hook_result w x r w' \<longleftrightarrow>
     (case r of
        Inl e \<Rightarrow> (\<exists>q. e = Panicked q)
      | Inr None \<Rightarrow> heap w' = heap w \<and> (\<exists>e. x = Inl e)
      | Inr (Some (n, p)) \<Rightarrow> \<exists>out. x = Inr out \<and> handed_over w out n p w')"

lemma hook_body_cases:
  assumes "jvmti_laws J" and "hook_body J os c n d w = (r, w')"
  shows "hook_frame w w' \<and> hook_result w (exec_outcome os (phasicj_exec c) d) r w'"
proof -
  let ?before = "if debug_dump_classes_before_instr c then
      bnd (zoom files files_update (dump_class_to_file (components ''classes/before_instr'') n d)) unwrap_ok
    else ret ()"
  obtain rb u where b: "?before w = (rb, u)" by fastforce
  from dump_step [OF b] obtain f where u: "u = w\<lparr>files := f\<rparr>"
    and rb: "\<forall>e. rb = Inl e \<longrightarrow> (\<exists>q. e = Panicked q)" by blast
  show ?thesis
  proof (cases rb)
    case (Inl e)
    with assms(2) b have "r = Inl e" "w' = u" by (simp_all add: hook_body_def)
    with rb Inl u show ?thesis by (auto simp: hook_result_def hook_frame_same)
  next
    case (Inr x)
    show ?thesis
    proof (cases "exec_outcome os (phasicj_exec c) d")
      case (Inl e)
      with assms(2) b \<open>rb = Inr x\<close> have "r = Inr None" "w' = u"
        by (simp_all add: hook_body_def instrument_conf ret_def)
      with Inl u show ?thesis by (auto simp: hook_result_def hook_frame_same)
    next
      case (Inr out)
      let ?after = "if debug_dump_classes_after_instr c then
          bnd (zoom files files_update (dump_class_to_file (components ''classes/after_instr'') n out)) unwrap_ok
        else ret ()"
      obtain ra v where a: "?after u = (ra, v)" by fastforce
      from dump_step [OF a] obtain g where v: "v = u\<lparr>files := g\<rparr>"
        and ra: "\<forall>e. ra = Inl e \<longrightarrow> (\<exists>q. e = Panicked q)" by blast
      have run: "(r, w') = seq ?after (hand_over J out) u"
        using assms(2) b \<open>rb = Inr x\<close> Inr
        by (simp add: hook_body_def instrument_conf)
      show ?thesis
      proof (cases ra)
        case (Inl e)
        with run a have "r = Inl e" "w' = v" by simp_all
        with ra Inl u v show ?thesis by (auto simp: hook_result_def hook_frame_def)
      next
        case (Inr y)
        with run a have h: "hand_over J out v = (r, w')" by simp
        note cases = hand_over_cases [OF assms(1) h]
        have hv: "heap v = heap w" using u v by simp
        have "hook_frame v w'" using cases unfolding hook_frame_def by auto
        then have "hook_frame w w'" using u v hook_frame_trans hook_frame_same(2) by metis
        moreover have "hook_result w (Inr out) r w'"
          using cases hv by (auto simp: hook_result_def handed_over_def)
        ultimately show ?thesis using \<open>exec_outcome os (phasicj_exec c) d = Inr out\<close> by simp
      qed
    qed
  qed
qed

section \<open>Progress\<close>

lemma hand_over_progress:
  assumes "jvmti_laws J" and "jvmti_obliging J H" and "H (Suc n) w" and "bs \<noteq> []" and "length bs < 2 ^ 31"
  obtains p k w' where "hand_over J bs w = (Inr (Some (k, p)), w')" "H n w'"
proof -
  have lt: "length bs < 2 ^ 63" using assms(5) by simp
  have len: "unat (of_nat (length bs) :: 64 word) = length bs"
    using lt unfolding unat_of_nat by (intro mod_less) simp
  then have pos: "0 < (of_nat (length bs) :: 64 word)"
    using assms(4) by (metis length_0_conv unsigned_0 word_gt_0)
  have max: "unat (of_nat (length bs) :: 64 word) \<le> max_block"
    using len assms(5) by (simp add: max_block_def)
  obtain p block j where a: "length block = length bs"
    "jvmti_allocate J (of_nat (length bs)) w = (Inr (Some p), w\<lparr>jvm := j, heap := (heap w)(p \<mapsto> block)\<rparr>)"
    "H n (w\<lparr>jvm := j, heap := (heap w)(p \<mapsto> block)\<rparr>)"
    by (rule jvmti_allocate_succeeds [OF assms(1-3) pos max]) (use len in auto)
  have "H n (w\<lparr>jvm := j, heap := (heap w)(p \<mapsto> bs)\<rparr>)"
    by (rule obliging_stable [OF assms(2) a(3)]) auto
  moreover have "hand_over J bs w = (Inr (Some (of_nat (length bs), p)), w\<lparr>jvm := j, heap := (heap w)(p \<mapsto> bs)\<rparr>)"
    using a(1,2) lt assms(5) by (simp add: hand_over_def prog_simps write_block_run)
  ultimately show thesis by (intro that)
qed

section \<open>Whole callbacks\<close>

text \<open>The JVM's promise about the class data it passes.\<close>

definition class_data_ok :: "32 word \<Rightarrow> byte list \<Rightarrow> bool" where
  "class_data_ok len data \<longleftrightarrow> 0 \<le> sint len \<and> unat len \<le> length data"

definition runtime_class :: "byte list \<Rightarrow> bool" where
  "runtime_class buf \<longleftrightarrow> starts_with (cstr_bytes buf) ''phasicj/agent/rt/''"

text \<open>
  What the hook has come to when it ends in \<open>r\<close>; without the frame, this is what
  \<open>hook_result\<close> says of its body.
\<close>

definition hook_outcome :: "os \<Rightarrow> PjAgentConf \<Rightarrow> byte list \<Rightarrow> byte list \<Rightarrow> 'j world \<Rightarrow>
    (32 word \<times> pointer) option result \<Rightarrow> 'j world \<Rightarrow> bool" where
  "hook_outcome os c buf d w r w' \<longleftrightarrow>
    (case r of
       Inl e \<Rightarrow> \<exists>q. e = Panicked q
     | Inr None \<Rightarrow> heap w' = heap w \<and>
         (runtime_class buf \<or> (\<exists>e. exec_outcome os (phasicj_exec c) d = Inl e))
     | Inr (Some (n, p)) \<Rightarrow> \<not> runtime_class buf \<and>
         (\<exists>out. exec_outcome os (phasicj_exec c) d = Inr out \<and> handed_over w out n p w'))"

text \<open>The ways out before the instrumenter is called, and the rest.\<close>

lemma hook_splits:
  assumes "jvmti_laws J" and "holds_conf w c" and "class_data_ok len data"
    and "pj_class_file_load_hook J os (Some buf) len data w = (r, w')"
  obtains (panics) q j where "r = Inl (Panicked q)" "w' = w\<lparr>jvm := j\<rparr>"
  | (keeps) j where "runtime_class buf" "r = Inr None" "w' = w\<lparr>jvm := j\<rparr>"
  | (works) j where "\<not> runtime_class buf"
      "hook_body J os c (cstr_bytes buf) (take (unat len) data) (w\<lparr>jvm := j\<rparr>) = (r, w')"
proof (rule of_cases [OF assms(1), of w], goal_cases fault vacant there)
  case (fault e j)
  then have "\<exists>q. e = Panicked q" by (cases e rule: call_fault.cases) auto
  with fault assms(4) show thesis by (auto simp: hook_eq intro: that(1))
next
  case (vacant j)
  with assms(2) show thesis by (simp add: holds_conf_def)
next
  case (there j)
  have slice: "slice_from_raw_parts data len = ret (take (unat len) data)"
    using assms(3) by (simp add: slice_from_raw_parts_def class_data_ok_def)
  from there(5) [OF assms(2)] assms(4) have run:
    "(if \<not> utf8_valid (cstr_bytes buf) then (Inl (Panicked UnwrapNone), w\<lparr>jvm := j\<rparr>)
      else if runtime_class buf then (Inr None, w\<lparr>jvm := j\<rparr>)
      else hook_body J os c (cstr_bytes buf) (take (unat len) data) (w\<lparr>jvm := j\<rparr>)) = (r, w')"
    by (simp add: hook_eq expect_def cstr_from_ptr_def to_str_def runtime_class_def slice throw_def ret_def
        split: if_splits)
  show thesis
  proof (cases "utf8_valid (cstr_bytes buf)")
    case False
    with run show thesis by (intro that(1) [of UnwrapNone j]) auto
  next
    case True
    with run show thesis by (cases "runtime_class buf") (auto intro: that)
  qed
qed

lemma hook_cases:
  assumes "jvmti_laws J" and "holds_conf w c" and "class_data_ok len data"
    and "pj_class_file_load_hook J os (Some buf) len data w = (r, w')"
  shows "hook_frame w w' \<and> holds_conf w' c \<and> hook_outcome os c buf (take (unat len) data) w r w'"
proof -
  have "hook_frame w w' \<and> hook_outcome os c buf (take (unat len) data) w r w'"
  proof (rule hook_splits [OF assms], goal_cases panics keeps works)
    case (works j)
    note body = hook_body_cases [OF assms(1) works(2)]
    have "hook_frame w w'"
      using hook_frame_trans [OF hook_frame_same(1) [of w j]] body by blast
    moreover have "handed_over (w\<lparr>jvm := j\<rparr>) = handed_over w"
      by (simp add: fun_eq_iff handed_over_def)
    ultimately show ?case using body works(1)
      by (auto simp: hook_result_def hook_outcome_def split: sum.splits option.splits)
  qed (simp_all add: hook_frame_same hook_outcome_def)
  then show ?thesis using hook_frame_holds assms(2) by blast
qed

lemma hook_nameless:
  assumes "jvmti_laws J" and "holds_conf w c" and "pj_class_file_load_hook J os None len data w = (r, w')"
  shows "hook_frame w w' \<and> holds_conf w' c \<and>
    ((\<exists>q. r = Inl (Panicked q)) \<or> r = Inl (Undefined DanglingRead))"
proof -
  have "hook_frame w w' \<and> ((\<exists>q. r = Inl (Panicked q)) \<or> r = Inl (Undefined DanglingRead))"
  proof (rule of_cases [OF assms(1), of w], goal_cases fault vacant there)
    case (fault e j)
    then have "\<exists>q. e = Panicked q" by (cases e rule: call_fault.cases) auto
    with fault assms(3) show ?case by (auto simp: hook_eq hook_frame_same)
  next
    case (vacant j)
    with assms(2) show ?case by (simp add: holds_conf_def)
  next
    case (there j)
    from there(2) [OF assms(2)] assms(3) have "r = Inl (Undefined DanglingRead)" "w' = w\<lparr>jvm := j\<rparr>"
      by (simp_all add: hook_eq expect_def cstr_from_ptr_def throw_def)
    then show ?case by (simp add: hook_frame_same)
  qed
  then show ?thesis using hook_frame_holds assms(2) by blast
qed

text \<open>Whatever is in the table, the start of the VM touches the JVM's own state at most.\<close>

lemma jni_unmoved [simp]:
  "\<exists>j l. w = w\<lparr>jvm := j, jni_calls := l\<rparr>" "\<exists>j l. w\<lparr>jvm := k\<rparr> = w\<lparr>jvm := j, jni_calls := l\<rparr>"
proof -
  have "w = w\<lparr>jvm := jvm w, jni_calls := jni_calls w\<rparr>" "w\<lparr>jvm := k\<rparr> = w\<lparr>jvm := k, jni_calls := jni_calls w\<rparr>"
    by simp_all
  then show "\<exists>j l. w = w\<lparr>jvm := j, jni_calls := l\<rparr>" "\<exists>j l. w\<lparr>jvm := k\<rparr> = w\<lparr>jvm := j, jni_calls := l\<rparr>" by blast+
qed

lemma jni_any:
  assumes "jni_laws N" and "cls \<noteq> 0"
  shows "\<exists>r j. find_class N name w = (r, w\<lparr>jvm := j\<rparr>) \<and> ((\<exists>q. r = Inl (Panicked q)) \<or> (\<exists>c. c \<noteq> 0 \<and> r = Inr c))"
    and "\<exists>r j. get_static_method_id N cls ''phasicj$agent$rt$enableInstrumentation'' ''()V'' w = (r, w\<lparr>jvm := j\<rparr>) \<and>
      ((\<exists>q. r = Inl (Panicked q)) \<or> (\<exists>m. r = Inr m \<and> (m = 0 \<longrightarrow> method_missing N)))"
    and "\<exists>r j l. call_static_void_method N cls m w = (r, w\<lparr>jvm := j, jni_calls := l\<rparr>) \<and>
      (r = Inr () \<or> (\<exists>q. r = Inl (Panicked q)) \<or> (r = Inl (Undefined NullCall) \<and> m = 0))"
proof -
  have laws: "entry_law (FindClass N) (\<lambda>f. \<forall>name w. \<exists>cls j. f name w = (cls, w\<lparr>jvm := j\<rparr>))"
    "entry_law (GetStaticMethodID N) (\<lambda>f. \<forall>cls name sig w. \<exists>m j. f cls name sig w = (m, w\<lparr>jvm := j\<rparr>))"
    "entry_law (CallStaticVoidMethod N) (\<lambda>f. \<forall>cls m w. \<exists>j.
       f cls m w = ((), w\<lparr>jvm := j, jni_calls := jni_calls w @ [(cls, m)]\<rparr>))"
    using assms(1) by (simp_all only: jni_laws_def)
  have same: "w = w\<lparr>jvm := jvm w\<rparr>" by simp
  show "\<exists>r j. find_class N name w = (r, w\<lparr>jvm := j\<rparr>) \<and> ((\<exists>q. r = Inl (Panicked q)) \<or> (\<exists>c. c \<noteq> 0 \<and> r = Inr c))"
  proof (cases "FindClass N")
    case None
    with same show ?thesis by (auto simp: find_class_def prog_simps)
  next
    case (Some f)
    with laws(1) obtain c j where "f name w = (c, w\<lparr>jvm := j\<rparr>)" by fastforce
    with Some show ?thesis by (cases "c = 0") (auto simp: find_class_def prog_simps foreign_def)
  qed
  show "\<exists>r j. get_static_method_id N cls ''phasicj$agent$rt$enableInstrumentation'' ''()V'' w = (r, w\<lparr>jvm := j\<rparr>) \<and>
      ((\<exists>q. r = Inl (Panicked q)) \<or> (\<exists>m. r = Inr m \<and> (m = 0 \<longrightarrow> method_missing N)))"
  proof (cases "GetStaticMethodID N")
    case None
    with same show ?thesis by (auto simp: get_static_method_id_def prog_simps)
  next
    case (Some f)
    let ?look = "f cls ''phasicj$agent$rt$enableInstrumentation'' ''()V'' w"
    from laws(2) Some obtain m j where f: "?look = (m, w\<lparr>jvm := j\<rparr>)" by fastforce
    have "method_missing N" if "m = 0"
      unfolding method_missing_def by (rule exI [of _ f], rule exI [of _ cls], rule exI [of _ w])
        (use that f Some assms(2) in simp)
    with Some f assms(2) show ?thesis by (auto simp: get_static_method_id_def prog_simps foreign_def)
  qed
  show "\<exists>r j l. call_static_void_method N cls m w = (r, w\<lparr>jvm := j, jni_calls := l\<rparr>) \<and>
      (r = Inr () \<or> (\<exists>q. r = Inl (Panicked q)) \<or> (r = Inl (Undefined NullCall) \<and> m = 0))"
  proof (cases "CallStaticVoidMethod N")
    case None
    then show ?thesis by (auto simp: call_static_void_method_def prog_simps)
  next
    case (Some f)
    with laws(3) obtain j where "f cls m w = ((), w\<lparr>jvm := j, jni_calls := jni_calls w @ [(cls, m)]\<rparr>)" by fastforce
    with Some assms(2) show ?thesis by (cases "m = 0") (auto simp: call_static_void_method_def prog_simps foreign_def)
  qed
qed

lemma vm_start_any:
  assumes "jni_laws N"
  shows "\<exists>r j l. pj_vm_start N w = (r, w\<lparr>jvm := j, jni_calls := l\<rparr>) \<and>
    (r = Inr () \<or> (\<exists>q. r = Inl (Panicked q)) \<or> (r = Inl (Undefined NullCall) \<and> method_missing N))"
proof -
  have names: "cstring_new ''java/lang/Object'' = Inr ''java/lang/Object''"
    "cstring_new ''phasicj$agent$rt$enableInstrumentation'' = Inr ''phasicj$agent$rt$enableInstrumentation''"
    "cstring_new ''()V'' = Inr ''()V''"
    by (simp_all add: cstring_new_def cstr_ok_def)
  have start: "pj_vm_start N w = bnd (find_class N ''java/lang/Object'') (\<lambda>cls.
      bnd (get_static_method_id N cls ''phasicj$agent$rt$enableInstrumentation'' ''()V'')
        (call_static_void_method N cls)) w"
    unfolding pj_vm_start_def enable_instrumentation_def names unwrap_ok_def by simp
  obtain r j where r: "find_class N ''java/lang/Object'' w = (r, w\<lparr>jvm := j\<rparr>)"
    "(\<exists>q. r = Inl (Panicked q)) \<or> (\<exists>c. c \<noteq> 0 \<and> r = Inr c)"
    using jni_any(1) [OF assms, of 1] by fastforce
  show ?thesis
  proof (cases r)
    case (Inl e)
    with r start show ?thesis by auto
  next
    case (Inr c)
    with r(2) have c: "c \<noteq> 0" by simp
    obtain x k where x: "get_static_method_id N c ''phasicj$agent$rt$enableInstrumentation'' ''()V'' (w\<lparr>jvm := j\<rparr>) =
        (x, w\<lparr>jvm := k\<rparr>)" "(\<exists>q. x = Inl (Panicked q)) \<or> (\<exists>m. x = Inr m \<and> (m = 0 \<longrightarrow> method_missing N))"
      using jni_any(2) [OF assms c, of "w\<lparr>jvm := j\<rparr>"] by auto
    show ?thesis
    proof (cases x)
      case (Inl e)
      with r x start Inr show ?thesis by auto
    next
      case m: (Inr m)
      obtain y i l where "call_static_void_method N c m (w\<lparr>jvm := k\<rparr>) = (y, w\<lparr>jvm := i, jni_calls := l\<rparr>)"
        "y = Inr () \<or> (\<exists>q. y = Inl (Panicked q)) \<or> (y = Inl (Undefined NullCall) \<and> m = 0)"
        using jni_any(3) [OF assms c, of m "w\<lparr>jvm := k\<rparr>"] by auto
      with r(1) x m start Inr show ?thesis by auto
    qed
  qed
qed

lemma vm_start_cases:
  assumes "jni_laws N" and "jni_provides N cls_of meth_of"
    and "cls = cls_of ''java/lang/Object''"
    and "meth = meth_of cls ''phasicj$agent$rt$enableInstrumentation'' ''()V''"
  shows "\<exists>j. pj_vm_start N w =
    (if cls = 0 then (Inl (Panicked BarePanic), w\<lparr>jvm := j\<rparr>)
     else if meth = 0 then (Inl (Undefined NullCall), w\<lparr>jvm := j\<rparr>)
     else (Inr (), w\<lparr>jvm := j, jni_calls := jni_calls w @ [(cls, meth)]\<rparr>))"
proof -
  have names: "cstring_new ''java/lang/Object'' = Inr ''java/lang/Object''"
    "cstring_new ''phasicj$agent$rt$enableInstrumentation'' = Inr ''phasicj$agent$rt$enableInstrumentation''"
    "cstring_new ''()V'' = Inr ''()V''"
    by (simp_all add: cstring_new_def cstr_ok_def)
  obtain j where j: "find_class N ''java/lang/Object'' w =
    ((if cls = 0 then Inl (Panicked BarePanic) else Inr cls), w\<lparr>jvm := j\<rparr>)"
    using assms(3) by (metis find_class_run [OF assms(1,2)])
  have start: "pj_vm_start N w = bnd (find_class N ''java/lang/Object'') (\<lambda>cls.
      bnd (get_static_method_id N cls ''phasicj$agent$rt$enableInstrumentation'' ''()V'')
        (call_static_void_method N cls)) w"
    unfolding pj_vm_start_def enable_instrumentation_def names unwrap_ok_def by simp
  show ?thesis
  proof (cases "cls = 0")
    case True
    with j start show ?thesis by auto
  next
    case False
    obtain k where k: "get_static_method_id N cls ''phasicj$agent$rt$enableInstrumentation'' ''()V''
        (w\<lparr>jvm := j\<rparr>) = (Inr meth, w\<lparr>jvm := k\<rparr>)"
      by (rule get_static_method_id_run [OF assms(1,2) False,
            of "''phasicj$agent$rt$enableInstrumentation''" "''()V''" "w\<lparr>jvm := j\<rparr>"])
         (simp add: assms(4))
    obtain l where l: "call_static_void_method N cls meth (w\<lparr>jvm := k\<rparr>) =
      (if cls = 0 \<or> meth = 0 then (Inl (Undefined NullCall), w\<lparr>jvm := k\<rparr>)
       else (Inr (), w\<lparr>jvm := k, jvm := l, jni_calls := jni_calls (w\<lparr>jvm := k\<rparr>) @ [(cls, meth)]\<rparr>))"
      by (rule call_static_void_method_run [OF assms(1,2)])
    have "pj_vm_start N w = call_static_void_method N cls meth (w\<lparr>jvm := k\<rparr>)"
      using start j k False by simp
    with l False show ?thesis by (cases "meth = 0") auto
  qed
qed

text \<open>The hook on a JVM that obliges.\<close>

lemma hook_replaces:
  assumes "jvmti_laws J" and "jvmti_obliging J H" and "H (Suc n) w" and "holds_conf w c"
    and "\<not> debug_dump_classes_before_instr c" and "\<not> debug_dump_classes_after_instr c"
    and "class_data_ok len data" and "utf8_valid (cstr_bytes buf)" and "\<not> runtime_class buf"
    and "exec_outcome os (phasicj_exec c) (take (unat len) data) = x"
    and "\<forall>out. x = Inr out \<longrightarrow> out \<noteq> [] \<and> length out < 2 ^ 31"
  shows "\<exists>res w'. pj_class_file_load_hook J os (Some buf) len data w = (Inr res, w') \<and> H n w' \<and>
    (\<forall>out. x = Inr out \<longrightarrow> (\<exists>k p. res = Some (k, p) \<and> heap w' p = Some out \<and> unat k = length out)) \<and>
    (\<forall>e. x = Inl e \<longrightarrow> res = None)"
proof -
  have slice: "slice_from_raw_parts data len = ret (take (unat len) data)"
    using assms(7) by (simp add: slice_from_raw_parts_def class_data_ok_def)
  obtain j where j: "EnvStorage_of J w = (Inr (Some \<lparr>conf = c\<rparr>), w\<lparr>jvm := j\<rparr>)" "H (Suc n) (w\<lparr>jvm := j\<rparr>)"
    by (rule of_progress [OF assms(1-4)])
  have run: "pj_class_file_load_hook J os (Some buf) len data w =
      (case x of Inl _ \<Rightarrow> ret None | Inr out \<Rightarrow> hand_over J out) (w\<lparr>jvm := j\<rparr>)"
    using j(1) assms(5,6,8-10)
    by (cases x) (simp_all add: hook_eq hook_body_def instrument_conf cstr_from_ptr_def to_str_def
        expect_def runtime_class_def slice)
  show ?thesis
  proof (cases x)
    case (Inl e)
    with run j(2) show ?thesis using obliging_Suc [of J H n "w\<lparr>jvm := j\<rparr>", OF assms(2)] by (simp add: ret_def)
  next
    case (Inr out)
    with assms(11) have out: "out \<noteq> []" "length out < 2 ^ 31" by auto
    obtain p k w' where h: "hand_over J out (w\<lparr>jvm := j\<rparr>) = (Inr (Some (k, p)), w')" "H n w'"
      by (rule hand_over_progress [OF assms(1,2) j(2) out])
    from hand_over_cases [OF assms(1) h(1)] out have "heap w' p = Some out" "unat k = length out"
      by (auto simp: handed_over_def)
    with h run Inr show ?thesis by simp
  qed
qed

lemma hook_keeps_own:
  assumes "jvmti_laws J" and "jvmti_obliging J H" and "H n w" and "holds_conf w c"
    and "utf8_valid (cstr_bytes buf)" and "runtime_class buf"
  shows "\<exists>w'. pj_class_file_load_hook J os (Some buf) len data w = (Inr None, w') \<and> H n w'"
proof -
  obtain j where "EnvStorage_of J w = (Inr (Some \<lparr>conf = c\<rparr>), w\<lparr>jvm := j\<rparr>)" "H n (w\<lparr>jvm := j\<rparr>)"
    by (rule of_progress [OF assms(1-4)])
  with assms(5,6) show ?thesis
    by (simp add: hook_eq expect_def cstr_from_ptr_def to_str_def runtime_class_def ret_def)
qed

lemma hook_returns:
  assumes "jvmti_laws J" and "jvmti_obliging J H" and "H (Suc n) w" and "holds_conf w c"
    and "\<not> debug_dump_classes_before_instr c" and "\<not> debug_dump_classes_after_instr c"
    and "class_data_ok len data" and "utf8_valid (cstr_bytes buf)"
    and "\<forall>out. exec_outcome os (phasicj_exec c) (take (unat len) data) = Inr out \<longrightarrow> out \<noteq> [] \<and> length out < 2 ^ 31"
  obtains res w' where "pj_class_file_load_hook J os (Some buf) len data w = (Inr res, w')" "H n w'"
proof (cases "runtime_class buf")
  case True
  from hook_keeps_own [OF assms(1,2) obliging_Suc [OF assms(2,3)] assms(4,8) True] obtain w' where
    "pj_class_file_load_hook J os (Some buf) len data w = (Inr None, w')" "H n w'" by blast
  then show thesis by (rule that)
next
  case False
  from hook_replaces [OF assms(1-8) False refl assms(9)] show thesis by (elim exE conjE) (rule that)
qed

section \<open>Properties\<close>

text \<open>
  C4. The class file load hook is safe but for one thing. With a configuration stored, whatever
  class the JVM passes it, it changes files and adds memory blocks at most, so the
  configuration stays stored. Given a class with a name, it either returns or panics and
  never runs into undefined behaviour: if it replaces the class, then by what the instrumenter
  returned for exactly the class's bytes, in a fresh block; and if it leaves the class as it
  is, then because it is one of the agent's own runtime classes or because the instrumenter
  failed, and no memory was allocated. Given a class without a name, it never returns: it
  reads the name through the null pointer, unless it has panicked before.
\<close>

theorem hook_contract:
  assumes "jvmti_laws J" and "holds_conf w c" and "class_data_ok len data"
    and "pj_class_file_load_hook J os name len data w = (r, w')"
  shows "hook_frame w w' \<and> holds_conf w' c \<and>
    (case name of
       None \<Rightarrow> (\<exists>q. r = Inl (Panicked q)) \<or> r = Inl (Undefined DanglingRead)
     | Some buf \<Rightarrow>
        (case r of
           Inl e \<Rightarrow> \<exists>q. e = Panicked q
         | Inr None \<Rightarrow> heap w' = heap w \<and>
             (runtime_class buf \<or> (\<exists>e. exec_outcome os (phasicj_exec c) (take (unat len) data) = Inl e))
         | Inr (Some (n, p)) \<Rightarrow> \<not> runtime_class buf \<and>
             (\<exists>out. exec_outcome os (phasicj_exec c) (take (unat len) data) = Inr out \<and>
                    handed_over w out n p w')))"
proof (cases name)
  case None
  with hook_nameless [OF assms(1,2)] assms(4) show ?thesis by simp
next
  case (Some buf)
  with hook_cases [OF assms(1-3)] assms(4) show ?thesis by (simp add: hook_outcome_def)
qed

text \<open>
  C10. On a JVM that obliges and can spare a block, with a configuration stored that asks for
  no dumps, every class that is not the agent's own and has a UTF-8 name is replaced when the
  instrumenter gives a non-empty class below the limit of a \<open>jint\<close>, and kept when the
  instrumenter fails: the hook returns in both cases.
\<close>

theorem hook_replaces_class:
  assumes "jvmti_laws J" and "jvmti_obliging J H" and "H (Suc n) w" and "holds_conf w c"
    and "\<not> debug_dump_classes_before_instr c" and "\<not> debug_dump_classes_after_instr c"
    and "class_data_ok len data" and "utf8_valid (cstr_bytes buf)" and "\<not> runtime_class buf"
    and "exec_outcome os (phasicj_exec c) (take (unat len) data) = x"
    and "\<forall>out. x = Inr out \<longrightarrow> out \<noteq> [] \<and> length out < 2 ^ 31"
  shows "\<exists>res w'. pj_class_file_load_hook J os (Some buf) len data w = (Inr res, w') \<and> H n w' \<and>
    (\<forall>out. x = Inr out \<longrightarrow> (\<exists>k p. res = Some (k, p) \<and> heap w' p = Some out \<and> unat k = length out)) \<and>
    (\<forall>e. x = Inl e \<longrightarrow> res = None)"
  by (rule hook_replaces [OF assms])

text \<open>An instrumenter for the examples: it turns any class into three fixed bytes.\<close>

definition sample_os :: os where
  "sample_os = (\<lambda>prog args. if prog = ''/opt/pj'' then Inr
     \<lparr>accepts = (\<lambda>_. Inr ()), ends = (\<lambda>_. Inr \<lparr>status_success = True, out_bytes = ''new''\<rparr>)\<rparr>
     else Inl NotFound)"

lemma sample_outcome: "exec_outcome sample_os (phasicj_exec sample_conf) d = Inr ''new''"
  by (simp add: exec_outcome_def process_outcome_def exec_program_def sample_os_def sample_conf_def)

lemma sample_class: "class_data_ok 3 ''old''" "utf8_valid (cstr_bytes ''a/B'')" "\<not> runtime_class ''a/B''"
  by (simp_all add: class_data_ok_def runtime_class_def cstr_bytes_def starts_with_def utf8_valid_def
      ascii_char_def byte_in_def)

theorem hook_contract_witness:
  "\<exists>r w'. pj_class_file_load_hook reference_jvmti sample_os (Some ''a/B'') 3 ''old'' stored_world = (r, w') \<and>
     holds_conf w' sample_conf \<and> (\<forall>u. r \<noteq> Inl (Undefined u))"
proof -
  obtain r w' where run:
    "pj_class_file_load_hook reference_jvmti sample_os (Some ''a/B'') 3 ''old'' stored_world = (r, w')"
    by fastforce
  from hook_contract [OF reference_laws stored_world(2) sample_class(1) run] have
    "holds_conf w' sample_conf" "\<forall>e. r = Inl e \<longrightarrow> (\<exists>q. e = Panicked q)" by (auto split: sum.splits)
  with run show ?thesis by blast
qed

theorem hook_replaces_class_witness:
  "\<exists>k p w'. pj_class_file_load_hook reference_jvmti sample_os (Some ''a/B'') 3 ''old'' stored_world =
     (Inr (Some (k, p)), w') \<and> heap w' p = Some ''new''"
proof -
  have "reference_healthy (Suc 4) stored_world" using stored_world(3) by simp
  from hook_replaces_class [OF reference_laws reference_obliging this stored_world(2) _ _ sample_class
      sample_outcome] show ?thesis
    by (auto simp: sample_conf_def)
qed

text \<open>
  C35. At the start of the VM the callback calls the static method
  \<open>phasicj$agent$rt$enableInstrumentation\<close> of \<open>java.lang.Object\<close> exactly once. Without the
  class it panics; with the class but without the method, whose null identifier no check
  catches, it makes the undefined call.
\<close>

theorem vm_start_outcome:
  assumes "jni_laws N" and "jni_provides N cls_of meth_of"
    and "cls = cls_of ''java/lang/Object''"
    and "meth = meth_of cls ''phasicj$agent$rt$enableInstrumentation'' ''()V''"
  shows "\<exists>j. pj_vm_start N w =
    (if cls = 0 then (Inl (Panicked BarePanic), w\<lparr>jvm := j\<rparr>)
     else if meth = 0 then (Inl (Undefined NullCall), w\<lparr>jvm := j\<rparr>)
     else (Inr (), w\<lparr>jvm := j, jni_calls := jni_calls w @ [(cls, meth)]\<rparr>))"
  by (rule vm_start_cases [OF assms])

theorem vm_start_outcome_witness:
  "\<exists>j. pj_vm_start (reference_jni (\<lambda>_. 7) (\<lambda>_ _ _. 0)) sample_world =
     (Inl (Undefined NullCall), sample_world\<lparr>jvm := j\<rparr>)"
  using vm_start_outcome [OF reference_jni_laws reference_jni_provides refl refl,
      of "\<lambda>_. 7" "\<lambda>_ _ _. 0" sample_world] by simp

text \<open>
  C36. A class without a name, for which the JVM passes a null pointer, is undefined
  behaviour: the hook reads the name through it before any test.
\<close>

theorem hook_null_name:
  assumes "jvmti_laws J" and "jvmti_obliging J H" and "H n w" and "holds_conf w c"
  shows "\<exists>w'. pj_class_file_load_hook J os None len data w = (Inl (Undefined DanglingRead), w')"
proof -
  obtain j where "EnvStorage_of J w = (Inr (Some \<lparr>conf = c\<rparr>), w\<lparr>jvm := j\<rparr>)"
    by (rule of_progress [OF assms])
  then show ?thesis by (simp add: hook_eq expect_def cstr_from_ptr_def throw_def)
qed

theorem hook_null_name_witness:
  "\<exists>w'. pj_class_file_load_hook reference_jvmti sample_os None 3 ''old'' stored_world =
     (Inl (Undefined DanglingRead), w')"
  by (rule hook_null_name [OF reference_laws reference_obliging stored_world(3,2)])

end
