(* ===== verification/Setup.thy ===== *)
theory Setup
  imports Events
begin

text \<open>
  Setting the agent up when the JVM loads it, \<^verbatim>\<open>phasicj/agent/jvm/setup.rs\<close>: store the
  configuration, check and claim the capabilities, register the callbacks, enable the
  events, put the embedded runtime jar on the boot class path, and start the thread that
  forwards events.
\<close>

section \<open>Operations\<close>

text \<open>What is built into the agent and what it asks of the process's environment.\<close>

record embedded =
  temp_dir :: path
  rt_jar :: "byte list"
  rt_jar_sha1_hash :: string
  current_dir :: "path option"
  info_enabled :: bool

definition expect_capability :: "32 word \<Rightarrow> ('w, unit) prog" where
  "expect_capability capa = (if capa = 0 then panic BarePanic else ret ())"

definition expect_jvmti_environment_provides_all_required_capabilities ::
  "'j jvmti_table \<Rightarrow> ('j world, unit) prog" where
  "expect_jvmti_environment_provides_all_required_capabilities env =
     bnd (get_potential_capabilities env) (\<lambda>capa.
     seq (expect_capability (can_generate_all_class_hook_events capa))
       (expect_capability (can_generate_early_class_hook_events capa)))"

definition add_all_required_capabilities :: "'j jvmti_table \<Rightarrow> ('j world, unit) prog" where
  "add_all_required_capabilities env =
     bnd (get_capabilities env) (\<lambda>capa.
     add_capabilities env
       (capa\<lparr>can_generate_all_class_hook_events := 1, can_generate_early_class_hook_events := 1\<rparr>))"

definition set_all_event_callbacks :: "'j jvmti_table \<Rightarrow> ('j world, unit) prog" where
  "set_all_event_callbacks env = set_event_callbacks env get_initial_agent_callbacks"

definition set_all_event_notification_modes :: "'j jvmti_table \<Rightarrow> ('j world, unit) prog" where
  "set_all_event_notification_modes env =
     (let all_threads = 0 in
      seq (set_event_notification_mode env JVMTI_ENABLE JVMTI_EVENT_CLASS_FILE_LOAD_HOOK all_threads)
      (seq (set_event_notification_mode env JVMTI_ENABLE JVMTI_EVENT_VM_START all_threads)
      (seq (set_event_notification_mode env JVMTI_ENABLE JVMTI_EVENT_VM_INIT all_threads)
        (set_event_notification_mode env JVMTI_ENABLE JVMTI_EVENT_VM_DEATH all_threads))))"

text \<open>\<open>Path::to_str\<close> is none for a path that is not UTF-8.\<close>

definition path_to_str :: "path \<Rightarrow> string option" where
  "path_to_str p = (if utf8_valid (path_str p) then Some (path_str p) else None)"

definition add_embedded_jar_to_bootstrap_class_loader_search ::
  "'j jvmti_table \<Rightarrow> embedded \<Rightarrow> ('j world, unit) prog" where
  "add_embedded_jar_to_bootstrap_class_loader_search env E =
     (let path = rt_jar_default_temp_file_path (temp_dir E) (rt_jar_sha1_hash E) in
      seq (bnd (zoom files files_update (write_rt_jar_file_if_missing (rt_jar E) path)) unwrap_ok)
      (bnd (expect UnwrapNone (path_to_str path)) (\<lambda>text.
       bnd (unwrap_ok (cstring_new text)) (\<lambda>cpath.
       add_to_bootstrap_class_loader_search env cpath))))"

definition configure_jvmti_env :: "'j jvmti_table \<Rightarrow> embedded \<Rightarrow> PjAgentConf \<Rightarrow> ('j world, unit) prog" where
  "configure_jvmti_env env E c =
     seq (EnvStorage_init env c)
     (seq (expect_jvmti_environment_provides_all_required_capabilities env)
     (seq (add_all_required_capabilities env)
     (seq (set_all_event_callbacks env)
     (seq (set_all_event_notification_modes env)
       (add_embedded_jar_to_bootstrap_class_loader_search env E)))))"

text \<open>The environment's pointer is dereferenced as it comes.\<close>

definition setup_agent :: "'j java_vm \<Rightarrow> embedded \<Rightarrow> PjAgentConf \<Rightarrow> ('j world, unit) prog" where
  "setup_agent vm E c =
     bnd (get_env vm) (\<lambda>env.
     case env of
       None \<Rightarrow> throw (Undefined DanglingRead)
     | Some J \<Rightarrow>
         seq (configure_jvmti_env J E c)
           (zoom recorder_state recorder_state_update start_forwarding_worker_thread))"

section \<open>Calls as steps of a proof\<close>

lemma triple_acts:
  assumes "acts get upd m"
    and "\<And>w j. P w \<Longrightarrow> Q (get w) ((upd w)\<lparr>jvm := j\<rparr>)"
    and "\<And>w j e. P w \<Longrightarrow> call_fault e \<Longrightarrow> E e (w\<lparr>jvm := j\<rparr>)"
  shows "triple P m Q E"
proof (rule tripleI)
  fix w x w' assume "P w" "m w = (Inr x, w')"
  then show "Q x w'" using assms(2) by (cases rule: actsE [OF assms(1), of w]) auto
next
  fix w e w' assume "P w" "m w = (Inl e, w')"
  then show "E e w'" using assms(3) by (cases rule: actsE [OF assms(1), of w]) auto
qed

lemma yields_acts:
  assumes "acts get upd m" and "succeeds H m"
    and "\<And>w j. P w \<Longrightarrow> H n w \<Longrightarrow> Q (get w) ((upd w)\<lparr>jvm := j\<rparr>)"
  shows "yields (\<lambda>w. H n w \<and> P w) m (\<lambda>x w. H n w \<and> Q x w)"
proof (rule yieldsI)
  fix w assume "H n w \<and> P w"
  then obtain j where "m w = (Inr (get w), (upd w)\<lparr>jvm := j\<rparr>)" "H n ((upd w)\<lparr>jvm := j\<rparr>)"
    using acts_succeeds [OF assms(1,2)] by blast
  with assms(3) \<open>H n w \<and> P w\<close> show "\<exists>x t. m w = (Inr x, t) \<and> H n t \<and> Q x t" by blast
qed

section \<open>Stages\<close>

definition agent_events :: "32 word list" where
  "agent_events = [JVMTI_EVENT_CLASS_FILE_LOAD_HOOK, JVMTI_EVENT_VM_START, JVMTI_EVENT_VM_INIT,
     JVMTI_EVENT_VM_DEATH]"

definition caps_claimed :: "'j world \<Rightarrow> bool" where
  "caps_claimed w \<longleftrightarrow>
     can_generate_all_class_hook_events (capabilities w) = 1 \<and>
     can_generate_early_class_hook_events (capabilities w) = 1"

text \<open>
  What the events rely on: the configuration is stored, the capabilities are claimed, and the
  callbacks are the agent's.
\<close>

definition ready :: "PjAgentConf \<Rightarrow> 'j world \<Rightarrow> bool" where
  "ready c w \<longleftrightarrow> holds_conf w c \<and> caps_claimed w \<and> callbacks w = get_initial_agent_callbacks"

definition jar_path :: "embedded \<Rightarrow> path" where
  "jar_path E = rt_jar_default_temp_file_path (temp_dir E) (rt_jar_sha1_hash E)"

text \<open>The parts that a stage has not come to are as they were at the start.\<close>

definition files_kept :: "embedded \<Rightarrow> 'j world \<Rightarrow> 'j world \<Rightarrow> bool" where
  "files_kept E w0 w \<longleftrightarrow>
     dirs_added (files w0) (files w\<lparr>nodes := (nodes (files w))(jar_path E := nodes (files w0) (jar_path E))\<rparr>)"

definition untouched :: "'j world \<Rightarrow> 'j world \<Rightarrow> bool" where
  "untouched w0 w \<longleftrightarrow>
     enabled w = enabled w0 \<and> boot_search w = boot_search w0 \<and>
     recorder_state w = recorder_state w0 \<and> files w = files w0 \<and> logger_set w = logger_set w0"

definition enabled_first :: "nat \<Rightarrow> PjAgentConf \<Rightarrow> 'j world \<Rightarrow> 'j world \<Rightarrow> bool" where
  "enabled_first k c w0 w \<longleftrightarrow>
     ready c w \<and> enabled w = enabled w0 @ take k agent_events \<and>
     boot_search w = boot_search w0 \<and> recorder_state w = recorder_state w0 \<and> files w = files w0 \<and>
     logger_set w = logger_set w0"

definition jar_there :: "embedded \<Rightarrow> 'j world \<Rightarrow> 'j world \<Rightarrow> bool" where
  "jar_there E w0 w \<longleftrightarrow>
     (\<not> present (files w0) (jar_path E) \<longrightarrow> nodes (files w) (jar_path E) = Some (File (rt_jar E)))"

definition configured :: "PjAgentConf \<Rightarrow> embedded \<Rightarrow> 'j world \<Rightarrow> 'j world \<Rightarrow> bool" where
  "configured c E w0 w \<longleftrightarrow>
     ready c w \<and> enabled w = enabled w0 @ agent_events \<and>
     boot_search w = boot_search w0 @ [path_str (jar_path E)] \<and>
     jar_there E w0 w \<and> files_kept E w0 w \<and> recorder_state w = recorder_state w0 \<and>
     logger_set w = logger_set w0"

text \<open>
  A set-up that fails has enabled no event before everything the events rely on was there,
  and has put nothing on the boot class path.
\<close>

definition given_up :: "PjAgentConf \<Rightarrow> embedded \<Rightarrow> 'j world \<Rightarrow> fault \<Rightarrow> 'j world \<Rightarrow> bool" where
  "given_up c E w0 e w \<longleftrightarrow>
     (\<exists>q. e = Panicked q) \<and> (enabled w = enabled w0 \<or> ready c w) \<and>
     boot_search w = boot_search w0 \<and> files_kept E w0 w \<and> recorder_state w = recorder_state w0 \<and>
     logger_set w = logger_set w0"

lemma holds_conf_other [simp]:
  "holds_conf (w\<lparr>capabilities := a\<rparr>) c = holds_conf w c"
  "holds_conf (w\<lparr>callbacks := b\<rparr>) c = holds_conf w c"
  "holds_conf (w\<lparr>enabled := n\<rparr>) c = holds_conf w c"
  "holds_conf (w\<lparr>boot_search := s\<rparr>) c = holds_conf w c"
  "holds_conf (w\<lparr>files := f\<rparr>) c = holds_conf w c"
  "holds_conf (w\<lparr>recorder_state := r\<rparr>) c = holds_conf w c"
  "holds_conf (w\<lparr>jni_calls := l\<rparr>) c = holds_conf w c"
  by (simp_all add: holds_conf_def exec_stored_def cong: option.case_cong)

lemma files_kept_same: "files w = files w0 \<Longrightarrow> files_kept E w0 w"
  by (simp add: files_kept_def dirs_added_refl)

lemma given_up_untouched: "(\<exists>q. e = Panicked q) \<Longrightarrow> untouched w0 w \<Longrightarrow> given_up c E w0 e w"
  by (simp add: given_up_def untouched_def files_kept_same)

lemma given_up_enabled: "(\<exists>q. e = Panicked q) \<Longrightarrow> enabled_first k c w0 w \<Longrightarrow> given_up c E w0 e w"
  by (simp add: given_up_def enabled_first_def files_kept_same)

lemma untouched_jvm [simp]:
  "untouched w0 (w\<lparr>jvm := j\<rparr>) = untouched w0 w"
  "untouched w0 (w\<lparr>capabilities := a\<rparr>) = untouched w0 w"
  "untouched w0 (w\<lparr>callbacks := b\<rparr>) = untouched w0 w"
  by (simp_all add: untouched_def)

lemma ready_jvm [simp]: "ready c (w\<lparr>jvm := j\<rparr>) = ready c w"
  by (simp add: ready_def caps_claimed_def)

section \<open>Each stage, whatever the JVM does\<close>

lemma heap_grown_parts:
  assumes "heap_grown w w'"
  obtains j h p where "w' = w\<lparr>jvm := j, heap := h, env_local := p\<rparr>" and "heap w \<subseteq>\<^sub>m h"
  using assms unfolding heap_grown_def by blast

lemma heap_grown_untouched: "heap_grown w w' \<Longrightarrow> untouched w w'"
  by (elim heap_grown_parts) (simp add: untouched_def)

lemma init_stage:
  assumes "jvmti_laws J" and "storable c"
  shows "triple (\<lambda>w. w = w0 \<and> env_local w0 = 0) (EnvStorage_init J c)
    (\<lambda>_ w. holds_conf w c \<and> untouched w0 w) (given_up c E w0)"
proof (rule tripleI)
  fix w x w' assume "w = w0 \<and> env_local w0 = 0" and run: "EnvStorage_init J c w = (Inr x, w')"
  then have "env_local w = 0" by simp
  from init_cases [OF assms(1) this assms(2)] run \<open>w = w0 \<and> env_local w0 = 0\<close>
  show "holds_conf w' c \<and> untouched w0 w'"
    by (metis Inl_Inr_False Pair_inject heap_grown_untouched)
next
  fix w e w' assume "w = w0 \<and> env_local w0 = 0" and run: "EnvStorage_init J c w = (Inl e, w')"
  then have "env_local w = 0" by simp
  from init_cases [OF assms(1) this assms(2)] run \<open>w = w0 \<and> env_local w0 = 0\<close>
  have "storage_fault e \<and> untouched w0 w'"
    by (metis Inl_Inr_False Pair_inject Inl_inject heap_grown_untouched)
  moreover have "\<exists>q. e = Panicked q" if "storage_fault e"
    using that by (cases e rule: storage_fault.cases) auto
  ultimately show "given_up c E w0 e w'" by (intro given_up_untouched) auto
qed

lemma triple_expect_capability:
  assumes "\<And>w. P w \<Longrightarrow> E (Panicked BarePanic) w"
  shows "triple P (expect_capability x) (\<lambda>_. P) E"
  using assms by (simp add: triple_def expect_capability_def prog_simps)

lemma expect_stage:
  assumes "jvmti_laws J" and "\<And>w j. P w \<Longrightarrow> P (w\<lparr>jvm := j\<rparr>)"
    and "\<And>w e. P w \<Longrightarrow> \<exists>q. e = Panicked q \<Longrightarrow> F e w"
  shows "triple P (expect_jvmti_environment_provides_all_required_capabilities J) (\<lambda>_. P) F"
  unfolding expect_jvmti_environment_provides_all_required_capabilities_def
proof (rule triple_bnd)
  show "triple P (get_potential_capabilities J) (\<lambda>_. P) F"
    by (rule triple_acts [OF potential_acts [OF assms(1)]])
       (auto simp: assms(2) intro!: assms(3) call_fault_panics)
next
  fix capa
  show "triple P (seq (expect_capability (can_generate_all_class_hook_events capa))
      (expect_capability (can_generate_early_class_hook_events capa))) (\<lambda>_. P) F"
    by (rule triple_bnd [where R = "\<lambda>_. P"]; rule triple_expect_capability) (auto intro: assms(3))
qed

lemma add_capabilities_stage:
  assumes "jvmti_laws J"
  shows "triple (\<lambda>w. holds_conf w c \<and> untouched w0 w) (add_all_required_capabilities J)
    (\<lambda>_ w. holds_conf w c \<and> untouched w0 w \<and> caps_claimed w) (given_up c E w0)"
  unfolding add_all_required_capabilities_def
proof (rule triple_bnd)
  show "triple (\<lambda>w. holds_conf w c \<and> untouched w0 w) (get_capabilities J)
      (\<lambda>_ w. holds_conf w c \<and> untouched w0 w) (given_up c E w0)"
    by (rule triple_acts [OF capabilities_acts [OF assms]])
       (auto intro: given_up_untouched call_fault_panics)
next
  fix capa
  show "triple (\<lambda>w. holds_conf w c \<and> untouched w0 w)
      (add_capabilities J (capa\<lparr>can_generate_all_class_hook_events := 1,
         can_generate_early_class_hook_events := 1\<rparr>))
      (\<lambda>_ w. holds_conf w c \<and> untouched w0 w \<and> caps_claimed w) (given_up c E w0)"
    by (rule triple_acts [OF add_capabilities_acts [OF assms]])
       (auto simp: caps_claimed_def intro: given_up_untouched call_fault_panics)
qed

lemma callbacks_stage:
  assumes "jvmti_laws J"
  shows "triple (\<lambda>w. holds_conf w c \<and> untouched w0 w \<and> caps_claimed w) (set_all_event_callbacks J)
    (\<lambda>_. enabled_first 0 c w0) (given_up c E w0)"
  unfolding set_all_event_callbacks_def
  by (rule triple_acts [OF set_event_callbacks_acts [OF assms]])
     (auto simp: caps_claimed_def enabled_first_def ready_def untouched_def
        intro: given_up_untouched call_fault_panics)

lemma enabled_first_step:
  assumes "enabled_first k c w0 w" and "k < 4"
  shows "enabled_first (Suc k) c w0 (add_event (agent_events ! k) w)"
proof -
  have "k < length agent_events" using assms(2) by (simp add: agent_events_def)
  then have "take (Suc k) agent_events = take k agent_events @ [agent_events ! k]"
    by (rule take_Suc_conv_app_nth)
  with assms(1) show ?thesis
    by (simp add: enabled_first_def add_event_def ready_def caps_claimed_def)
qed

lemma enabled_first_jvm [simp]: "enabled_first k c w0 (w\<lparr>jvm := j\<rparr>) = enabled_first k c w0 w"
  by (simp add: enabled_first_def)

lemma notification_stage:
  assumes "jvmti_laws J" and "k < 4"
  shows "triple (enabled_first k c w0) (set_event_notification_mode J JVMTI_ENABLE (agent_events ! k) 0)
    (\<lambda>_. enabled_first (Suc k) c w0) (given_up c E w0)"
  by (rule triple_acts [OF notification_acts [OF assms(1)]])
     (auto intro: given_up_enabled call_fault_panics enabled_first_step assms(2))

lemma agent_events_nth:
  "agent_events ! 0 = JVMTI_EVENT_CLASS_FILE_LOAD_HOOK" "agent_events ! Suc 0 = JVMTI_EVENT_VM_START"
  "agent_events ! 2 = JVMTI_EVENT_VM_INIT" "agent_events ! 3 = JVMTI_EVENT_VM_DEATH"
  by (simp_all add: agent_events_def)

lemma notifications_stage:
  assumes "jvmti_laws J"
  shows "triple (enabled_first 0 c w0) (set_all_event_notification_modes J)
    (\<lambda>_. enabled_first 4 c w0) (given_up c E w0)"
  unfolding set_all_event_notification_modes_def Let_def agent_events_nth [symmetric]
  using notification_stage [OF assms, of 0 c w0 E] notification_stage [OF assms, of 1 c w0 E]
    notification_stage [OF assms, of 2 c w0 E] notification_stage [OF assms, of 3 c w0 E]
  by (intro triple_bnd) (simp_all add: numeral_2_eq_2 numeral_3_eq_3 eval_nat_numeral)

lemma write_rt_jar_faults:
  assumes "write_rt_jar_file_if_missing d p f = (Inl e, g)"
  shows "e = Panicked ParentMissing"
proof -
  have io: "create_dir_all q f \<noteq> (Inl e, h)" for q f h
    using make_dirs_cases unfolding create_dir_all_def by fastforce
  have cr: "file_create q f \<noteq> (Inl e, h)" for q f h
    using file_create_cases by fastforce
  have wr: "file_write_all q d f \<noteq> (Inl e, h)" for q f h
    using file_write_all_cases by fastforce
  have sy: "file_sync_all q f \<noteq> (Inl e, h)" for q f h
    using file_sync_all_cases by fastforce
  have ex: "path_exists q f \<noteq> (Inl e, h)" for q f h
    using path_exists_cases by fastforce
  from assms show ?thesis
    by (auto simp: write_rt_jar_file_if_missing_def prog_inv io cr wr sy ex split: if_splits)
qed

definition jar_written :: "PjAgentConf \<Rightarrow> embedded \<Rightarrow> 'j world \<Rightarrow> 'j world \<Rightarrow> bool" where
  "jar_written c E w0 w \<longleftrightarrow>
     ready c w \<and> enabled w = enabled w0 @ agent_events \<and> boot_search w = boot_search w0 \<and>
     jar_there E w0 w \<and> files_kept E w0 w \<and> recorder_state w = recorder_state w0 \<and>
     logger_set w = logger_set w0"

lemma jar_written_jvm [simp]: "jar_written c E w0 (w\<lparr>jvm := j\<rparr>) = jar_written c E w0 w"
  by (simp add: jar_written_def jar_there_def files_kept_def)

lemma given_up_written: "(\<exists>q. e = Panicked q) \<Longrightarrow> jar_written c E w0 w \<Longrightarrow> given_up c E w0 e w"
  by (simp add: given_up_def jar_written_def)

lemma write_stage:
  "triple (enabled_first 4 c w0)
     (bnd (zoom files files_update (write_rt_jar_file_if_missing (rt_jar E) (jar_path E))) unwrap_ok)
     (\<lambda>_. jar_written c E w0) (given_up c E w0)"
proof -
  have events: "take 4 agent_events = agent_events" by (simp add: agent_events_def)
  have zoom: "\<exists>x g. write_rt_jar_file_if_missing (rt_jar E) (jar_path E) (files w0) = (x, g) \<and>
      zoom files files_update (write_rt_jar_file_if_missing (rt_jar E) (jar_path E)) w = (x, w\<lparr>files := g\<rparr>) \<and>
      files_kept E w0 (w\<lparr>files := g\<rparr>) \<and> (x = Inr (Inr ()) \<longrightarrow> jar_there E w0 (w\<lparr>files := g\<rparr>))"
    if "enabled_first 4 c w0 w" for w
  proof -
    have f: "files w = files w0" using that by (simp add: enabled_first_def)
    obtain x g where x: "write_rt_jar_file_if_missing (rt_jar E) (jar_path E) (files w0) = (x, g)" by fastforce
    then have "zoom files files_update (write_rt_jar_file_if_missing (rt_jar E) (jar_path E)) w =
        (x, w\<lparr>files := g\<rparr>)" by (simp add: zoom_def f)
    moreover have "files_kept E w0 (w\<lparr>files := g\<rparr>)" using rt_jar.frame [OF x] by (simp add: files_kept_def)
    moreover have "x = Inr (Inr ()) \<longrightarrow> jar_there E w0 (w\<lparr>files := g\<rparr>)"
      using rt_jar.delivers x by (auto simp: jar_there_def)
    ultimately show ?thesis using x by blast
  qed
  show ?thesis
  proof (rule tripleI)
    fix w y w' assume en: "enabled_first 4 c w0 w"
      and run: "bnd (zoom files files_update (write_rt_jar_file_if_missing (rt_jar E) (jar_path E)))
        unwrap_ok w = (Inr y, w')"
    from zoom [OF en] run obtain g where "w' = w\<lparr>files := g\<rparr>"
      "files_kept E w0 w'" "jar_there E w0 w'"
      by (auto simp: prog_inv)
    with en events show "jar_written c E w0 w'"
      by (simp add: jar_written_def enabled_first_def ready_def caps_claimed_def)
  next
    fix w e w' assume en: "enabled_first 4 c w0 w"
      and run: "bnd (zoom files files_update (write_rt_jar_file_if_missing (rt_jar E) (jar_path E)))
        unwrap_ok w = (Inl e, w')"
    from zoom [OF en] run write_rt_jar_faults obtain g where "w' = w\<lparr>files := g\<rparr>"
      "files_kept E w0 w'" "\<exists>q. e = Panicked q"
      by (fastforce simp: prog_inv)
    with en show "given_up c E w0 e w'"
      by (simp add: given_up_def enabled_first_def ready_def caps_claimed_def)
  qed
qed

lemma triple_expect: "(\<And>w. P w \<Longrightarrow> F (Panicked p) w) \<Longrightarrow>
    triple P (expect p v) (\<lambda>x w. P w \<and> v = Some x) F"
  by (simp add: triple_def prog_simps split: option.split)

lemma triple_unwrap_ok: "(\<And>w. P w \<Longrightarrow> F (Panicked UnwrapErr) w) \<Longrightarrow>
    triple P (unwrap_ok v) (\<lambda>x w. P w \<and> v = Inr x) F"
  by (simp add: triple_def prog_simps split: sum.split)

lemma jar_stage:
  assumes "jvmti_laws J"
  shows "triple (enabled_first 4 c w0) (add_embedded_jar_to_bootstrap_class_loader_search J E)
    (\<lambda>_. configured c E w0) (given_up c E w0)"
  unfolding add_embedded_jar_to_bootstrap_class_loader_search_def Let_def jar_path_def [symmetric]
proof (rule triple_bnd [OF write_stage], rule triple_bnd, rule triple_expect)
  fix t
  show "triple (\<lambda>w. jar_written c E w0 w \<and> path_to_str (jar_path E) = Some t)
     (bnd (unwrap_ok (cstring_new t)) (add_to_bootstrap_class_loader_search J))
     (\<lambda>_. configured c E w0) (given_up c E w0)"
  proof (rule triple_bnd, rule triple_unwrap_ok)
    fix cpath
    show "triple (\<lambda>w. (jar_written c E w0 w \<and> path_to_str (jar_path E) = Some t) \<and>
        cstring_new t = Inr cpath)
       (add_to_bootstrap_class_loader_search J cpath) (\<lambda>_. configured c E w0) (given_up c E w0)"
      by (rule triple_acts [OF boot_search_acts [OF assms]])
         (auto simp: jar_written_def configured_def path_to_str_def cstring_new_def jar_there_def
            files_kept_def ready_def caps_claimed_def split: if_splits
            intro: given_up_written [unfolded jar_written_def] call_fault_panics)
  qed (auto intro: given_up_written)
qed (auto intro: given_up_written)

lemma configure_stages:
  assumes "jvmti_laws J" and "storable c"
  shows "triple (\<lambda>w. w = w0 \<and> env_local w0 = 0) (configure_jvmti_env J E c)
    (\<lambda>_. configured c E w0) (given_up c E w0)"
  unfolding configure_jvmti_env_def
proof (intro triple_bnd)
  show "triple (\<lambda>w. w = w0 \<and> env_local w0 = 0) (EnvStorage_init J c)
      (\<lambda>_ w. holds_conf w c \<and> untouched w0 w) (given_up c E w0)"
    by (rule init_stage [OF assms])
  show "triple (\<lambda>w. holds_conf w c \<and> untouched w0 w)
      (expect_jvmti_environment_provides_all_required_capabilities J)
      (\<lambda>_ w. holds_conf w c \<and> untouched w0 w) (given_up c E w0)"
    by (rule expect_stage [OF assms(1)]) (auto intro: given_up_untouched)
  show "triple (\<lambda>w. holds_conf w c \<and> untouched w0 w) (add_all_required_capabilities J)
      (\<lambda>_ w. holds_conf w c \<and> untouched w0 w \<and> caps_claimed w) (given_up c E w0)"
    by (rule add_capabilities_stage [OF assms(1)])
  show "triple (\<lambda>w. holds_conf w c \<and> untouched w0 w \<and> caps_claimed w) (set_all_event_callbacks J)
      (\<lambda>_. enabled_first 0 c w0) (given_up c E w0)"
    by (rule callbacks_stage [OF assms(1)])
  show "triple (enabled_first 0 c w0) (set_all_event_notification_modes J)
      (\<lambda>_. enabled_first 4 c w0) (given_up c E w0)"
    by (rule notifications_stage [OF assms(1)])
  show "triple (enabled_first 4 c w0) (add_embedded_jar_to_bootstrap_class_loader_search J E)
      (\<lambda>_. configured c E w0) (given_up c E w0)"
    by (rule jar_stage [OF assms(1)])
qed

section \<open>The whole set-up\<close>

text \<open>
  \<open>GetEnv\<close> writes the environment when it succeeds; the environment it gives is one
  table.
\<close>

definition vm_laws :: "'j java_vm \<Rightarrow> 'j jvmti_table \<Rightarrow> bool" where
  "vm_laws vm J \<longleftrightarrow> entry_law (GetEnv vm)
     (\<lambda>f. \<forall>v w err out w'. f v w = ((err, out), w') \<longrightarrow>
        (\<exists>j. w' = w\<lparr>jvm := j\<rparr>) \<and> (err = JNI_OK \<longrightarrow> out = Some J))"

definition vm_obliging :: "'j java_vm \<Rightarrow> (nat \<Rightarrow> 'j world \<Rightarrow> bool) \<Rightarrow> bool" where
  "vm_obliging vm H \<longleftrightarrow> entry_obliging (GetEnv vm)
     (\<lambda>f. \<forall>n w. H n w \<longrightarrow> (\<exists>out w'. f JVMTI_VERSION_11 w = ((JNI_OK, out), w') \<and> H n w'))"

definition reference_vm :: "nat java_vm" where
  "reference_vm = \<lparr>GetEnv = Some (\<lambda>_ w. ((JNI_OK, Some reference_jvmti), w))\<rparr>"

lemma reference_vm_laws: "vm_laws reference_vm reference_jvmti"
  by (simp add: vm_laws_def reference_vm_def)

lemma reference_vm_obliging: "vm_obliging reference_vm reference_healthy"
  by (simp add: vm_obliging_def reference_vm_def entry_obliging_def)

lemma get_env_cases:
  assumes "vm_laws vm J" and "get_env vm w = (r, w')"
  shows "(\<exists>j. w' = w\<lparr>jvm := j\<rparr>) \<and> (r = Inr (Some J) \<or> (\<exists>q. r = Inl (Panicked q)))"
proof (cases "GetEnv vm")
  case None
  with assms(2) show ?thesis by (auto simp: get_env_def prog_simps)
next
  case (Some f)
  obtain err out u where f: "f JVMTI_VERSION_11 w = ((err, out), u)" by (metis surj_pair)
  with assms(1) Some have "(\<exists>j. u = w\<lparr>jvm := j\<rparr>) \<and> (err = JNI_OK \<longrightarrow> out = Some J)"
    unfolding vm_laws_def by fastforce
  with assms(2) Some f show ?thesis
    by (auto simp: get_env_def prog_simps foreign_def jni_check_def split: if_splits)
qed

lemma get_env_yields:
  assumes "vm_laws vm J" and "vm_obliging vm H" and "H n w"
  obtains j where "get_env vm w = (Inr (Some J), w\<lparr>jvm := j\<rparr>)" "H n (w\<lparr>jvm := j\<rparr>)"
proof -
  have "entry_obliging (GetEnv vm)
     (\<lambda>f. \<forall>n w. H n w \<longrightarrow> (\<exists>out w'. f JVMTI_VERSION_11 w = ((JNI_OK, out), w') \<and> H n w'))"
    using assms(2) by (simp only: vm_obliging_def)
  from entry_obligingD [OF this] assms(3) obtain f out u where
    "GetEnv vm = Some f" "f JVMTI_VERSION_11 w = ((JNI_OK, out), u)" "H n u" by blast
  then have run: "get_env vm w = (Inr out, u)" "H n u"
    by (simp_all add: get_env_def prog_simps foreign_def jni_check_def)
  from get_env_cases [OF assms(1) run(1)] run show thesis using that by auto
qed

text \<open>
  An agent that is set up: everything the events rely on is there, the four events are
  enabled and no others were added, the runtime jar is in place and on the boot class path,
  and events can be forwarded, by a worker that has its sender where there was none before.
\<close>

definition started :: "PjAgentConf \<Rightarrow> embedded \<Rightarrow> 'j world \<Rightarrow> 'j world \<Rightarrow> bool" where
  "started c E w0 w \<longleftrightarrow>
     ready c w \<and> enabled w = enabled w0 @ agent_events \<and>
     boot_search w = boot_search w0 @ [path_str (jar_path E)] \<and>
     jar_there E w0 w \<and> files_kept E w0 w \<and> logger_set w = logger_set w0 \<and>
     (rec_inv (recorder_state w0) \<longrightarrow> forwarding (recorder_state w) \<and>
        (no_worker (recorder_state w0) \<longrightarrow> attached (recorder_state w)))"

definition start_failed :: "PjAgentConf \<Rightarrow> embedded \<Rightarrow> 'j world \<Rightarrow> fault \<Rightarrow> 'j world \<Rightarrow> bool" where
  "start_failed c E w0 e w \<longleftrightarrow>
     (\<exists>q. e = Panicked q) \<and> (enabled w = enabled w0 \<or> ready c w) \<and>
     (boot_search w = boot_search w0 \<or>
      boot_search w = boot_search w0 @ [path_str (jar_path E)] \<and> jar_there E w0 w) \<and>
     files_kept E w0 w \<and> logger_set w = logger_set w0"

lemma start_outcomes:
  assumes "start_forwarding_worker_thread r = (x, s)"
  shows "(x = Inl (Panicked UnwrapErr) \<and> poisoned r) \<or> (x = Inr () \<and> \<not> poisoned r)"
    and "x = Inr () \<Longrightarrow> rec_inv r \<Longrightarrow> forwarding s"
    and "x = Inr () \<Longrightarrow> rec_inv r \<Longrightarrow> no_worker r \<Longrightarrow> attached s"
proof -
  show "attached s" if "x = Inr ()" "rec_inv r" "no_worker r"
    using attached_start [OF that(2,3)] assms that(1) by simp
  show o: "(x = Inl (Panicked UnwrapErr) \<and> poisoned r) \<or> (x = Inr () \<and> \<not> poisoned r)"
    using assms start_fresh [of r] by (cases "poisoned r") (auto simp: start_poisoned)
  show "forwarding s" if "x = Inr ()" "rec_inv r"
  proof -
    have step: "rec_step r (Start True) s"
      using start [OF assms] that by (simp add: returned_def)
    with rec_step_phase [OF step that(2)] rec_step_inv [OF step that(2)] show ?thesis
      by (auto simp: forwarding_def split: if_splits)
  qed
qed

lemma setup_outcome:
  assumes "vm_laws vm J" and "jvmti_laws J" and "storable c" and "env_local w = 0"
    and run: "setup_agent vm E c w = (r, w')"
  shows "(r = Inr () \<and> started c E w w') \<or> (\<exists>e. r = Inl e \<and> start_failed c E w e w')"
proof -
  obtain q u where q: "get_env vm w = (q, u)" by fastforce
  note env = get_env_cases [OF assms(1) q]
  then obtain j where u: "u = w\<lparr>jvm := j\<rparr>" by blast
  from env consider (failed) p where "q = Inl (Panicked p)" | (got) "q = Inr (Some J)" by blast
  then show ?thesis
  proof cases
    case failed
    with run q u show ?thesis by (auto simp: setup_agent_def start_failed_def files_kept_same)
  next
    case got
    obtain x v where x: "configure_jvmti_env J E c u = (x, v)" by fastforce
    have w: "u = u \<and> env_local u = 0" using assms(4) u by simp
    note stages = configure_stages [OF assms(2,3), of u E]
    show ?thesis
    proof (cases x)
      case (Inl e)
      with tripleD_Inl [OF stages w] x have "given_up c E u e v" by simp
      moreover have "r = Inl e" "w' = v" using run q got x Inl by (simp_all add: setup_agent_def)
      ultimately show ?thesis using u
        by (auto simp: given_up_def start_failed_def files_kept_def)
    next
      case (Inr y)
      with tripleD_Inr [OF stages w] x have conf: "configured c E u v" by simp
      obtain z s where z: "start_forwarding_worker_thread (recorder_state v) = (z, s)" by fastforce
      have rw: "r = z" "w' = v\<lparr>recorder_state := s\<rparr>"
        using run q got x Inr z by (simp_all add: setup_agent_def zoom_def)
      note so = start_outcomes [OF z]
      have "started c E w w'" if "z = Inr ()"
        using conf u rw(2) so(2,3) [OF that]
        by (simp add: configured_def started_def ready_def caps_claimed_def jar_there_def files_kept_def)
      moreover have "start_failed c E w e w'" if "z = Inl e" for e
        using conf u rw(2) so(1) that
        by (simp add: configured_def start_failed_def ready_def caps_claimed_def jar_there_def files_kept_def)
      ultimately show ?thesis using rw(1) so(1) by auto
    qed
  qed
qed

section \<open>Progress of the set-up\<close>

text \<open>
  What makes the set-up succeed: an obliging JVM with memory for two blocks and the two
  capabilities to give, a disk without faults where the jar can be put, a path without NUL,
  and an unpoisoned channel.
\<close>

definition hospitable :: "(nat \<Rightarrow> 'j world \<Rightarrow> bool) \<Rightarrow> embedded \<Rightarrow> 'j world \<Rightarrow> bool" where
  "hospitable H E w \<longleftrightarrow>
     H 2 w \<and> env_local w = 0 \<and>
     can_generate_all_class_hook_events (potential w) \<noteq> 0 \<and>
     can_generate_early_class_hook_events (potential w) \<noteq> 0 \<and>
     plan (files w) = [] \<and> deliverable (files w) (jar_path E) \<and>
     utf8_valid (path_str (jar_path E)) \<and> cstr_ok (path_str (jar_path E)) \<and>
     \<not> poisoned (recorder_state w)"

definition going_well :: "(nat \<Rightarrow> 'j world \<Rightarrow> bool) \<Rightarrow> embedded \<Rightarrow> 'j world \<Rightarrow> bool" where
  "going_well H E w \<longleftrightarrow>
     H 0 w \<and>
     can_generate_all_class_hook_events (potential w) \<noteq> 0 \<and>
     can_generate_early_class_hook_events (potential w) \<noteq> 0 \<and>
     plan (files w) = [] \<and> deliverable (files w) (jar_path E) \<and> \<not> poisoned (recorder_state w)"

lemma yields_going_well:
  assumes "acts get upd m" and "succeeds H m"
    and "\<And>w. potential (upd w) = potential w" and "\<And>w. files (upd w) = files w"
    and "\<And>w. recorder_state (upd w) = recorder_state w"
  shows "yields (going_well H E) m (\<lambda>_. going_well H E)"
proof (rule yieldsI)
  fix w assume g: "going_well H E w"
  then have "H 0 w" by (simp add: going_well_def)
  then obtain j where "m w = (Inr (get w), (upd w)\<lparr>jvm := j\<rparr>)" "H 0 ((upd w)\<lparr>jvm := j\<rparr>)"
    using acts_succeeds [OF assms(1,2)] by blast
  with g assms(3-5) show "\<exists>x t. m w = (Inr x, t) \<and> going_well H E t"
    by (simp add: going_well_def)
qed

lemma expect_caps_yields:
  assumes "jvmti_laws J" and "jvmti_obliging J H"
  shows "yields (going_well H E) (expect_jvmti_environment_provides_all_required_capabilities J)
    (\<lambda>_. going_well H E)"
proof (rule yieldsI)
  fix w assume g: "going_well H E w"
  then have "H 0 w" by (simp add: going_well_def)
  then obtain j where "get_potential_capabilities J w = (Inr (potential w), (id w)\<lparr>jvm := j\<rparr>)"
    "H 0 ((id w)\<lparr>jvm := j\<rparr>)"
    using acts_succeeds [OF potential_acts [OF assms(1)] potential_succeeds [OF assms(2,1)]] by blast
  with g show "\<exists>x t. expect_jvmti_environment_provides_all_required_capabilities J w = (Inr x, t) \<and>
      going_well H E t"
    by (simp add: going_well_def expect_jvmti_environment_provides_all_required_capabilities_def
        expect_capability_def prog_simps)
qed

lemma jar_yields:
  assumes "jvmti_laws J" and "jvmti_obliging J H"
    and "utf8_valid (path_str (jar_path E))" and "cstr_ok (path_str (jar_path E))"
  shows "yields (going_well H E) (add_embedded_jar_to_bootstrap_class_loader_search J E)
    (\<lambda>_ w. H 0 w \<and> \<not> poisoned (recorder_state w))"
proof (rule yieldsI)
  fix w assume g: "going_well H E w"
  then obtain f where f: "write_rt_jar_file_if_missing (rt_jar E) (jar_path E) (files w) = (Inr (Inr ()), f)"
    using rt_jar.succeeds [of "files w" "jar_path E"] by (auto simp: going_well_def)
  have h: "H 0 (w\<lparr>files := f\<rparr>)"
    by (rule obliging_stable [OF assms(2), of 0 w]) (use g in \<open>simp_all add: going_well_def\<close>)
  obtain j where j: "add_to_bootstrap_class_loader_search J (path_str (jar_path E)) (w\<lparr>files := f\<rparr>) =
      (Inr (), w\<lparr>files := f, boot_search := boot_search (w\<lparr>files := f\<rparr>) @ [path_str (jar_path E)], jvm := j\<rparr>)"
    "H 0 (w\<lparr>files := f, boot_search := boot_search (w\<lparr>files := f\<rparr>) @ [path_str (jar_path E)], jvm := j\<rparr>)"
    by (rule acts_succeeds [OF boot_search_acts [OF assms(1)] boot_search_succeeds [OF assms(2)] h])
  show "\<exists>x t. add_embedded_jar_to_bootstrap_class_loader_search J E w = (Inr x, t) \<and>
      H 0 t \<and> \<not> poisoned (recorder_state t)"
    using f g j assms(3,4)
    by (simp add: add_embedded_jar_to_bootstrap_class_loader_search_def Let_def jar_path_def [symmetric]
        zoom_def prog_simps path_to_str_def cstring_new_def going_well_def)
qed

lemma yields_seq: "yields P m (\<lambda>_. P) \<Longrightarrow> yields P n Q \<Longrightarrow> yields P (seq m n) Q"
  by (rule yields_bnd)

lemma configure_yields:
  assumes "jvmti_laws J" and "jvmti_obliging J H" and "storable c" and "exec_fits c"
    and "hospitable H E w"
  shows "\<exists>w'. configure_jvmti_env J E c w = (Inr (), w') \<and> H 0 w' \<and> \<not> poisoned (recorder_state w')"
proof -
  have h: "H (Suc (Suc 0)) w" "env_local w = 0" using assms(5) by (simp_all add: hospitable_def numeral_2_eq_2)
  obtain u where u: "EnvStorage_init J c w = (Inr (), u)" "heap_grown w u" "H 0 u"
    by (rule init_progress [OF assms(1,2) h assms(3,4)])
  have g: "going_well H E u"
    using u(2,3) assms(5) by (elim heap_grown_parts) (simp add: going_well_def hospitable_def)
  have path: "utf8_valid (path_str (jar_path E))" "cstr_ok (path_str (jar_path E))"
    using assms(5) by (simp_all add: hospitable_def)
  have note_yields: "yields (going_well H E) (set_event_notification_mode J JVMTI_ENABLE e 0)
      (\<lambda>_. going_well H E)" for e
    by (rule yields_going_well [OF notification_acts [OF assms(1)] notification_succeeds [OF assms(2)]])
       (simp_all add: add_event_def)
  have caps: "yields (going_well H E) (add_all_required_capabilities J) (\<lambda>_. going_well H E)"
    unfolding add_all_required_capabilities_def
    by (rule yields_bnd [OF yields_going_well [OF capabilities_acts [OF assms(1)]
            capabilities_succeeds [OF assms(2,1)]]])
       (simp_all add: yields_going_well [OF add_capabilities_acts [OF assms(1)]
          add_capabilities_succeeds [OF assms(2)]])
  have cbs: "yields (going_well H E) (set_all_event_callbacks J) (\<lambda>_. going_well H E)"
    unfolding set_all_event_callbacks_def
    by (rule yields_going_well [OF set_event_callbacks_acts [OF assms(1)]
          set_event_callbacks_succeeds [OF assms(2)]]) simp_all
  have modes: "yields (going_well H E) (set_all_event_notification_modes J) (\<lambda>_. going_well H E)"
    unfolding set_all_event_notification_modes_def Let_def
    by (intro yields_seq note_yields)
  have "yields (going_well H E)
    (seq (expect_jvmti_environment_provides_all_required_capabilities J)
     (seq (add_all_required_capabilities J)
     (seq (set_all_event_callbacks J)
     (seq (set_all_event_notification_modes J)
       (add_embedded_jar_to_bootstrap_class_loader_search J E)))))
    (\<lambda>_ w. H 0 w \<and> \<not> poisoned (recorder_state w))"
    by (intro yields_seq expect_caps_yields [OF assms(1,2)] caps cbs modes jar_yields [OF assms(1,2) path])
  from yieldsD [OF this g] u(1) show ?thesis by (auto simp: configure_jvmti_env_def)
qed

lemma setup_yields:
  assumes "vm_laws vm J" and "jvmti_laws J" and "vm_obliging vm H" and "jvmti_obliging J H"
    and "storable c" and "exec_fits c" and "hospitable H E w"
  obtains w' where "setup_agent vm E c w = (Inr (), w')" "H 0 w'"
proof -
  have "H 2 w" using assms(7) by (simp add: hospitable_def)
  then obtain j where j: "get_env vm w = (Inr (Some J), w\<lparr>jvm := j\<rparr>)" "H 2 (w\<lparr>jvm := j\<rparr>)"
    by (rule get_env_yields [OF assms(1,3)])
  have "hospitable H E (w\<lparr>jvm := j\<rparr>)" using assms(7) j(2) by (simp add: hospitable_def)
  from configure_yields [OF assms(2,4,5,6) this] obtain u where
    u: "configure_jvmti_env J E c (w\<lparr>jvm := j\<rparr>) = (Inr (), u)" "H 0 u" "\<not> poisoned (recorder_state u)"
    by blast
  from start_fresh [OF u(3)] obtain s where
    "start_forwarding_worker_thread (recorder_state u) = (Inr (), s)" by blast
  with j u have "setup_agent vm E c w = (Inr (), u\<lparr>recorder_state := s\<rparr>)"
    by (simp add: setup_agent_def zoom_def)
  moreover have "H 0 (u\<lparr>recorder_state := s\<rparr>)"
    by (rule obliging_stable [OF assms(4) u(2)]) simp_all
  ultimately show thesis by (rule that)
qed

end
