(* ===== verification/Agent.thy ===== *)
theory Agent
  imports Setup
begin

text \<open>
  The agent's entry points, \<^verbatim>\<open>phasicj/agent/jvm/entrypoints.rs\<close>, and what they do,
  \<^verbatim>\<open>phasicj/agent/agent.rs\<close>: read the options and set the agent up when the JVM loads it,
  refuse to be attached, do nothing when unloaded.
\<close>

section \<open>Operations\<close>

text \<open>\<open>env_logger::init\<close> panics when the process has a logger already.\<close>

definition env_logger_init :: "('j world, unit) prog" where
  "env_logger_init =
     bnd (gets logger_set) (\<lambda>b. if b then panic UnwrapErr else update (\<lambda>w. w\<lparr>logger_set := True\<rparr>))"

definition ERROR_AGENT_ATTACH_NOT_SUPPORTED :: "32 word" where
  "ERROR_AGENT_ATTACH_NOT_SUPPORTED = 1"

definition on_load :: "'j java_vm \<Rightarrow> embedded \<Rightarrow> byte list \<Rightarrow> ('j world, unit) prog" where
  "on_load vm E options_cstr =
     seq env_logger_init
     (bnd (case to_str options_cstr of Inl _ \<Rightarrow> panic OptionsNotUtf8 | Inr s \<Rightarrow> ret s) (\<lambda>options.
     bnd (of_result (new_from_agent_options_list_str parse_agent_options_list options)) (\<lambda>c.
     seq (if verbose c then print_verbose_startup_info (info_enabled E) (current_dir E) else ret ())
       (setup_agent vm E c))))"

definition on_attach :: "('w, 32 word) prog" where
  "on_attach = ret ERROR_AGENT_ATTACH_NOT_SUPPORTED"

definition on_unload :: "('w, unit) prog" where
  "on_unload = ret ()"

text \<open>A null options pointer stands for no options.\<close>

definition Agent_OnLoad :: "'j java_vm \<Rightarrow> embedded \<Rightarrow> byte list option \<Rightarrow> ('j world, 32 word) prog" where
  "Agent_OnLoad vm E options =
     seq (case options of
            None \<Rightarrow> bnd (unwrap_ok (cstring_new [])) (on_load vm E)
          | Some buf \<Rightarrow> on_load vm E (cstr_bytes buf))
       (ret 0)"

definition Agent_OnAttach :: "('w, 32 word) prog" where
  "Agent_OnAttach = bnd on_attach (\<lambda>_. ret 0)"

definition Agent_OnUnload :: "('w, unit) prog" where
  "Agent_OnUnload = on_unload"

section \<open>What the options come to\<close>

definition option_bytes :: "byte list option \<Rightarrow> byte list" where
  "option_bytes options = (case options of None \<Rightarrow> [] | Some buf \<Rightarrow> cstr_bytes buf)"

text \<open>The configuration the options give, or the fault they are rejected with.\<close>

definition options_result :: "byte list option \<Rightarrow> PjAgentConf result" where
  "options_result options =
     (if utf8_valid (option_bytes options) then conf_of_options (option_bytes options)
      else Inl (Panicked OptionsNotUtf8))"

definition directory_missing :: "embedded \<Rightarrow> PjAgentConf \<Rightarrow> bool" where
  "directory_missing E c \<longleftrightarrow> verbose c \<and> info_enabled E \<and> current_dir E = None"

lemma on_load_rest:
  "Agent_OnLoad vm E options w =
    (if logger_set w then (Inl (Panicked UnwrapErr), w)
     else (case options_result options of
       Inl e \<Rightarrow> (Inl e, w\<lparr>logger_set := True\<rparr>)
     | Inr c \<Rightarrow>
         if directory_missing E c then (Inl (Panicked UnwrapErr), w\<lparr>logger_set := True\<rparr>)
         else seq (setup_agent vm E c) (ret 0) (w\<lparr>logger_set := True\<rparr>)))"
proof -
  have load: "Agent_OnLoad vm E options = seq (on_load vm E (option_bytes options)) (ret 0)"
    by (cases options) (simp_all add: Agent_OnLoad_def option_bytes_def cstring_new_def cstr_ok_def unwrap_ok_def)
  let ?u = "w\<lparr>logger_set := True\<rparr>"
  show ?thesis
  proof (cases "logger_set w")
    case True
    then show ?thesis
      by (simp add: load on_load_def env_logger_init_def bnd_def gets_def throw_def)
  next
    case False
    then have log: "env_logger_init w = (Inr (), ?u)"
      by (simp add: env_logger_init_def bnd_def gets_def update_def)
    show ?thesis
    proof (cases "utf8_valid (option_bytes options)")
      case invalid: False
      with log False show ?thesis
        by (simp add: load on_load_def options_result_def to_str_def bnd_def throw_def)
    next
      case True
      show ?thesis
      proof (cases "conf_of_options (option_bytes options)")
        case (Inl e)
        with log False True show ?thesis
          by (simp add: load on_load_def options_result_def to_str_def bnd_def of_result_def ret_def)
      next
        case (Inr c)
        with log False True show ?thesis
          by (cases "verbose c"; cases "info_enabled E"; cases "current_dir E")
             (simp_all add: directory_missing_def load on_load_def options_result_def to_str_def bnd_def of_result_def ret_def
                print_verbose_startup_info_def expect_def throw_def)
      qed
    qed
  qed
qed

lemma options_result_storable: "options_result options = Inr c \<Longrightarrow> storable c"
  by (auto simp: options_result_def conf_storable split: if_splits)

lemma reported_fault_panics: "reported_fault e \<Longrightarrow> \<exists>q. e = Panicked q"
  by (cases e) auto

lemma options_result_panics: "options_result options = Inl e \<Longrightarrow> \<exists>q. e = Panicked q"
  using conf_reported by (auto simp: options_result_def split: if_splits dest!: reported_fault_panics)

text \<open>A run that loads the agent is a run of the set-up, with the logger set.\<close>

lemma load_is_setup:
  assumes "\<not> logger_set w" and "options_result options = Inr c" and "\<not> directory_missing E c"
  shows "Agent_OnLoad vm E options w = seq (setup_agent vm E c) (ret 0) (w\<lparr>logger_set := True\<rparr>)"
  using assms by (auto simp: on_load_rest)

lemma load_cases:
  assumes "vm_laws vm J" and "jvmti_laws J" and "env_local w = 0"
    and run: "Agent_OnLoad vm E options w = (r, w')"
  shows "(\<exists>c. r = Inr 0 \<and> options_result options = Inr c \<and> started c E (w\<lparr>logger_set := True\<rparr>) w') \<or>
    (\<exists>q. r = Inl (Panicked q) \<and>
      (w' = w\<lparr>logger_set := True\<rparr> \<or>
       (\<exists>c. options_result options = Inr c \<and>
          start_failed c E (w\<lparr>logger_set := True\<rparr>) (Panicked q) w')))"
proof (cases "\<not> logger_set w \<and> (\<exists>c. options_result options = Inr c \<and> \<not> directory_missing E c)")
  case False
  show ?thesis
  proof (cases "logger_set w")
    case True
    then have "w = w\<lparr>logger_set := True\<rparr>" by simp
    with True run show ?thesis by (auto simp: on_load_rest)
  next
    case log: False
    show ?thesis
    proof (cases "options_result options")
      case (Inl e)
      with options_result_panics obtain q where "e = Panicked q" by blast
      with Inl run log show ?thesis by (auto simp: on_load_rest)
    next
      case (Inr c)
      with False log run show ?thesis by (auto simp: on_load_rest)
    qed
  qed
next
  case True
  then obtain c where c: "options_result options = Inr c" and load:
    "Agent_OnLoad vm E options w = seq (setup_agent vm E c) (ret 0) (w\<lparr>logger_set := True\<rparr>)"
    by (auto simp: on_load_rest)
  obtain x u where x: "setup_agent vm E c (w\<lparr>logger_set := True\<rparr>) = (x, u)" by fastforce
  have "env_local (w\<lparr>logger_set := True\<rparr>) = 0" using assms(3) by simp
  from setup_outcome [OF assms(1,2) options_result_storable [OF c] this x] show ?thesis
  proof
    assume "x = Inr () \<and> started c E (w\<lparr>logger_set := True\<rparr>) u"
    with run load x c show ?thesis by (auto simp: ret_def)
  next
    assume "\<exists>e. x = Inl e \<and> start_failed c E (w\<lparr>logger_set := True\<rparr>) e u"
    then obtain e where e: "x = Inl e" "start_failed c E (w\<lparr>logger_set := True\<rparr>) e u" by auto
    then obtain q where "e = Panicked q" by (auto simp: start_failed_def)
    with e run load x c show ?thesis by auto
  qed
qed

lemma load_sets_logger:
  assumes "vm_laws vm J" and "jvmti_laws J" and "env_local w = 0"
    and "Agent_OnLoad vm E options w = (r, w')"
  shows "logger_set w'"
  using load_cases [OF assms] by (auto simp: started_def start_failed_def)

lemma load_progress:
  assumes "vm_laws vm J" and "jvmti_laws J" and "vm_obliging vm H" and "jvmti_obliging J H"
    and "hospitable H E w" and "\<not> logger_set w"
    and "options_result options = Inr c" and "exec_fits c" and "\<not> directory_missing E c"
  shows "\<exists>w'. Agent_OnLoad vm E options w = (Inr 0, w') \<and>
    started c E (w\<lparr>logger_set := True\<rparr>) w' \<and> H 0 w'"
proof -
  let ?w = "w\<lparr>logger_set := True\<rparr>"
  have "H 2 ?w"
    by (rule obliging_stable [OF assms(4), of 2 w]) (use assms(5) in \<open>simp_all add: hospitable_def\<close>)
  with assms(5) have hosp: "hospitable H E ?w" by (simp add: hospitable_def)
  obtain w' where w': "setup_agent vm E c ?w = (Inr (), w')" "H 0 w'"
    by (rule setup_yields [OF assms(1-4) options_result_storable [OF assms(7)] assms(8) hosp])
  have "env_local ?w = 0" using hosp by (simp add: hospitable_def)
  from setup_outcome [OF assms(1,2) options_result_storable [OF assms(7)] this w'(1)]
  have "started c E ?w w'" by simp
  with w' load_is_setup [OF assms(6,7,9), of vm] show ?thesis by (auto simp: ret_def)
qed

text \<open>Surroundings for the examples.\<close>

definition sample_embedded :: embedded where
  "sample_embedded = \<lparr>temp_dir = [RootDir, Normal ''tmp''], rt_jar = ''jar'', rt_jar_sha1_hash = ''0af3'',
     current_dir = Some [RootDir], info_enabled = True\<rparr>"

lemma sample_jar_path:
  "jar_path sample_embedded = [RootDir, Normal ''tmp'', Normal ''phasicj'', Normal ''rt.jar.temp'',
     Normal ''sha1'', Normal ''0af3'', Normal ''rt.jar'']"
  by (simp add: jar_path_def sample_embedded_def rt_jar_default_temp_file_path_def components_def
      path_push_def segment_def is_absolute_def)

lemma sample_hospitable: "hospitable reference_healthy sample_embedded sample_world"
  by (simp add: hospitable_def sample_jar_path deliverable_def sample_world_def initial_recorder_def
      reference_healthy_def utf8_valid_def ascii_char_def byte_in_def cstr_ok_def)

definition sample_options :: "byte list" where
  "sample_options = render_conf sample_conf"

lemma sample_options_result: "options_result (Some sample_options) = Inr sample_conf"
proof -
  have bytes: "option_bytes (Some sample_options) = render_conf sample_conf"
    "utf8_valid (render_conf sample_conf)"
    by (simp_all add: option_bytes_def sample_options_def cstr_bytes_def render_conf_def conf_opts_def
        sample_conf_def render_flag_def utf8_valid_def ascii_char_def byte_in_def)
  have "exec_ok sample_conf" by (simp add: exec_ok_def sample_conf_def arg_ok_def arg_char_def)
  from conf_render [OF this] bytes show ?thesis by (simp add: options_result_def)
qed

section \<open>Properties\<close>

text \<open>
  C2. Loading the agent is all or nothing. Whatever a lawful JVM does, \<open>Agent_OnLoad\<close>
  returns 0 only with the agent completely started on the configuration the options
  denote; otherwise it panics, and then either the options were rejected, the logger was
  set, or the current directory unknown, before anything else was touched, or the set-up
  stopped at a point where no event is enabled without the stored configuration, the
  capabilities and the callbacks it relies on. Undefined behaviour is never reached.
\<close>

theorem load_all_or_nothing:
  assumes "vm_laws vm J" and "jvmti_laws J" and "env_local w = 0"
    and run: "Agent_OnLoad vm E options w = (r, w')"
  shows "(\<exists>c. r = Inr 0 \<and> options_result options = Inr c \<and> started c E (w\<lparr>logger_set := True\<rparr>) w') \<or>
    (\<exists>q. r = Inl (Panicked q) \<and>
      (w' = w\<lparr>logger_set := True\<rparr> \<or>
       (\<exists>c. options_result options = Inr c \<and>
          start_failed c E (w\<lparr>logger_set := True\<rparr>) (Panicked q) w')))"
  by (rule load_cases [OF assms])

theorem load_all_or_nothing_witness:
  "\<exists>r w'. Agent_OnLoad reference_vm sample_embedded (Some sample_options) sample_world = (r, w') \<and>
    ((\<exists>c. r = Inr 0 \<and> holds_conf w' c) \<or> (\<exists>q. r = Inl (Panicked q)))"
proof -
  obtain r w' where run:
    "Agent_OnLoad reference_vm sample_embedded (Some sample_options) sample_world = (r, w')" by fastforce
  from load_all_or_nothing [OF reference_vm_laws reference_laws sample_facts(3) run] run show ?thesis
    by (auto simp: started_def ready_def)
qed

text \<open>
  C6. Loading succeeds when it can: on an obliging JVM with the two capabilities, with a
  working disk and no logger or earlier panic in the way, valid options start the agent.
\<close>

theorem load_succeeds:
  assumes "vm_laws vm J" and "jvmti_laws J" and "vm_obliging vm H" and "jvmti_obliging J H"
    and "hospitable H E w" and "\<not> logger_set w"
    and "options_result options = Inr c" and "exec_fits c" and "\<not> directory_missing E c"
  shows "\<exists>w'. Agent_OnLoad vm E options w = (Inr 0, w') \<and>
    started c E (w\<lparr>logger_set := True\<rparr>) w' \<and> H 0 w'"
  by (rule load_progress [OF assms])

theorem load_succeeds_witness:
  "\<exists>w'. Agent_OnLoad reference_vm sample_embedded (Some sample_options) sample_world = (Inr 0, w') \<and>
    holds_conf w' sample_conf \<and> enabled w' = agent_events"
proof -
  have "\<not> logger_set sample_world" "\<not> directory_missing sample_embedded sample_conf"
    by (simp_all add: sample_world_def sample_embedded_def directory_missing_def)
  from load_succeeds [OF reference_vm_laws reference_laws reference_vm_obliging reference_obliging
      sample_hospitable this(1) sample_options_result sample_facts(2) this(2)]
  show ?thesis by (auto simp: started_def ready_def sample_world_def)
qed

text \<open>
  Options that are rejected stop the load before the JVM is asked for anything: the
  panic is the one the configuration reports, or the one for text that is not UTF-8, and
  only the logger has been set.
\<close>

theorem load_rejects_options:
  assumes "\<not> logger_set w" and "options_result options = Inl e"
  shows "Agent_OnLoad vm E options w = (Inl e, w\<lparr>logger_set := True\<rparr>) \<and>
    (e = Panicked OptionsNotUtf8 \<or> reported_fault e)"
proof -
  have "e = Panicked OptionsNotUtf8 \<or> reported_fault e"
    using assms(2) conf_reported by (auto simp: options_result_def split: if_splits)
  with assms show ?thesis by (simp add: on_load_rest)
qed

theorem load_rejects_options_witness:
  "fst (Agent_OnLoad reference_vm sample_embedded (Some [CHR 0xFF]) sample_world) =
     Inl (Panicked OptionsNotUtf8)"
proof -
  have "options_result (Some [CHR 0xFF]) = Inl (Panicked OptionsNotUtf8)"
    by (simp add: options_result_def option_bytes_def cstr_bytes_def utf8_valid_def ascii_char_def
        byte_in_def utf8_lead_def)
  from load_rejects_options [OF _ this, of sample_world] show ?thesis by (simp add: sample_world_def)
qed

text \<open>
  The agent cannot be loaded twice into a process: the second load panics in the
  logger's initialisation and changes nothing, whether or not the first one succeeded.
\<close>

theorem second_load_panics:
  assumes "vm_laws vm J" and "jvmti_laws J" and "env_local w = 0"
    and "Agent_OnLoad vm E options w = (r, w')"
  shows "Agent_OnLoad vm' E' options' w' = (Inl (Panicked UnwrapErr), w')"
  using load_sets_logger [OF assms] by (simp add: on_load_rest)

theorem second_load_panics_witness:
  "\<exists>r w'. Agent_OnLoad reference_vm sample_embedded None sample_world = (r, w') \<and>
    Agent_OnLoad reference_vm sample_embedded None w' = (Inl (Panicked UnwrapErr), w')"
proof -
  obtain r w' where run: "Agent_OnLoad reference_vm sample_embedded None sample_world = (r, w')" by fastforce
  from second_load_panics [OF reference_vm_laws reference_laws sample_facts(3) run] run show ?thesis by blast
qed

text \<open>
  A null options pointer is an empty option string, which is the default
  configuration.
\<close>

theorem null_options_are_defaults:
  "Agent_OnLoad vm E None = Agent_OnLoad vm E (Some [CHR 0x00]) \<and>
   options_result None = Inr new_with_defaults"
proof -
  have "options_text [] []" using no_items [OF blanks_Nil] by simp
  then have "conf_of_options [] = Inr new_with_defaults"
    using grammar.new_from_valid [of "[]" "[]"] by simp
  then have "options_result None = Inr new_with_defaults"
    by (simp add: options_result_def option_bytes_def)
  moreover have "options_result (Some [CHR 0x00]) = options_result None"
    by (simp add: options_result_def option_bytes_def cstr_bytes_def)
  ultimately show ?thesis by (simp add: fun_eq_iff on_load_rest)
qed

text \<open>
  Attaching to a running JVM changes nothing, but the JVM is told that it went well:
  \<open>Agent_OnAttach\<close> returns 0 although \<open>on_attach\<close> gives its error code.
\<close>

theorem attach_reports_success:
  "Agent_OnAttach w = (Inr 0, w) \<and> on_attach w = (Inr ERROR_AGENT_ATTACH_NOT_SUPPORTED, w) \<and>
   ERROR_AGENT_ATTACH_NOT_SUPPORTED \<noteq> 0"
  by (simp add: Agent_OnAttach_def on_attach_def ERROR_AGENT_ATTACH_NOT_SUPPORTED_def bnd_def ret_def)

end
