(* ===== verification/Lifecycle.thy ===== *)
theory Lifecycle
  imports Agent
begin

text \<open>
  The agent between its load and the death of the VM: the JVM delivers events to the
  registered callbacks, application threads call the native methods, and workers forward
  what was sent. The components of the agent meet here.
\<close>

section \<open>Events\<close>

datatype 'j event =
    VmStart "'j jni_table"
  | VmInit
  | ClassLoad os "byte list option" "32 word" "byte list"
  | MonitorEntered
  | MonitorExited
  | WorkerRound nat
  | VmDeath

text \<open>
  The JVM calls what is registered for an event that is enabled. A callback registered for
  an event of another shape would be called with the wrong arguments.
\<close>

definition registered :: "32 word \<Rightarrow> (jvmtiEventCallbacks \<Rightarrow> callback option) \<Rightarrow> 'j world \<Rightarrow> callback option" where
  "registered e field w = (if e \<in> set (enabled w) then field (callbacks w) else None)"

definition dispatch ::
  "32 word \<Rightarrow> (jvmtiEventCallbacks \<Rightarrow> callback option) \<Rightarrow> callback \<Rightarrow> ('j world, unit) prog \<Rightarrow> ('j world, unit) prog" where
  "dispatch e field expected body =
     bnd (gets (registered e field)) (\<lambda>cb.
       case cb of
         None \<Rightarrow> ret ()
       | Some f \<Rightarrow> if f = expected then body else throw (Undefined NullCall))"

text \<open>The JVM takes the new class and gives its memory back.\<close>

definition take_class :: "(32 word \<times> pointer) option \<Rightarrow> ('j world, unit) prog" where
  "take_class res =
     (case res of
        None \<Rightarrow> ret ()
      | Some (n, p) \<Rightarrow> if p = 0 then ret () else update (\<lambda>w. w\<lparr>heap := (heap w)(p := None)\<rparr>))"

fun deliver :: "'j jvmti_table \<Rightarrow> 'j event \<Rightarrow> ('j world, unit) prog" where
  "deliver J (VmStart N) = dispatch JVMTI_EVENT_VM_START VMStart Pj_vm_start (pj_vm_start N)"
| "deliver J VmInit = dispatch JVMTI_EVENT_VM_INIT VMInit Pj_vm_init pj_vm_init"
| "deliver J (ClassLoad os name len data) =
     dispatch JVMTI_EVENT_CLASS_FILE_LOAD_HOOK ClassFileLoadHook Pj_class_file_load_hook
       (bnd (pj_class_file_load_hook J os name len data) take_class)"
| "deliver J MonitorEntered = zoom recorder_state recorder_state_update monitorEnter"
| "deliver J MonitorExited = zoom recorder_state recorder_state_update monitorExit"
| "deliver J (WorkerRound i) = zoom recorder_state recorder_state_update (on_own_thread (worker_turn i))"
| "deliver J VmDeath = dispatch JVMTI_EVENT_VM_DEATH VMDeath Pj_vm_death (pj_vm_death J)"

text \<open>
  What the JVM promises about the events it delivers; what then goes wrong in the code's
  hands, with the fault: a static method JNI has no identifier for, a class without a name;
  and the events that leave room for neither.
\<close>

fun promised :: "'j event \<Rightarrow> bool" where
  "promised (VmStart N) = jni_laws N"
| "promised (ClassLoad os name len data) = class_data_ok len data"
| "promised _ = True"

fun mishap :: "'j event \<Rightarrow> fault \<Rightarrow> bool" where
  "mishap (VmStart N) e = (e = Undefined NullCall \<and> method_missing N)"
| "mishap (ClassLoad os name len data) e = (e = Undefined DanglingRead \<and> name = None)"
| "mishap _ e = False"

fun legal_event :: "'j event \<Rightarrow> bool" where
  "legal_event (VmStart N) =
     (jni_laws N \<and> (\<exists>cls_of meth_of. jni_provides N cls_of meth_of \<and>
        (\<forall>cls name sig. meth_of cls name sig \<noteq> 0)))"
| "legal_event (ClassLoad os name len data) = (name \<noteq> None \<and> class_data_ok len data)"
| "legal_event _ = True"

fun agents_own :: "'j event \<Rightarrow> bool" where
  "agents_own (VmStart N) = False"
| "agents_own (ClassLoad os name len data) = False"
| "agents_own VmDeath = False"
| "agents_own _ = True"

section \<open>The agent at work\<close>

definition alive :: "PjAgentConf \<Rightarrow> 'j world \<Rightarrow> bool" where
  "alive c w \<longleftrightarrow> ready c w \<and> set agent_events \<subseteq> set (enabled w) \<and> forwarding (recorder_state w)"

lemma started_alive: "started c E w0 w \<Longrightarrow> rec_inv (recorder_state w0) \<Longrightarrow> alive c w"
  by (auto simp: started_def alive_def)

lemma ready_registered:
  assumes "ready c w" and "set agent_events \<subseteq> set (enabled w)"
  shows "registered JVMTI_EVENT_VM_START VMStart w = Some Pj_vm_start"
    and "registered JVMTI_EVENT_VM_INIT VMInit w = Some Pj_vm_init"
    and "registered JVMTI_EVENT_CLASS_FILE_LOAD_HOOK ClassFileLoadHook w = Some Pj_class_file_load_hook"
    and "registered JVMTI_EVENT_VM_DEATH VMDeath w = Some Pj_vm_death"
  using assms by (simp_all add: registered_def ready_def get_initial_agent_callbacks_def
      default_callbacks_def agent_events_def)

lemma dispatch_run:
  "registered e field w = Some f \<Longrightarrow> dispatch e field f body w = body w"
  by (simp add: dispatch_def bnd_def gets_def)

lemma legal_promised: "legal_event ev \<Longrightarrow> promised ev \<and> (\<forall>e. \<not> mishap ev e)"
proof (cases ev)
  case (VmStart N)
  assume "legal_event ev"
  with VmStart obtain cls_of meth_of where N: "jni_laws N" "jni_provides N cls_of meth_of"
    "\<forall>cls name sig. meth_of cls name sig \<noteq> 0" by auto
  then have "\<not> method_missing N" by (auto simp: method_missing_def jni_provides_def entry_obliging_def)
  with N(1) VmStart show ?thesis by simp
qed auto

lemma forwarding_turn:
  assumes "forwarding r" and "on_own_thread (worker_turn i) r = (x, s)"
  shows "x = Inr () \<and> forwarding s"
proof (cases "worker_round i r")
  case None
  with assms show ?thesis by (simp add: on_own_thread_def worker_turn_def)
next
  case (Some t)
  then have step: "rec_step r (Round i) t" by (rule round)
  from assms(1) have inv: "rec_inv r" "phase_of r = Forwarding" by (simp_all add: forwarding_def)
  from rec_step_phase [OF step inv(1)] rec_step_inv [OF step inv(1)] inv(2) Some assms(2)
  show ?thesis by (simp add: on_own_thread_def worker_turn_def forwarding_def split: if_splits)
qed

lemma alive_parts [simp]:
  "alive c (w\<lparr>jvm := j\<rparr>) = alive c w"
  "alive c (w\<lparr>files := f\<rparr>) = alive c w"
  "alive c (w\<lparr>jni_calls := l\<rparr>) = alive c w"
  "forwarding r \<Longrightarrow> alive c w \<Longrightarrow> alive c (w\<lparr>recorder_state := r\<rparr>)"
  by (simp_all add: alive_def ready_def caps_claimed_def)

lemma alive_heap:
  assumes "alive c w" and "hook_frame w w'"
  shows "alive c w'"
proof -
  from assms(2) obtain j h f where w': "w' = w\<lparr>jvm := j, heap := h, files := f\<rparr>" and h: "heap w \<subseteq>\<^sub>m h"
    by (rule hook_frame_parts)
  have "holds_conf (w\<lparr>jvm := j, heap := h, files := f\<rparr>) c"
    by (rule holds_conf_mono [of w]) (use assms(1) h in \<open>simp_all add: alive_def ready_def\<close>)
  with assms(1) w' show ?thesis by (simp add: alive_def ready_def caps_claimed_def)
qed

lemma alive_take_class:
  assumes "alive c w" and "alive c u" and "env_local u = env_local w" and "heap w p = None"
    and "heap u = (heap w)(p \<mapsto> b)"
  shows "alive c (u\<lparr>heap := (heap u)(p := None)\<rparr>)"
proof -
  have "(heap u)(p := None) = heap w" using assms(4,5) by (auto simp: fun_eq_iff)
  moreover have "holds_conf (u\<lparr>heap := heap w\<rparr>) c"
    by (rule holds_conf_mono [of w]) (use assms(1,3) in \<open>simp_all add: alive_def ready_def\<close>)
  ultimately show ?thesis using assms(2) by (simp add: alive_def ready_def caps_claimed_def)
qed

lemma class_load_alive:
  assumes "jvmti_laws J" and "alive c w" and "class_data_ok len data"
    and "bnd (pj_class_file_load_hook J os (Some buf) len data) take_class w = (r, w')"
  shows "(\<exists>q. r = Inl (Panicked q)) \<or> (r = Inr () \<and> alive c w' \<and> recorder_state w' = recorder_state w)"
proof -
  obtain x u where x: "pj_class_file_load_hook J os (Some buf) len data w = (x, u)" by fastforce
  have "holds_conf w c" using assms(2) by (simp add: alive_def ready_def)
  note cases = hook_cases [OF assms(1) this assms(3) x, unfolded hook_outcome_def]
  then have frame: "hook_frame w u" by blast
  then have al: "alive c u" and el: "env_local u = env_local w" and rs: "recorder_state u = recorder_state w"
    using alive_heap [OF assms(2)] by (auto elim: hook_frame_parts)
  show ?thesis
  proof (cases x)
    case (Inl e)
    with cases x assms(4) show ?thesis by auto
  next
    case (Inr res)
    show ?thesis
    proof (cases res)
      case None
      with Inr x assms(4) al rs show ?thesis by (simp add: take_class_def ret_def)
    next
      case (Some np)
      obtain n p where np: "np = (n, p)" by (cases np)
      with cases Inr Some obtain out where out: "handed_over w out n p u" by auto
      show ?thesis
      proof (cases "p = 0")
        case True
        with Inr Some np x assms(4) al rs show ?thesis by (simp add: take_class_def ret_def)
      next
        case False
        with out have "heap w p = None" "heap u = (heap w)(p \<mapsto> out)"
          by (auto simp: handed_over_def split: if_splits)
        from alive_take_class [OF assms(2) al el this] Inr Some np x assms(4) False rs
        show ?thesis by (auto simp: take_class_def update_def)
      qed
    qed
  qed
qed

text \<open>
  One event: the agent stays at work, panics or meets a mishap; its own events always return,
  and workers stay attached to their senders.
\<close>

lemma deliver_outcome:
  assumes "jvmti_laws J" and "alive c w" and "promised ev" and "ev \<noteq> VmDeath"
    and "deliver J ev w = (r, w')"
  shows "(\<exists>e. r = Inl e \<and> \<not> agents_own ev \<and> ((\<exists>q. e = Panicked q) \<or> mishap ev e)) \<or>
    (r = Inr () \<and> alive c w' \<and> (attached (recorder_state w) \<longrightarrow> attached (recorder_state w')))"
proof -
  have rdy: "ready c w" "set agent_events \<subseteq> set (enabled w)" "forwarding (recorder_state w)"
    using assms(2) by (simp_all add: alive_def)
  note regs = ready_registered [OF rdy(1,2)]
  have inv: "rec_inv (recorder_state w)" using rdy(3) by (simp add: forwarding_def)
  show ?thesis
  proof (cases ev)
    case (VmStart N)
    have "deliver J ev w = pj_vm_start N w" using VmStart regs by (simp add: dispatch_run)
    moreover have "jni_laws N" using assms(3) VmStart by simp
    note vm_start_any [OF this, of w]
    ultimately show ?thesis using assms(2,5) VmStart by auto
  next
    case VmInit
    with assms(2,5) regs show ?thesis by (simp add: dispatch_run pj_vm_init_def ret_def)
  next
    case (ClassLoad os name len data)
    then have run: "bnd (pj_class_file_load_hook J os name len data) take_class w = (r, w')"
      and ok: "class_data_ok len data" using assms(3,5) regs by (simp_all add: dispatch_run)
    show ?thesis
    proof (cases name)
      case None
      obtain x u where x: "pj_class_file_load_hook J os None len data w = (x, u)" by fastforce
      have "holds_conf w c" using rdy(1) by (simp add: ready_def)
      from hook_nameless [OF assms(1) this x] run x ClassLoad None show ?thesis by auto
    next
      case (Some buf)
      with run have "bnd (pj_class_file_load_hook J os (Some buf) len data) take_class w = (r, w')" by simp
      from class_load_alive [OF assms(1,2) ok this] ClassLoad show ?thesis by auto
    qed
  next
    case MonitorEntered
    from forwarding_enter [OF rdy(3)] obtain t where t: "monitorEnter (recorder_state w) = (Inr (), t)"
      "forwarding t" by blast
    with MonitorEntered assms(2,5) attached_enter [OF inv _ t(1)] show ?thesis by (auto simp: zoom_def)
  next
    case MonitorExited
    with assms(2,5) rdy(3) show ?thesis by (auto simp: zoom_def monitorExit_def ret_def)
  next
    case (WorkerRound i)
    obtain x s where x: "worker_turn i (recorder_state w) = (x, s)" by fastforce
    note sp = own_thread_returns [OF x]
    from forwarding_turn [OF rdy(3) sp] sp WorkerRound assms(2,5) attached_turn [OF _ x] show ?thesis
      by (auto simp: zoom_def)
  next
    case VmDeath
    with assms(4) show ?thesis by simp
  qed
qed

lemma deliver_alive:
  assumes "jvmti_laws J" and "alive c w" and "legal_event ev" and "ev \<noteq> VmDeath"
    and "deliver J ev w = (r, w')"
  shows "(\<exists>q. r = Inl (Panicked q) \<and> \<not> agents_own ev) \<or> (r = Inr () \<and> alive c w')"
  using deliver_outcome [OF assms(1,2) _ assms(4,5)] legal_promised [OF assms(3)] by blast

text \<open>Sequences of events, up to the first that fails.\<close>

definition deliver_all :: "'j jvmti_table \<Rightarrow> 'j event list \<Rightarrow> 'j world \<Rightarrow> unit result list \<times> 'j world" where
  "deliver_all J evs w = run_ops (\<lambda>_. True) (deliver J) evs w"

definition fails_at :: "'j event list \<Rightarrow> nat \<Rightarrow> fault \<Rightarrow> unit result list \<Rightarrow> bool" where
  "fails_at evs k e rs \<longleftrightarrow> k < length evs \<and> rs = replicate k (Inr ()) @ [Inl e] \<and>
     \<not> agents_own (evs ! k) \<and> ((\<exists>q. e = Panicked q) \<or> mishap (evs ! k) e)"

lemma deliver_all_alive:
  assumes "jvmti_laws J" and "alive c w" and "attached (recorder_state w)"
    and "\<forall>ev\<in>set evs. promised ev \<and> ev \<noteq> VmDeath" and "deliver_all J evs w = (rs, w')"
  shows "(rs = replicate (length evs) (Inr ()) \<and> alive c w' \<and> attached (recorder_state w')) \<or>
    (\<exists>k e. fails_at evs k e rs)"
  using assms(2-5)
proof (induction evs arbitrary: w rs)
  case Nil
  then show ?case by (simp add: deliver_all_def)
next
  case (Cons ev evs)
  obtain r u where u: "deliver J ev w = (r, u)" by fastforce
  have ev: "promised ev" "ev \<noteq> VmDeath" using Cons.prems(3) by simp_all
  from deliver_outcome [OF assms(1) Cons.prems(1) ev u] Cons.prems(2) consider
    (stop) e where "r = Inl e" "\<not> agents_own ev" "(\<exists>q. e = Panicked q) \<or> mishap ev e"
    | (go) "r = Inr ()" "alive c u" "attached (recorder_state u)" by blast
  then show ?case
  proof cases
    case stop
    with Cons.prems(4) u have "rs = replicate 0 (Inr ()) @ [Inl e]" by (simp add: deliver_all_def)
    with stop(2,3) have "fails_at (ev # evs) 0 e rs" by (simp add: fails_at_def)
    then show ?thesis by blast
  next
    case go
    obtain rs' v where v: "deliver_all J evs u = (rs', v)" by fastforce
    with Cons.prems(4) u go have eq: "rs = Inr () # rs'" "v = w'" by (simp_all add: deliver_all_def)
    have "\<forall>ev\<in>set evs. promised ev \<and> ev \<noteq> VmDeath" using Cons.prems(3) by simp
    from Cons.IH [OF go(2,3) this v [unfolded eq(2)]] show ?thesis
    proof (elim disjE exE)
      fix k e assume "fails_at evs k e rs'"
      with eq have "fails_at (ev # evs) (Suc k) e rs" by (simp add: fails_at_def)
      then show ?thesis by blast
    qed (simp add: eq)
  qed
qed

lemma free_keeps:
  assumes "jvmti_laws J" and "holds_conf w c" and "EnvStorage_free J w = (Inr (), u)"
  shows "env_local u = 0 \<and> recorder_state u = recorder_state w \<and> callbacks u = callbacks w \<and>
    enabled u = enabled w"
proof (rule free_cases [OF assms(1,2)], goal_cases fault freed)
  case (fault e w')
  with assms(3) show ?case by simp
next
  case (freed w')
  then have "w' = u" using assms(3) by simp
  with freed(4) have u: "u = w\<lparr>jvm := jvm u, heap := heap u, env_local := 0\<rparr>" by simp
  show ?case by (subst (1 2 3 4) u) simp
qed

lemma death_empties:
  assumes "jvmti_laws J" and "alive c w" and "deliver J VmDeath w = (Inr (), u)"
  shows "env_local u = 0 \<and> forwarding (recorder_state u)"
proof -
  have rdy: "ready c w" "set agent_events \<subseteq> set (enabled w)" "holds_conf w c"
    using assms(2) by (simp_all add: alive_def ready_def)
  have free: "EnvStorage_free J w = (Inr (), u)"
    using assms(3) ready_registered(4) [OF rdy(1,2)] by (simp add: dispatch_run pj_vm_death_def)
  from free_keeps [OF assms(1) rdy(3) free] assms(2) show ?thesis by (simp add: alive_def)
qed

lemma hook_without_storage:
  assumes "jvmti_laws J" and "env_local w = 0"
  shows "\<exists>e w'. pj_class_file_load_hook J os name len data w = (Inl e, w') \<and>
    (e = Panicked StorageMissing \<or> call_fault e)"
proof (rule of_cases [OF assms(1), of w], goal_cases fault vacant there)
  case (fault e j)
  then show ?case by (simp add: hook_eq)
next
  case (vacant j)
  then show ?case by (simp add: hook_eq expect_def throw_def)
next
  case (there j)
  with assms(2) show ?case by simp
qed

section \<open>Properties\<close>

text \<open>
  C3. From the first successful load on, the agent works until the VM dies or a callback fails.
  Whatever events the JVM delivers, in whatever order and interleaved with native calls and
  workers, every event returns and leaves the configuration of the options stored, the
  callbacks registered, the channel forwarding, and no worker in a position to panic on a
  channel whose sender is gone, up to the first event that fails. That is a callback of the
  JVM, never a native method; and it panics, or it is one of the two in which undefined
  behaviour is reached, a call of a static method that JNI has no identifier for, or a class
  without a name.
\<close>

theorem agent_works_until_death:
  assumes "vm_laws vm J" and "jvmti_laws J" and "env_local w0 = 0"
    and "rec_inv (recorder_state w0)" and "no_worker (recorder_state w0)"
    and "Agent_OnLoad vm E options w0 = (Inr 0, w)"
    and "\<forall>ev\<in>set evs. promised ev \<and> ev \<noteq> VmDeath"
    and "deliver_all J evs w = (rs, w')"
  shows "(\<exists>c. options_result options = Inr c \<and> rs = replicate (length evs) (Inr ()) \<and> alive c w' \<and>
      (\<forall>i. fst (worker_turn i (recorder_state w')) = Inr ())) \<or>
    (\<exists>k e. k < length evs \<and> rs = replicate k (Inr ()) @ [Inl e] \<and> \<not> agents_own (evs ! k) \<and>
      ((\<exists>q. e = Panicked q) \<or> mishap (evs ! k) e))"
proof -
  from load_cases [OF assms(1-3,6)] obtain c where c:
    "options_result options = Inr c" "started c E (w0\<lparr>logger_set := True\<rparr>) w" by auto
  then have w: "alive c w" "attached (recorder_state w)"
    using assms(4,5) started_alive [OF c(2)] by (simp_all add: started_def)
  have "fst (worker_turn i (recorder_state w')) = Inr ()" if "attached (recorder_state w')" for i
    using attached_turn [OF that, of i] by (metis prod.collapse)
  with deliver_all_alive [OF assms(2) w assms(7,8)] c(1) show ?thesis unfolding fails_at_def by blast
qed

definition loaded_world :: "nat world" where
  "loaded_world = snd (Agent_OnLoad reference_vm sample_embedded (Some sample_options) sample_world)"

lemma loaded_world:
  "Agent_OnLoad reference_vm sample_embedded (Some sample_options) sample_world = (Inr 0, loaded_world)"
  "alive sample_conf loaded_world" "reference_healthy 0 loaded_world"
proof -
  have "\<not> logger_set sample_world" "\<not> directory_missing sample_embedded sample_conf"
    by (simp_all add: sample_world_def sample_embedded_def directory_missing_def)
  then obtain w' where w': "Agent_OnLoad reference_vm sample_embedded (Some sample_options) sample_world = (Inr 0, w')"
    "started sample_conf sample_embedded (sample_world\<lparr>logger_set := True\<rparr>) w'" "reference_healthy 0 w'"
    using load_progress [OF reference_vm_laws reference_laws reference_vm_obliging reference_obliging
        sample_hospitable _ sample_options_result sample_facts(2)] by blast
  moreover have "rec_inv (recorder_state (sample_world\<lparr>logger_set := True\<rparr>))"
    by (simp add: sample_world_def rec_inv_initial)
  ultimately show
    "Agent_OnLoad reference_vm sample_embedded (Some sample_options) sample_world = (Inr 0, loaded_world)"
    "alive sample_conf loaded_world" "reference_healthy 0 loaded_world"
    by (auto simp: loaded_world_def intro: started_alive)
qed

theorem agent_works_until_death_witness:
  "\<exists>w'. deliver_all reference_jvmti [MonitorEntered, WorkerRound 0, VmInit, WorkerRound 0, MonitorEntered] loaded_world =
     (replicate 5 (Inr ()), w') \<and> alive sample_conf w' \<and> fst (worker_turn 0 (recorder_state w')) = Inr ()"
proof -
  let ?evs = "[MonitorEntered, WorkerRound 0, VmInit, WorkerRound 0, MonitorEntered]"
  obtain rs w' where run: "deliver_all reference_jvmti ?evs loaded_world = (rs, w')" by fastforce
  have inv: "rec_inv (recorder_state sample_world)" "no_worker (recorder_state sample_world)"
    using rec_inv_initial by (simp_all add: sample_world_def no_worker_def initial_recorder_def)
  have evs: "\<forall>ev\<in>set ?evs. promised ev \<and> ev \<noteq> VmDeath" by simp
  have own: "agents_own (?evs ! k)" if "k < length ?evs" for k
    using that by (auto simp: nth_Cons' less_Suc_eq)
  from agent_works_until_death [OF reference_vm_laws reference_laws sample_facts(3) inv loaded_world(1) evs run]
    own run sample_options_result show ?thesis by (auto simp: eval_nat_numeral)
qed

text \<open>
  C22. The death of the VM is the end of instrumentation: once its callback has returned, the
  storage is empty, and a class load delivered after it panics for want of a configuration
  (or because a JVMTI call fails) instead of touching the freed memory. Native calls still
  return.
\<close>

theorem class_load_after_death:
  assumes "jvmti_laws J" and "alive c w" and "deliver J VmDeath w = (Inr (), u)"
    and "callbacks u = get_initial_agent_callbacks" and "JVMTI_EVENT_CLASS_FILE_LOAD_HOOK \<in> set (enabled u)"
  shows "(\<exists>e u'. deliver J (ClassLoad os name len data) u = (Inl e, u') \<and>
      (e = Panicked StorageMissing \<or> call_fault e)) \<and>
    fst (deliver J MonitorEntered u) = Inr ()"
proof -
  from death_empties [OF assms(1-3)] have u: "env_local u = 0" "forwarding (recorder_state u)" by simp_all
  have "registered JVMTI_EVENT_CLASS_FILE_LOAD_HOOK ClassFileLoadHook u = Some Pj_class_file_load_hook"
    using assms(4,5) by (simp add: registered_def get_initial_agent_callbacks_def default_callbacks_def)
  moreover obtain e u' where "pj_class_file_load_hook J os name len data u = (Inl e, u')"
    "e = Panicked StorageMissing \<or> call_fault e"
    using hook_without_storage [OF assms(1) u(1)] by blast
  moreover obtain t where "monitorEnter (recorder_state u) = (Inr (), t)"
    using forwarding_enter [OF u(2)] by blast
  ultimately show ?thesis by (simp add: dispatch_run zoom_def)
qed

theorem class_load_after_death_witness:
  "\<exists>u e u'. deliver reference_jvmti VmDeath loaded_world = (Inr (), u) \<and>
     deliver reference_jvmti (ClassLoad sample_os (Some ''a/B'') 3 ''old'') u = (Inl e, u') \<and>
     e \<noteq> Undefined DanglingRead"
proof -
  have rdy: "ready sample_conf loaded_world" "set agent_events \<subseteq> set (enabled loaded_world)"
    "holds_conf loaded_world sample_conf"
    using loaded_world(2) by (simp_all add: alive_def ready_def)
  obtain u where free: "EnvStorage_free reference_jvmti loaded_world = (Inr (), u)"
    by (rule free_progress [OF reference_laws reference_obliging loaded_world(3) rdy(3)])
  then have death: "deliver reference_jvmti VmDeath loaded_world = (Inr (), u)"
    using ready_registered(4) [OF rdy(1,2)] by (simp add: dispatch_run pj_vm_death_def)
  have "callbacks u = get_initial_agent_callbacks" "JVMTI_EVENT_CLASS_FILE_LOAD_HOOK \<in> set (enabled u)"
    using free_keeps [OF reference_laws rdy(3) free] rdy(1,2) by (simp_all add: ready_def agent_events_def)
  from class_load_after_death [OF reference_laws loaded_world(2) death this,
      of sample_os "Some ''a/B''" 3 "''old''"] death
  show ?thesis by fastforce
qed

end
