(* ===== verification/Service.thy ===== *)
theory Service
  imports Lifecycle
begin

text \<open>
  The agent in service: on a JVM that obliges every event is served, the memory the agent
  holds is exactly what the configuration takes, and never grows.
\<close>

section \<open>Every event is served\<close>

text \<open>
  Memory given back leaves a JVM as healthy, and so do the functions of JNI.
\<close>

definition reclaims :: "(nat \<Rightarrow> 'j world \<Rightarrow> bool) \<Rightarrow> bool" where
  "reclaims H \<longleftrightarrow> (\<forall>n w p. H n w \<longrightarrow> H n (w\<lparr>heap := (heap w)(p := None)\<rparr>))"

definition jni_obliging :: "(nat \<Rightarrow> 'j world \<Rightarrow> bool) \<Rightarrow> 'j jni_table \<Rightarrow> bool" where
  "jni_obliging H N \<longleftrightarrow>
     entry_law (FindClass N) (\<lambda>f. \<forall>name n w. H n w \<longrightarrow> H n (snd (f name w))) \<and>
     entry_law (GetStaticMethodID N) (\<lambda>f. \<forall>cls name sig n w. H n w \<longrightarrow> H n (snd (f cls name sig w))) \<and>
     entry_law (CallStaticVoidMethod N) (\<lambda>f. \<forall>cls m n w. H n w \<longrightarrow> H n (snd (f cls m w)))"

text \<open>
  Events that can be served: the VM's start where the method to be called is there; classes
  with a UTF-8 name and an instrumenter that gives classes of a size the JVM takes.
\<close>

fun servable :: "(nat \<Rightarrow> 'j world \<Rightarrow> bool) \<Rightarrow> PjAgentConf \<Rightarrow> 'j event \<Rightarrow> bool" where
  "servable H c (VmStart N) =
     (jni_laws N \<and> jni_obliging H N \<and>
      (\<exists>cls_of meth_of. jni_provides N cls_of meth_of \<and> cls_of ''java/lang/Object'' \<noteq> 0 \<and>
         (\<forall>cls name sig. meth_of cls name sig \<noteq> 0)))"
| "servable H c VmDeath = False"
| "servable H c (ClassLoad os name len data) =
     (\<exists>buf. name = Some buf \<and> utf8_valid (cstr_bytes buf) \<and> class_data_ok len data \<and>
        (\<forall>out. exec_outcome os (phasicj_exec c) (take (unat len) data) = Inr out \<longrightarrow>
           out \<noteq> [] \<and> length out < 2 ^ 31))"
| "servable H c _ = True"

lemma servable_legal: "servable H c ev \<Longrightarrow> legal_event ev \<and> ev \<noteq> VmDeath"
  by (cases ev) auto

text \<open>The blocks an event may need at a time.\<close>

fun loads :: "'j event \<Rightarrow> nat" where
  "loads (ClassLoad os name len data) = 1"
| "loads _ = 0"

lemma take_class_keeps:
  "reclaims H \<Longrightarrow> H n w \<Longrightarrow> \<exists>w'. take_class res w = (Inr (), w') \<and> H n w'"
  by (auto simp: take_class_def reclaims_def ret_def update_def split: option.split)

lemma recorder_event_keeps:
  assumes "jvmti_obliging J H" and "H n w"
  shows "H n (w\<lparr>recorder_state := r\<rparr>)"
  by (rule obliging_stable [OF assms]) simp_all

text \<open>What a program keeps when it returns.\<close>

abbreviation keeps :: "('w \<Rightarrow> bool) \<Rightarrow> ('w, 'a) prog \<Rightarrow> bool" where
  "keeps P m \<equiv> triple P m (\<lambda>_. P) (\<lambda>_ _. True)"

lemma keeps_bnd: "keeps P m \<Longrightarrow> (\<And>x. keeps P (f x)) \<Longrightarrow> keeps P (bnd m f)"
  by (rule triple_bnd)

lemma keeps_simps [simp]:
  "keeps P (ret x)" "keeps P (throw e)" "keeps P (unwrap_ok r)" "keeps P (expect p v)"
  by (auto simp: triple_def prog_simps split: sum.split option.split)

lemma keeps_foreign: "(\<And>w. P w \<Longrightarrow> P (snd (f w))) \<Longrightarrow> keeps P (foreign f)"
  by (simp add: triple_def foreign_def split_beta)

lemma jni_keeps:
  assumes "jni_obliging H N"
  shows "keeps (H n) (find_class N name)" and "keeps (H n) (get_static_method_id N cls name sig)"
    and "keeps (H n) (call_static_void_method N cls m)"
proof -
  show "keeps (H n) (find_class N name)"
    using assms by (cases "FindClass N")
      (auto simp: jni_obliging_def find_class_def expect_def intro!: keeps_bnd keeps_foreign)
  show "keeps (H n) (get_static_method_id N cls name sig)"
    using assms by (cases "GetStaticMethodID N")
      (auto simp: jni_obliging_def get_static_method_id_def expect_def intro!: keeps_bnd keeps_foreign)
  show "keeps (H n) (call_static_void_method N cls m)"
    using assms by (cases "CallStaticVoidMethod N")
      (auto simp: jni_obliging_def call_static_void_method_def expect_def intro!: keeps_bnd keeps_foreign)
qed

lemma vm_start_serves:
  assumes "servable H c (VmStart N)" and "H n w"
  obtains w' where "pj_vm_start N w = (Inr (), w')" "H n w'"
proof -
  from assms(1) obtain cls_of meth_of where N: "jni_laws N" "jni_obliging H N" "jni_provides N cls_of meth_of"
    "cls_of ''java/lang/Object'' \<noteq> 0" "\<forall>cls name sig. meth_of cls name sig \<noteq> 0" by auto
  with vm_start_cases [OF N(1,3) refl refl, of w] obtain w' where w': "pj_vm_start N w = (Inr (), w')" by auto
  have "keeps (H n) (pj_vm_start N)"
    unfolding pj_vm_start_def enable_instrumentation_def by (intro keeps_bnd jni_keeps [OF N(2)] keeps_simps)
  from tripleD_Inr [OF this assms(2) w'] w' that show thesis by blast
qed

lemma deliver_serves:
  assumes "jvmti_laws J" and "jvmti_obliging J H" and "reclaims H" and "H (loads ev + n) w"
    and "alive c w" and "\<not> debug_dump_classes_before_instr c" and "\<not> debug_dump_classes_after_instr c"
    and "servable H c ev"
  obtains w' where "deliver J ev w = (Inr (), w')" "H n w'" "alive c w'"
proof -
  have rdy: "ready c w" "set agent_events \<subseteq> set (enabled w)" "forwarding (recorder_state w)" "holds_conf w c"
    using assms(5) by (simp_all add: alive_def ready_def)
  have "\<exists>w'. deliver J ev w = (Inr (), w') \<and> H n w'"
  proof (cases ev)
    case (ClassLoad os name len data)
    with assms(8) obtain buf where buf: "name = Some buf" "utf8_valid (cstr_bytes buf)" "class_data_ok len data"
      "\<forall>out. exec_outcome os (phasicj_exec c) (take (unat len) data) = Inr out \<longrightarrow> out \<noteq> [] \<and> length out < 2 ^ 31"
      by auto
    have "H (Suc n) w" using assms(4) ClassLoad by simp
    then obtain res u where u: "pj_class_file_load_hook J os (Some buf) len data w = (Inr res, u)" "H n u"
      by (rule hook_returns [OF assms(1,2) _ rdy(4) assms(6,7) buf(3,2,4)])
    with take_class_keeps [OF assms(3) u(2)] ClassLoad buf(1) ready_registered(3) [OF rdy(1,2)]
    show ?thesis by (simp add: dispatch_run)
  next
    case (VmStart N)
    have "servable H c (VmStart N)" "H n w" using assms(4,8) VmStart by simp_all
    then obtain u where "pj_vm_start N w = (Inr (), u)" "H n u" by (rule vm_start_serves)
    with VmStart ready_registered(1) [OF rdy(1,2)] show ?thesis by (simp add: dispatch_run)
  next
    case VmInit
    with assms(4) ready_registered(2) [OF rdy(1,2)] show ?thesis by (simp add: dispatch_run pj_vm_init_def ret_def)
  next
    case MonitorEntered
    from forwarding_enter [OF rdy(3)] obtain t where "monitorEnter (recorder_state w) = (Inr (), t)" by blast
    with MonitorEntered assms(4) recorder_event_keeps [OF assms(2)] show ?thesis by (auto simp: zoom_def)
  next
    case MonitorExited
    with assms(4) recorder_event_keeps [OF assms(2)] show ?thesis by (auto simp: zoom_def monitorExit_def ret_def)
  next
    case (WorkerRound i)
    obtain x s where "on_own_thread (worker_turn i) (recorder_state w) = (x, s)" by fastforce
    with forwarding_turn [OF rdy(3) this] WorkerRound assms(4) recorder_event_keeps [OF assms(2)]
    show ?thesis by (auto simp: zoom_def)
  qed (use assms(8) in simp_all)
  then obtain w' where w': "deliver J ev w = (Inr (), w')" "H n w'" by blast
  with deliver_alive [OF assms(1,5) _ _ w'(1)] servable_legal [OF assms(8)] have "alive c w'" by simp
  with w' that show thesis by blast
qed

lemma deliver_all_Cons:
  "deliver J ev w = (Inr (), u) \<Longrightarrow> deliver_all J evs u = (rs, v) \<Longrightarrow>
   deliver_all J (ev # evs) w = (Inr () # rs, v)"
  by (simp add: deliver_all_def)

lemma deliver_all_serves:
  assumes "jvmti_laws J" and "jvmti_obliging J H" and "reclaims H"
    and "\<not> debug_dump_classes_before_instr c" and "\<not> debug_dump_classes_after_instr c"
  shows "H (sum_list (map loads evs) + n) w \<Longrightarrow> alive c w \<Longrightarrow> \<forall>ev\<in>set evs. servable H c ev \<Longrightarrow>
    \<exists>w'. deliver_all J evs w = (replicate (length evs) (Inr ()), w') \<and> H n w' \<and> alive c w'"
proof (induction evs arbitrary: w)
  case Nil
  then show ?case by (simp add: deliver_all_def)
next
  case (Cons ev evs)
  have "H (loads ev + (sum_list (map loads evs) + n)) w" "servable H c ev"
    using Cons.prems(1,3) by (simp_all add: add.assoc)
  then obtain u where u: "deliver J ev w = (Inr (), u)" "H (sum_list (map loads evs) + n) u" "alive c u"
    using deliver_serves [OF assms(1-3) _ Cons.prems(2) assms(4,5)] by metis
  with Cons.IH [OF u(2,3)] Cons.prems(3) show ?case by (auto dest: deliver_all_Cons)
qed


section \<open>The memory the agent holds\<close>

text \<open>No step of the set-up but the first allocates.\<close>

abbreviation keeps_heap :: "(pointer \<rightharpoonup> byte list) \<Rightarrow> ('j world, 'a) prog \<Rightarrow> bool" where
  "keeps_heap h m \<equiv> keeps (\<lambda>w. heap w = h) m"

lemma acts_keeps_heap:
  "acts get upd m \<Longrightarrow> (\<And>w. heap (upd w) = heap w) \<Longrightarrow> keeps_heap h m"
  by (erule triple_acts) simp_all

lemma keeps_heap_files: "keeps_heap h (zoom files files_update m)"
  by (auto simp: triple_def zoom_def split: prod.split sum.split)

lemma keeps_heap_jar:
  assumes "jvmti_laws J"
  shows "keeps_heap h (add_embedded_jar_to_bootstrap_class_loader_search J E)"
  unfolding add_embedded_jar_to_bootstrap_class_loader_search_def Let_def
  by (intro keeps_bnd keeps_heap_files keeps_simps acts_keeps_heap [OF boot_search_acts [OF assms]]) simp

lemma keeps_heap_capabilities:
  assumes "jvmti_laws J"
  shows "keeps_heap h (expect_jvmti_environment_provides_all_required_capabilities J)"
    and "keeps_heap h (add_all_required_capabilities J)"
proof -
  show "keeps_heap h (expect_jvmti_environment_provides_all_required_capabilities J)"
    by (rule expect_stage [OF assms]) simp_all
  show "keeps_heap h (add_all_required_capabilities J)"
    unfolding add_all_required_capabilities_def
    by (intro keeps_bnd acts_keeps_heap [OF capabilities_acts [OF assms]]
        acts_keeps_heap [OF add_capabilities_acts [OF assms]]) simp_all
qed

lemma keeps_heap_notifications:
  assumes "jvmti_laws J"
  shows "keeps_heap h (set_all_event_notification_modes J)"
proof -
  have one: "keeps_heap h (set_event_notification_mode J JVMTI_ENABLE e 0)" for e
    by (rule acts_keeps_heap [OF notification_acts [OF assms]]) (simp add: add_event_def)
  show ?thesis
    unfolding set_all_event_notification_modes_def Let_def by (intro keeps_bnd one)
qed

lemma keeps_heap_start:
  "keeps_heap h (zoom recorder_state recorder_state_update start_forwarding_worker_thread)"
  by (auto simp: triple_def zoom_def split: prod.split sum.split)

lemma setup_footprint:
  assumes "vm_laws vm J" and "jvmti_laws J" and "env_local w = 0" and "storable c"
    and "setup_agent vm E c w = (Inr (), w')"
  shows "grown_by (footprint c) (heap w) (heap w')"
proof -
  obtain r1 w1 where w1: "get_env vm w = (r1, w1)" by fastforce
  from get_env_cases [OF assms(1) w1] assms(5) w1 obtain j where j: "r1 = Inr (Some J)" "w1 = w\<lparr>jvm := j\<rparr>"
    by (auto simp: setup_agent_def)
  let ?rest = "seq (expect_jvmti_environment_provides_all_required_capabilities J)
     (seq (add_all_required_capabilities J) (seq (set_all_event_callbacks J)
     (seq (set_all_event_notification_modes J) (add_embedded_jar_to_bootstrap_class_loader_search J E))))"
  have rest: "keeps_heap h ?rest" for h
    unfolding set_all_event_callbacks_def
    by (intro keeps_bnd keeps_heap_capabilities [OF assms(2)] keeps_heap_notifications [OF assms(2)]
        keeps_heap_jar [OF assms(2)] acts_keeps_heap [OF set_event_callbacks_acts [OF assms(2)]]) simp
  from assms(5) w1 j obtain u v where u: "EnvStorage_init J c w1 = (Inr (), u)" "?rest u = (Inr (), v)"
    "zoom recorder_state recorder_state_update start_forwarding_worker_thread v = (Inr (), w')"
    by (auto simp: setup_agent_def configure_jvmti_env_def prog_inv)
  have "heap w' = heap u"
    using tripleD_Inr [OF rest refl u(2)] tripleD_Inr [OF keeps_heap_start refl u(3)] by simp
  moreover have "env_local w1 = 0" "heap w1 = heap w" using j(2) assms(3) by simp_all
  from init_cases [OF assms(2) this(1) assms(4)] u(1) this(2)
  have "grown_by (footprint c) (heap w) (heap u)" by (metis Inl_Inr_False Pair_inject)
  ultimately show ?thesis by simp
qed

text \<open>And no event allocates what it does not give back, or moves the storage.\<close>

lemma deliver_memory:
  assumes "jvmti_laws J" and "alive c w" and "legal_event ev" and "ev \<noteq> VmDeath"
    and "deliver J ev w = (Inr (), w')"
  shows "heap w' = heap w \<and> env_local w' = env_local w"
proof -
  have rdy: "ready c w" "set agent_events \<subseteq> set (enabled w)" "forwarding (recorder_state w)" "holds_conf w c"
    using assms(2) by (simp_all add: alive_def ready_def)
  note regs = ready_registered [OF rdy(1,2)]
  show ?thesis
  proof (cases ev)
    case (ClassLoad os name len data)
    with assms(3) obtain buf where buf: "name = Some buf" "class_data_ok len data" by auto
    obtain x u where x: "pj_class_file_load_hook J os (Some buf) len data w = (x, u)" by fastforce
    note hook = hook_cases [OF assms(1) rdy(4) buf(2) x, unfolded hook_outcome_def]
    then have env: "env_local u = env_local w" by (auto elim: hook_frame_parts)
    have run: "bnd (pj_class_file_load_hook J os (Some buf) len data) take_class w = (Inr (), w')"
      using assms(5) ClassLoad buf(1) regs(3) by (simp add: dispatch_run)
    then obtain res where res: "x = Inr res" "take_class res u = (Inr (), w')"
      using x by (cases x) simp_all
    show ?thesis
    proof (cases res)
      case None
      with res hook env show ?thesis by (simp add: take_class_def ret_def)
    next
      case (Some np)
      then obtain n p out where "res = Some (n, p)" "handed_over w out n p u" using res(1) hook by (cases np) auto
      with res(2) env show ?thesis
        by (auto simp: take_class_def ret_def update_def handed_over_def fun_eq_iff split: if_splits)
    qed
  next
    case (VmStart N)
    with assms(3) obtain cls_of meth_of where N: "jni_laws N" "jni_provides N cls_of meth_of"
      "\<forall>cls name sig. meth_of cls name sig \<noteq> 0" by auto
    have "pj_vm_start N w = (Inr (), w')" using VmStart regs(1) assms(5) by (simp add: dispatch_run)
    with vm_start_cases [OF N(1,2) refl refl, of w] show ?thesis by (auto split: if_splits)
  next
    case VmInit
    with assms(5) regs show ?thesis by (simp add: dispatch_run pj_vm_init_def ret_def)
  qed (use assms(4,5) in \<open>auto simp: zoom_def split: prod.splits\<close>)
qed

lemma deliver_all_heap:
  assumes "jvmti_laws J"
  shows "alive c w \<Longrightarrow> \<forall>ev\<in>set evs. legal_event ev \<and> ev \<noteq> VmDeath \<Longrightarrow>
    deliver_all J evs w = (replicate (length evs) (Inr ()), w') \<Longrightarrow> heap w' = heap w"
proof (induction evs arbitrary: w)
  case Nil
  then show ?case by (simp add: deliver_all_def)
next
  case (Cons ev evs)
  then obtain u where u: "deliver J ev w = (Inr (), u)"
    "deliver_all J evs u = (replicate (length evs) (Inr ()), w')"
    by (auto simp: deliver_all_def split: prod.splits sum.splits)
  have ev: "legal_event ev" "ev \<noteq> VmDeath" using Cons.prems(2) by simp_all
  have "alive c u" using deliver_alive [OF assms Cons.prems(1) ev u(1)] by simp
  with Cons.IH u(2) Cons.prems(2) deliver_memory [OF assms Cons.prems(1) ev u(1)] show ?case by simp
qed

section \<open>Properties\<close>

text \<open>A JVM that can spare \<open>m\<close> blocks more obliges with those put aside.\<close>

lemma health_law_reserve: "health_law H \<Longrightarrow> health_law (\<lambda>k. H (k + m))"
  unfolding health_law_def add_Suc by blast

lemma jvmti_obliging_reserve: "jvmti_obliging J H \<Longrightarrow> jvmti_obliging J (\<lambda>k. H (k + m))"
  unfolding jvmti_obliging_def
  by (elim conjE, intro conjI;
      (assumption | erule health_law_reserve | erule entry_obliging_mono, unfold obliging_def add_Suc, blast))

lemma vm_obliging_reserve: "vm_obliging vm H \<Longrightarrow> vm_obliging vm (\<lambda>k. H (k + m))"
  by (cases "GetEnv vm") (simp_all add: vm_obliging_def entry_obliging_def)

text \<open>
  C7. From the load on, every event is served: on an obliging JVM whose surroundings let the
  agent load, and which can spare one block more for each class, a load with valid options
  that ask for no dumps succeeds, and then every servable event returns, whatever the
  sequence: the VM's start where the method to be called is there, named classes whose
  instrumented form is of a size the JVM takes, native calls and workers. The agent is at
  work afterwards, and the death of the VM returns too, leaving the storage empty.
\<close>

theorem agent_serves:
  assumes "vm_laws vm J" and "jvmti_laws J" and "vm_obliging vm H" and "jvmti_obliging J H" and "reclaims H"
    and "hospitable (\<lambda>k. H (k + sum_list (map loads evs))) E w0" and "\<not> logger_set w0"
    and "rec_inv (recorder_state w0)"
    and "options_result options = Inr c" and "exec_fits c" and "\<not> directory_missing E c"
    and "\<not> debug_dump_classes_before_instr c" and "\<not> debug_dump_classes_after_instr c"
    and "\<forall>ev\<in>set evs. servable H c ev"
  shows "\<exists>w w'. Agent_OnLoad vm E options w0 = (Inr 0, w) \<and>
    deliver_all J evs w = (replicate (length evs) (Inr ()), w') \<and> alive c w' \<and>
    (\<exists>w''. deliver J VmDeath w' = (Inr (), w'') \<and> env_local w'' = 0)"
proof -
  obtain w where w: "Agent_OnLoad vm E options w0 = (Inr 0, w)" "started c E (w0\<lparr>logger_set := True\<rparr>) w"
    "H (sum_list (map loads evs) + 0) w"
    using load_progress [OF assms(1,2) vm_obliging_reserve [OF assms(3)] jvmti_obliging_reserve [OF assms(4)]
        assms(6,7,9-11)] by auto
  have "alive c w" using started_alive [OF w(2)] assms(8) by simp
  from deliver_all_serves [OF assms(2,4,5,12,13) w(3) this assms(14)] obtain w' where w':
    "deliver_all J evs w = (replicate (length evs) (Inr ()), w')" "H 0 w'" "alive c w'" by blast
  then have rdy: "ready c w'" "set agent_events \<subseteq> set (enabled w')" "holds_conf w' c"
    by (simp_all add: alive_def ready_def)
  obtain u where "EnvStorage_free J w' = (Inr (), u)" by (rule free_progress [OF assms(2,4) w'(2) rdy(3)])
  then have death: "deliver J VmDeath w' = (Inr (), u)"
    using ready_registered(4) [OF rdy(1,2)] by (simp add: dispatch_run pj_vm_death_def)
  from death_empties [OF assms(2) w'(3) this] w(1) w'(1,3) death show ?thesis by blast
qed

lemma reference_reclaims: "reclaims reference_healthy"
  by (simp add: reclaims_def reference_healthy_def)

lemma reference_jni_obliging: "jni_obliging reference_healthy (reference_jni cls_of meth_of)"
  by (simp add: jni_obliging_def reference_jni_def reference_healthy_def)

theorem agent_serves_witness:
  "\<exists>w w'. Agent_OnLoad reference_vm sample_embedded (Some sample_options) sample_world = (Inr 0, w) \<and>
     deliver_all reference_jvmti
       [VmStart (reference_jni (\<lambda>_. 7) (\<lambda>_ _ _. 9)), MonitorEntered,
        ClassLoad sample_os (Some ''a/B'') 3 ''old'', WorkerRound 0, MonitorExited] w =
     (replicate 5 (Inr ()), w') \<and> alive sample_conf w'"
proof -
  let ?N = "reference_jni (\<lambda>_. 7) (\<lambda>_ _ _. 9)"
  let ?evs = "[VmStart ?N, MonitorEntered, ClassLoad sample_os (Some ''a/B'') 3 ''old'', WorkerRound 0,
    MonitorExited] :: nat event list"
  have "hospitable (\<lambda>k. reference_healthy (k + sum_list (map loads ?evs))) sample_embedded sample_world"
    using sample_hospitable by (simp add: hospitable_def)
  moreover have "\<not> logger_set sample_world" "\<not> directory_missing sample_embedded sample_conf"
    "rec_inv (recorder_state sample_world)" "\<not> debug_dump_classes_before_instr sample_conf"
    "\<not> debug_dump_classes_after_instr sample_conf"
    by (simp_all add: sample_world_def sample_embedded_def directory_missing_def rec_inv_initial sample_conf_def)
  moreover have "servable reference_healthy sample_conf (VmStart ?N)"
    using reference_jni_laws reference_jni_obliging reference_jni_provides
    by (auto intro!: exI [of _ "\<lambda>_. 7"] exI [of _ "\<lambda>_ _ _. 9"])
  then have "\<forall>ev\<in>set ?evs. servable reference_healthy sample_conf ev"
    using sample_class by (simp add: sample_outcome)
  ultimately have "\<exists>w w'. Agent_OnLoad reference_vm sample_embedded (Some sample_options) sample_world = (Inr 0, w) \<and>
     deliver_all reference_jvmti ?evs w = (replicate (length ?evs) (Inr ()), w') \<and> alive sample_conf w' \<and>
     (\<exists>w''. deliver reference_jvmti VmDeath w' = (Inr (), w'') \<and> env_local w'' = 0)"
    by (intro agent_serves [OF reference_vm_laws reference_laws reference_vm_obliging reference_obliging
          reference_reclaims _ _ _ sample_options_result sample_facts(2)])
  then show ?thesis by (auto simp: eval_nat_numeral)
qed

text \<open>
  C9. The JVM's memory that the agent holds is bounded by its configuration. Through the whole
  load it gains exactly the stored structure and the executable's path, and as long as every
  event returns no lawful sequence of them makes it grow: each callback gives back what it
  took, and a replaced class belongs to the JVM. Nothing that was allocated before is touched.
  This is the memory that JVMTI allocates; the queue of the channel, and the path of the jar,
  which the set-up leaks, are the process's own.
\<close>

theorem agent_memory_bounded:
  assumes "vm_laws vm J" and "jvmti_laws J" and "env_local w0 = 0" and "rec_inv (recorder_state w0)"
    and "Agent_OnLoad vm E options w0 = (Inr 0, w)"
    and "\<forall>ev\<in>set evs. legal_event ev \<and> ev \<noteq> VmDeath"
    and "deliver_all J evs w = (replicate (length evs) (Inr ()), w')"
  shows "heap w' = heap w \<and>
    (\<exists>c. options_result options = Inr c \<and> grown_by (footprint c) (heap w0) (heap w'))"
proof -
  from assms(5) obtain c where c: "options_result options = Inr c"
    "setup_agent vm E c (w0\<lparr>logger_set := True\<rparr>) = (Inr (), w)"
    by (auto simp: on_load_rest prog_inv ret_def split: if_splits sum.splits)
  have env: "env_local (w0\<lparr>logger_set := True\<rparr>) = 0" "rec_inv (recorder_state (w0\<lparr>logger_set := True\<rparr>))"
    using assms(3,4) by simp_all
  from setup_outcome [OF assms(1,2) options_result_storable [OF c(1)] env(1) c(2)]
  have "started c E (w0\<lparr>logger_set := True\<rparr>) w" by simp
  from started_alive [OF this env(2)] have "heap w' = heap w"
    by (rule deliver_all_heap [OF assms(2) _ assms(6,7)])
  moreover from setup_footprint [OF assms(1,2) env(1) options_result_storable [OF c(1)] c(2)]
  have "grown_by (footprint c) (heap w0) (heap w)" by simp
  ultimately show ?thesis using c(1) by simp
qed

theorem agent_memory_bounded_witness:
  "\<exists>w'. deliver_all reference_jvmti [MonitorEntered, WorkerRound 0, VmInit, MonitorExited] loaded_world =
     (replicate 4 (Inr ()), w') \<and> grown_by 39 (heap sample_world) (heap w')"
proof -
  let ?evs = "[MonitorEntered, WorkerRound 0, VmInit, MonitorExited] :: nat event list"
  have evs: "\<forall>ev\<in>set ?evs. legal_event ev \<and> ev \<noteq> VmDeath" by simp
  have "reference_healthy (sum_list (map loads ?evs) + 0) loaded_world" using loaded_world(3) by simp
  moreover have "\<not> debug_dump_classes_before_instr sample_conf" "\<not> debug_dump_classes_after_instr sample_conf"
    by (simp_all add: sample_conf_def)
  ultimately obtain w' where run:
    "deliver_all reference_jvmti ?evs loaded_world = (replicate (length ?evs) (Inr ()), w')"
    using deliver_all_serves [OF reference_laws reference_obliging reference_reclaims _ _ _ loaded_world(2), of ?evs 0]
    by auto
  have inv: "rec_inv (recorder_state sample_world)" by (simp add: sample_world_def rec_inv_initial)
  from agent_memory_bounded [OF reference_vm_laws reference_laws sample_facts(3) inv loaded_world(1) evs run] run
  show ?thesis by (auto simp: sample_options_result footprint_def size_of_raw_def sample_conf_def eval_nat_numeral)
qed

end
