(* ===== verification/Readers.thy ===== *)
theory Readers
  imports Service
begin

text \<open>
  Callbacks run on many threads. A callback that reads the configuration first asks the JVM
  for the storage's pointer and then reads through it, and other events can come between the
  two. Here the two steps of \<open>EnvStorage::of\<close> (\<^verbatim>\<open>phasicj/agent/jvm/env_storage.rs\<close>) are
  interleaved with whole events.
\<close>

section \<open>Interleaved readers\<close>

text \<open>What threads have fetched and not yet read through; and what can be observed.\<close>

type_synonym readers = "nat \<rightharpoonup> pointer"

datatype 'j action =
    Fetched nat
  | Missed nat
  | Got nat "EnvStorage result"
  | Happened "'j event"

inductive reads :: "'j jvmti_table \<Rightarrow> 'j world \<times> readers \<Rightarrow> 'j action \<Rightarrow> 'j world \<times> readers \<Rightarrow> bool"
  for J where
  fetch: "held t = None \<Longrightarrow> RawEnvStorage_get_ptr J w = (Inr (Some p), u) \<Longrightarrow>
    reads J (w, held) (Fetched t) (u, held(t \<mapsto> p))"
| miss: "held t = None \<Longrightarrow> RawEnvStorage_get_ptr J w = (Inr None, u) \<Longrightarrow>
    reads J (w, held) (Missed t) (u, held)"
| read: "held t = Some p \<Longrightarrow> to_env_storage p w = (r, u) \<Longrightarrow>
    reads J (w, held) (Got t r) (u, held(t := None))"
| event: "deliver J ev w = (Inr (), u) \<Longrightarrow> reads J (w, held) (Happened ev) (u, held)"

inductive_cases reads_FetchedE: "reads J s (Fetched t) s'"
inductive_cases reads_GotE: "reads J s (Got t r) s'"
inductive_cases reads_HappenedE: "reads J s (Happened ev) s'"

abbreviation trace :: "'j jvmti_table \<Rightarrow> 'j world \<times> readers \<Rightarrow> 'j action list \<Rightarrow> 'j world \<times> readers \<Rightarrow> bool" where
  "trace J \<equiv> runs (reads J)"

text \<open>A reader that holds a pointer can always go on.\<close>

lemma read_step:
  "held t = Some p \<Longrightarrow> reads J (w, held) (Got t (fst (to_env_storage p w))) (snd (to_env_storage p w), held(t := None))"
  by (rule read) simp_all

text \<open>While the agent is alive, what is held is the storage's pointer.\<close>

definition readers_inv :: "PjAgentConf \<Rightarrow> 'j world \<times> readers \<Rightarrow> bool" where
  "readers_inv c s \<longleftrightarrow> alive c (fst s) \<and> ran (snd s) \<subseteq> {env_local (fst s)}"

fun before_death :: "'j action \<Rightarrow> bool" where
  "before_death (Happened ev) = (legal_event ev \<and> ev \<noteq> VmDeath)"
| "before_death _ = True"

lemma fetch_gives:
  assumes "jvmti_laws J" and "RawEnvStorage_get_ptr J w = (Inr (Some p), u)"
  shows "p = env_local w \<and> (\<exists>j. u = w\<lparr>jvm := j\<rparr>)"
proof (rule actsE [OF get_ptr_acts [OF assms(1)], of w], goal_cases fault returns)
  case (fault e j)
  with assms(2) show ?case by simp
next
  case (returns j)
  with assms(2) show ?case by (auto split: if_splits)
qed

lemma fetch_misses:
  assumes "jvmti_laws J" and "RawEnvStorage_get_ptr J w = (Inr None, u)"
  shows "env_local w = 0"
proof (rule actsE [OF get_ptr_acts [OF assms(1)], of w], goal_cases fault returns)
  case (fault e j)
  with assms(2) show ?case by simp
next
  case (returns j)
  with assms(2) show ?case by (auto split: if_splits)
qed

definition well_read :: "PjAgentConf \<Rightarrow> 'j action \<Rightarrow> bool" where
  "well_read c a = (case a of Got t r \<Rightarrow> r = Inr \<lparr>conf = c\<rparr> | Missed t \<Rightarrow> False | _ \<Rightarrow> True)"

lemma reads_inv:
  assumes "jvmti_laws J" and "readers_inv c s" and "before_death a" and "reads J s a s'"
  shows "readers_inv c s' \<and> well_read c a"
  using assms(4)
proof cases
  case (fetch held t w p u)
  from fetch_gives [OF assms(1) fetch(5)] obtain j where "p = env_local w" "u = w\<lparr>jvm := j\<rparr>" by blast
  with fetch assms(2) show ?thesis by (auto simp: readers_inv_def well_read_def ran_def split: if_splits)
next
  case (miss held t w u)
  with assms(2) fetch_misses [OF assms(1) miss(5)] show ?thesis
    by (simp add: readers_inv_def alive_def ready_def holds_conf_def)
next
  case (read held t p w r u)
  with assms(2) have "p = env_local w" "holds_conf w c"
    by (auto simp: readers_inv_def ran_def alive_def ready_def)
  with to_env_storage_holds read(5) have "r = Inr \<lparr>conf = c\<rparr>" "u = w" by fastforce+
  with read assms(2) show ?thesis by (auto simp: readers_inv_def well_read_def ran_def split: if_splits)
next
  case (event ev w u held)
  with assms(2,3) have ev: "alive c w" "legal_event ev" "ev \<noteq> VmDeath" by (simp_all add: readers_inv_def)
  from deliver_alive [OF assms(1) ev event(4)] deliver_memory [OF assms(1) ev event(4)]
  show ?thesis using event assms(2) by (simp add: readers_inv_def well_read_def)
qed

interpretation readers: guarded_invariant "reads J" "\<lambda>s. jvmti_laws J \<and> readers_inv c s" before_death "well_read c"
  for J and c
  by unfold_locales (blast dest: reads_inv)

text \<open>
  After the storage is freed its structure can still be read, because it was never given
  back; the path in it has been.
\<close>

definition stale_read :: "PjAgentConf \<Rightarrow> EnvStorage result" where
  "stale_read c = (if phasicj_exec c = None then Inr \<lparr>conf = c\<rparr> else Inl (Undefined DanglingRead))"

lemma freed_read:
  assumes "jvmti_laws J" and "holds_conf w c" and "EnvStorage_free J w = (Inr (), u)"
  shows "to_env_storage (env_local w) u = (stale_read c, u)"
proof (rule free_cases [OF assms(1,2)], goal_cases fault freed)
  case (fault e w')
  with assms(3) show ?case by simp
next
  case (freed w')
  then have "w' = u" using assms(3) by simp
  with freed(3,5) obtain p n where b: "heap u (env_local w) = Some (raw_bytes (raw_for c p n))"
    and x: "exec_stored w (phasicj_exec c) p n" and h: "heap u = (if p = 0 then heap w else (heap w)(p := None))"
    by auto
  have r: "read_block (env_local w) size_of_raw u = (Inr (raw_bytes (raw_for c p n)), u)"
    using b by (simp add: read_block_run size_of_raw_def)
  show ?case
  proof (cases "phasicj_exec c")
    case None
    with x have "p = 0" by (simp add: exec_stored_def)
    with r None show ?thesis
      by (simp add: to_env_storage_def prog_simps raw_bytes_fields stale_read_def)
  next
    case (Some s)
    with x have "p \<noteq> 0" by (simp add: exec_stored_def)
    with r h Some show ?thesis
      by (simp add: to_env_storage_def prog_simps raw_bytes_fields stale_read_def read_block_def [of p])
  qed
qed

lemma death_frees:
  assumes "alive c w" and "deliver J VmDeath w = (Inr (), u)"
  shows "holds_conf w c" and "EnvStorage_free J w = (Inr (), u)"
  using assms ready_registered(4) [of c w] by (simp_all add: alive_def ready_def dispatch_run pj_vm_death_def)

text \<open>The race, and a schedule on which it is run.\<close>

lemma late_reader:
  assumes "jvmti_laws J" and "alive c w"
    and "trace J (w, Map.empty) [Fetched t, Happened VmDeath, Got t r] s"
  shows "r = stale_read c"
proof -
  from assms(3) obtain s1 s2 s3 where steps: "reads J (w, Map.empty) (Fetched t) s1"
    "reads J s1 (Happened VmDeath) s2" "reads J s2 (Got t r) s3" by (auto simp: runs_Cons_iff)
  from steps(1) obtain p u where p: "RawEnvStorage_get_ptr J w = (Inr (Some p), u)" "s1 = (u, [t \<mapsto> p])"
    by (auto elim!: reads_FetchedE)
  from fetch_gives [OF assms(1) p(1)] obtain j where j: "p = env_local w" "u = w\<lparr>jvm := j\<rparr>" by blast
  from steps(2) p(2) obtain v where v: "deliver J VmDeath u = (Inr (), v)" "s2 = (v, [t \<mapsto> p])"
    by (auto elim!: reads_HappenedE)
  have "alive c u" using assms(2) j(2) by simp
  from freed_read [OF assms(1) death_frees [OF this v(1)]] j have "to_env_storage p v = (stale_read c, v)"
    by simp
  with steps(3) v(2) show ?thesis by (auto elim!: reads_GotE)
qed

lemma fetch_progress:
  assumes "jvmti_laws J" and "jvmti_obliging J H" and "H n w" and "alive c w" and "held t = None"
  obtains j where "reads J (w, held) (Fetched t) (w\<lparr>jvm := j\<rparr>, held(t \<mapsto> env_local w))" "H n (w\<lparr>jvm := j\<rparr>)"
proof (rule get_ptr_progress [OF assms(1-3)])
  fix j assume "RawEnvStorage_get_ptr J w =
      (Inr (if env_local w = 0 then None else Some (env_local w)), w\<lparr>jvm := j\<rparr>)" "H n (w\<lparr>jvm := j\<rparr>)"
  moreover have "env_local w \<noteq> 0" using assms(4) by (simp add: alive_def ready_def holds_conf_def)
  ultimately show thesis by (intro that [of j] reads.fetch [of held t, OF assms(5)]) simp_all
qed

lemma death_progress:
  assumes "jvmti_laws J" and "jvmti_obliging J H" and "H n w" and "alive c w"
  obtains u where "deliver J VmDeath w = (Inr (), u)"
proof -
  have rdy: "ready c w" "set agent_events \<subseteq> set (enabled w)" "holds_conf w c"
    using assms(4) by (simp_all add: alive_def ready_def)
  obtain u where "EnvStorage_free J w = (Inr (), u)" by (rule free_progress [OF assms(1-3) rdy(3)])
  then show thesis using ready_registered(4) [OF rdy(1,2)]
    by (intro that [of u]) (simp add: dispatch_run pj_vm_death_def)
qed

lemma late_reader_runs:
  assumes "jvmti_laws J" and "jvmti_obliging J H" and "H n w" and "alive c w"
  shows "\<exists>s. trace J (w, Map.empty) [Fetched t, Happened VmDeath, Got t (stale_read c)] s"
proof -
  obtain j where j: "reads J (w, Map.empty) (Fetched t) (w\<lparr>jvm := j\<rparr>, [t \<mapsto> env_local w])" "H n (w\<lparr>jvm := j\<rparr>)"
    by (rule fetch_progress [OF assms]) simp_all
  let ?w = "w\<lparr>jvm := j\<rparr>"
  have al: "alive c ?w" using assms(4) by simp
  obtain u where u: "deliver J VmDeath ?w = (Inr (), u)" by (rule death_progress [OF assms(1,2) j(2) al])
  from freed_read [OF assms(1) death_frees [OF al u]]
  have "to_env_storage (env_local w) u = (stale_read c, u)" by simp
  then have "reads J (u, [t \<mapsto> env_local w]) (Got t (stale_read c)) (u, [t \<mapsto> env_local w](t := None))"
    by (intro reads.read) simp_all
  with j(1) event [OF u] show ?thesis by (blast intro: runs.intros)
qed

section \<open>Properties\<close>

text \<open>
  C39. The configuration can be read concurrently until the VM dies. From a successful load on,
  however the two steps of the readers on any threads interleave with each other and with
  lawful events, no reader misses the storage or reads through a dangling pointer: every read
  gives exactly the configuration of the options, and the agent stays at work.
\<close>

theorem readers_safe:
  assumes "vm_laws vm J" and "jvmti_laws J" and "env_local w0 = 0" and "rec_inv (recorder_state w0)"
    and "Agent_OnLoad vm E options w0 = (Inr 0, w)"
    and "trace J (w, Map.empty) as s" and "list_all before_death as"
  shows "\<exists>c. options_result options = Inr c \<and> alive c (fst s) \<and> list_all (well_read c) as"
proof -
  from load_cases [OF assms(1-3,5)] obtain c where c: "options_result options = Inr c"
    "started c E (w0\<lparr>logger_set := True\<rparr>) w" by auto
  then have "readers_inv c (w, Map.empty)" using assms(4) by (auto simp: readers_inv_def intro: started_alive)
  with readers.runs_kept [OF assms(6) _ assms(7)] assms(2) c(1) show ?thesis by (auto simp: readers_inv_def)
qed

lemma sample_trace:
  obtains r s where "trace reference_jvmti (loaded_world, Map.empty)
    [Fetched 0, Happened MonitorEntered, Got 0 r] s"
proof -
  obtain j where j: "reads reference_jvmti (loaded_world, Map.empty) (Fetched 0)
      (loaded_world\<lparr>jvm := j\<rparr>, [0 \<mapsto> env_local loaded_world])"
    by (rule fetch_progress [OF reference_laws reference_obliging loaded_world(3,2)]) simp_all
  have "forwarding (recorder_state loaded_world)" using loaded_world(2) by (simp add: alive_def)
  from forwarding_enter [OF this] obtain t where
    "monitorEnter (recorder_state loaded_world) = (Inr (), t)" by blast
  then have "deliver reference_jvmti MonitorEntered (loaded_world\<lparr>jvm := j\<rparr>) =
      (Inr (), loaded_world\<lparr>jvm := j, recorder_state := t\<rparr>)" by (simp add: zoom_def)
  note steps = j event [OF this] read_step [of _ 0, OF fun_upd_same]
  show thesis by (rule that) (rule runs_cons [of "reads J" for J, OF steps(1) runs_cons [of "reads J" for J, OF steps(2) runs_single [of "reads J" for J, OF steps(3)]]])
qed

theorem readers_safe_witness:
  "\<exists>s. trace reference_jvmti (loaded_world, Map.empty)
     [Fetched 0, Happened MonitorEntered, Got 0 (Inr \<lparr>conf = sample_conf\<rparr>)] s \<and> alive sample_conf (fst s)"
proof -
  obtain r s where tr: "trace reference_jvmti (loaded_world, Map.empty)
      [Fetched 0, Happened MonitorEntered, Got 0 r] s" by (rule sample_trace)
  have inv: "rec_inv (recorder_state sample_world)" by (simp add: sample_world_def rec_inv_initial)
  have "list_all before_death [Fetched 0, Happened MonitorEntered, Got 0 r :: nat action]" by simp
  from readers_safe [OF reference_vm_laws reference_laws sample_facts(3) inv loaded_world(1) tr this] tr
  have "r = Inr \<lparr>conf = sample_conf\<rparr> \<and> alive sample_conf (fst s)"
    by (auto simp: sample_options_result well_read_def)
  with tr show ?thesis by blast
qed

text \<open>
  C23. The death of the VM races with its readers. If a thread has fetched the storage's
  pointer when \<open>VMDeath\<close> frees the storage, it then reads through it all the same: with a
  path configured this is a read of freed memory, undefined behaviour, and nothing else can
  come of it; without one it still finds the configuration, in the structure that is never
  given back.
\<close>

theorem death_race:
  assumes "jvmti_laws J" and "jvmti_obliging J H" and "H n w" and "alive c w"
  shows "(\<exists>s. trace J (w, Map.empty) [Fetched t, Happened VmDeath, Got t r] s) \<longleftrightarrow>
    r = (if phasicj_exec c = None then Inr \<lparr>conf = c\<rparr> else Inl (Undefined DanglingRead))"
proof
  assume "\<exists>s. trace J (w, Map.empty) [Fetched t, Happened VmDeath, Got t r] s"
  with late_reader [OF assms(1,4)] show "r = (if phasicj_exec c = None then Inr \<lparr>conf = c\<rparr>
    else Inl (Undefined DanglingRead))" unfolding stale_read_def by blast
next
  assume "r = (if phasicj_exec c = None then Inr \<lparr>conf = c\<rparr> else Inl (Undefined DanglingRead))"
  with late_reader_runs [OF assms, of t] show
    "\<exists>s. trace J (w, Map.empty) [Fetched t, Happened VmDeath, Got t r] s" by (simp only: stale_read_def)
qed

theorem death_race_witness:
  "\<exists>s. trace reference_jvmti (loaded_world, Map.empty)
     [Fetched 3, Happened VmDeath, Got 3 (Inl (Undefined DanglingRead))] s"
  using death_race [OF reference_laws reference_obliging loaded_world(3,2), of 3 "Inl (Undefined DanglingRead)"]
  by (simp add: sample_conf_def)

end
