(* ===== verification/HookTurns.thy ===== *)
theory HookTurns
  imports Events
begin

text \<open>
  The class file load hook (\<^verbatim>\<open>phasicj/agent/jvm/events.rs\<close>) in turns. The JVM calls it on many
  threads at once, and what the threads share is touched at a few points: the pointer to the
  storage, the stored bytes, the directories of dumped classes, and the memory of JVMTI. A
  turn goes from one such point to the next; what is left to do after it is a program
  counter with the values the rest of the function still uses.
\<close>

section \<open>Turns\<close>

text \<open>The arguments of a call; the instrumenter's environment is that of the process.\<close>

record class_request =
  req_os :: os
  req_name :: "byte list option"
  req_len :: "32 word"
  req_data :: "byte list"

datatype hook_pc =
    Entered
  | Reading pointer
  | Working PjAgentConf
  | Instrumenting PjAgentConf string "byte list"
  | Dumping PjAgentConf string "byte list"
  | Allocating "byte list"
  | Copying "byte list" pointer
  | Returning "(32 word \<times> pointer) option"
  | Stuck hook_pc

definition dump_if :: "bool \<Rightarrow> string \<Rightarrow> string \<Rightarrow> byte list \<Rightarrow> ('j world, unit) prog" where
  "dump_if b dir class_name class =
     (if b then bnd (zoom files files_update (dump_class_to_file (components dir) class_name class)) unwrap_ok
      else ret ())"

fun hook_turn :: "'j jvmti_table \<Rightarrow> class_request \<Rightarrow> hook_pc \<Rightarrow> ('j world, hook_pc) prog" where
  "hook_turn J q Entered =
     bnd (RawEnvStorage_get_ptr J) (\<lambda>found.
     bnd (expect StorageMissing found) (\<lambda>p. ret (Reading p)))"
| "hook_turn J q (Reading p) =
     bnd (to_env_storage p) (\<lambda>env_storage. ret (Working (conf env_storage)))"
| "hook_turn J q (Working c) =
     bnd (cstr_from_ptr (req_name q)) (\<lambda>bytes.
     bnd (expect UnwrapNone (case to_str bytes of Inl _ \<Rightarrow> None | Inr s \<Rightarrow> Some s)) (\<lambda>class_name.
     if starts_with class_name ''phasicj/agent/rt/'' then ret (Returning None)
     else
       bnd (slice_from_raw_parts (req_data q) (req_len q)) (\<lambda>class.
       seq (dump_if (debug_dump_classes_before_instr c) ''classes/before_instr'' class_name class)
         (ret (Instrumenting c class_name class)))))"
| "hook_turn J q (Instrumenting c class_name class) =
     bnd (case phasicj_exec c of
            None \<Rightarrow> instrument (req_os q) using_system_path class
          | Some path \<Rightarrow> instrument (req_os q) (wrap path) class) (\<lambda>instr_result.
     case instr_result of
       Inl _ \<Rightarrow> ret (Returning None)
     | Inr instrumented_class \<Rightarrow> ret (Dumping c class_name instrumented_class))"
| "hook_turn J q (Dumping c class_name instrumented_class) =
     seq (dump_if (debug_dump_classes_after_instr c) ''classes/after_instr'' class_name instrumented_class)
       (ret (Allocating instrumented_class))"
| "hook_turn J q (Allocating instrumented_class) =
     (if length instrumented_class < 2 ^ 63 then
        bnd (jvmti_allocate J (of_nat (length instrumented_class))) (\<lambda>written.
        bnd (assume_init written) (\<lambda>jvmti_buf. ret (Copying instrumented_class jvmti_buf)))
      else panic UnwrapErr)"
| "hook_turn J q (Copying instrumented_class jvmti_buf) =
     seq (write_block jvmti_buf instrumented_class)
     (if length instrumented_class < 2 ^ 31 then
        ret (Returning (Some (of_nat (length instrumented_class), jvmti_buf)))
      else panic UnwrapErr)"
| "hook_turn J q (Returning res) = ret (Returning res)"
| "hook_turn J q (Stuck pc) = ret (Stuck pc)"

fun hook_run :: "'j jvmti_table \<Rightarrow> class_request \<Rightarrow> nat \<Rightarrow> hook_pc \<Rightarrow> ('j world, hook_pc) prog" where
  "hook_run J q 0 pc = ret pc"
| "hook_run J q (Suc n) pc = bnd (hook_turn J q pc) (hook_run J q n)"

section \<open>In sequence they are the hook\<close>

text \<open>What the source still has to do at each point.\<close>

definition after_conf :: "'j jvmti_table \<Rightarrow> class_request \<Rightarrow> PjAgentConf \<Rightarrow> ('j world, (32 word \<times> pointer) option) prog" where
  "after_conf J q c =
     bnd (cstr_from_ptr (req_name q)) (\<lambda>bytes.
     bnd (expect UnwrapNone (case to_str bytes of Inl _ \<Rightarrow> None | Inr s \<Rightarrow> Some s)) (\<lambda>class_name.
     if starts_with class_name ''phasicj/agent/rt/'' then ret None
     else bnd (slice_from_raw_parts (req_data q) (req_len q)) (hook_body J (req_os q) c class_name)))"

definition after_class :: "'j jvmti_table \<Rightarrow> PjAgentConf \<Rightarrow> string \<Rightarrow> byte list \<Rightarrow> ('j world, (32 word \<times> pointer) option) prog" where
  "after_class J c class_name out =
     seq (dump_if (debug_dump_classes_after_instr c) ''classes/after_instr'' class_name out) (hand_over J out)"

fun hook_rest :: "'j jvmti_table \<Rightarrow> class_request \<Rightarrow> hook_pc \<Rightarrow> ('j world, (32 word \<times> pointer) option) prog" where
  "hook_rest J q Entered = pj_class_file_load_hook J (req_os q) (req_name q) (req_len q) (req_data q)"
| "hook_rest J q (Reading p) = bnd (to_env_storage p) (\<lambda>s. after_conf J q (conf s))"
| "hook_rest J q (Working c) = after_conf J q c"
| "hook_rest J q (Instrumenting c class_name class) =
     bnd (case phasicj_exec c of
            None \<Rightarrow> instrument (req_os q) using_system_path class
          | Some path \<Rightarrow> instrument (req_os q) (wrap path) class)
       (\<lambda>r. case r of Inl _ \<Rightarrow> ret None | Inr out \<Rightarrow> after_class J c class_name out)"
| "hook_rest J q (Dumping c class_name out) = after_class J c class_name out"
| "hook_rest J q (Allocating out) = hand_over J out"
| "hook_rest J q (Copying out p) =
     seq (write_block p out)
       (if length out < 2 ^ 31 then ret (Some (of_nat (length out), p)) else panic UnwrapErr)"
| "hook_rest J q (Returning res) = ret res"
| "hook_rest J q (Stuck pc) = panic UnreachableReached"

lemma bnd_if: "bnd (if b then m else n) f = (if b then bnd m f else bnd n f)"
  by simp

lemma bnd_case_sum: "bnd (case r of Inl e \<Rightarrow> m e | Inr x \<Rightarrow> n x) f = (case r of Inl e \<Rightarrow> bnd (m e) f | Inr x \<Rightarrow> bnd (n x) f)"
  by (cases r) simp_all

lemma hook_body_turns:
  "hook_body J os c class_name class =
     seq (dump_if (debug_dump_classes_before_instr c) ''classes/before_instr'' class_name class)
     (bnd (case phasicj_exec c of
             None \<Rightarrow> instrument os using_system_path class
           | Some path \<Rightarrow> instrument os (wrap path) class)
       (\<lambda>r. case r of Inl _ \<Rightarrow> ret None | Inr out \<Rightarrow> after_class J c class_name out))"
  unfolding hook_body_def dump_if_def after_class_def by (rule refl)

lemma hook_turn_rest: "bnd (hook_turn J q pc) (hook_rest J q) = hook_rest J q pc"
proof (cases pc)
  case Entered
  have "bnd (bnd (expect StorageMissing found) (\<lambda>p. ret (Reading p))) (hook_rest J q) =
      bnd (case found of None \<Rightarrow> ret None | Some p \<Rightarrow> bnd (to_env_storage p) (\<lambda>s. ret (Some s)))
        (\<lambda>found. bnd (expect StorageMissing found) (\<lambda>s. after_conf J q (conf s)))" for found
    by (cases found) (simp_all add: expect_def bnd_assoc)
  then show ?thesis
    by (simp add: Entered hook_eq EnvStorage_of_def after_conf_def bnd_assoc)
next
  case (Working c)
  then show ?thesis
    by (simp add: after_conf_def bnd_assoc bnd_if hook_body_turns [abs_def] cong: if_cong)
next
  case (Instrumenting c n d)
  then show ?thesis by (simp add: bnd_assoc bnd_case_sum cong: sum.case_cong)
qed (simp_all add: bnd_assoc after_class_def hand_over_def bnd_if)

lemma hook_run_rest: "bnd (hook_run J q n pc) (hook_rest J q) = hook_rest J q pc"
proof (induction n arbitrary: pc)
  case (Suc n)
  have "bnd (hook_run J q (Suc n) pc) (hook_rest J q) = bnd (hook_turn J q pc) (\<lambda>pc. bnd (hook_run J q n pc) (hook_rest J q))"
    by (simp add: bnd_assoc)
  then show ?case by (simp add: Suc.IH hook_turn_rest)
qed simp

text \<open>How many turns are left at most.\<close>

fun turns_left :: "hook_pc \<Rightarrow> nat" where
  "turns_left Entered = 7"
| "turns_left (Reading p) = 6"
| "turns_left (Working c) = 5"
| "turns_left (Instrumenting c n d) = 4"
| "turns_left (Dumping c n out) = 3"
| "turns_left (Allocating out) = 2"
| "turns_left (Copying out p) = 1"
| "turns_left (Returning r) = 0"
| "turns_left (Stuck pc) = 0"

fun live :: "hook_pc \<Rightarrow> bool" where
  "live (Returning r) = False"
| "live (Stuck pc) = False"
| "live _ = True"

lemma turn_fewer:
  "hook_turn J q pc w = (Inr pc', u) \<Longrightarrow> live pc \<Longrightarrow> turns_left pc' < turns_left pc \<and> (\<forall>x. pc' \<noteq> Stuck x)"
proof (cases pc)
  case (Instrumenting c n d)
  then show "hook_turn J q pc w = (Inr pc', u) \<Longrightarrow> live pc \<Longrightarrow> ?thesis"
    by (cases "exec_outcome (req_os q) (phasicj_exec c) d") (auto simp: instrument_conf prog_inv)
qed (auto simp: prog_inv split: if_splits)

lemma run_ends:
  "hook_run J q n pc w = (Inr pc', u) \<Longrightarrow> turns_left pc \<le> n \<Longrightarrow> (\<forall>x. pc \<noteq> Stuck x) \<Longrightarrow> \<exists>r. pc' = Returning r"
proof (induction n arbitrary: pc w)
  case 0
  then show ?case by (cases pc) (auto simp: prog_inv)
next
  case (Suc n)
  from Suc.prems(1) obtain m v where m: "hook_turn J q pc w = (Inr m, v)" "hook_run J q n m v = (Inr pc', u)"
    by (auto simp: prog_inv)
  show ?case
  proof (cases "live pc")
    case True
    from turn_fewer [OF m(1) True] Suc.prems(2) Suc.IH [OF m(2)] show ?thesis by simp
  next
    case False
    with Suc.prems(3) obtain r where "pc = Returning r" by (cases pc) auto
    with m Suc.IH [OF m(2)] show ?thesis by (auto simp: prog_inv)
  qed
qed

fun hook_value :: "hook_pc \<Rightarrow> ('j world, (32 word \<times> pointer) option) prog" where
  "hook_value (Returning r) = ret r"
| "hook_value _ = panic UnreachableReached"

lemma run_value:
  assumes "turns_left pc \<le> n" and "\<forall>x. pc \<noteq> Stuck x"
  shows "bnd (hook_run J q n pc) hook_value = hook_rest J q pc"
proof -
  have "bnd (hook_run J q n pc) hook_value w = bnd (hook_run J q n pc) (hook_rest J q) w" for w
  proof (cases "hook_run J q n pc w")
    case (Pair x u)
    show ?thesis
    proof (cases x)
      case (Inr pc')
      with Pair run_ends [of J q n pc w pc' u] assms obtain r where "pc' = Returning r" by auto
      with Pair Inr show ?thesis by simp
    qed (simp add: Pair)
  qed
  then show ?thesis using hook_run_rest [of J q n pc] by (simp add: fun_eq_iff)
qed

section \<open>What each call has come to\<close>

definition request_ok :: "class_request \<Rightarrow> bool" where
  "request_ok q \<longleftrightarrow> req_name q \<noteq> None \<and> class_data_ok (req_len q) (req_data q)"

definition request_class :: "class_request \<Rightarrow> byte list" where
  "request_class q = take (unat (req_len q)) (req_data q)"

definition own_class :: "class_request \<Rightarrow> bool" where
  "own_class q \<longleftrightarrow> (\<exists>buf. req_name q = Some buf \<and> runtime_class buf)"

definition made :: "PjAgentConf \<Rightarrow> class_request \<Rightarrow> io_error + byte list" where
  "made c q = exec_outcome (req_os q) (phasicj_exec c) (request_class q)"

text \<open>The block a call owns, and what is known at each of its points.\<close>

fun owned :: "hook_pc \<Rightarrow> pointer option" where
  "owned (Copying out p) = (if p = 0 then None else Some p)"
| "owned (Returning (Some (n, p))) = (if p = 0 then None else Some p)"
| "owned (Stuck pc) = owned pc"
| "owned _ = None"

fun pc_ok :: "PjAgentConf \<Rightarrow> class_request \<Rightarrow> 'j world \<Rightarrow> hook_pc \<Rightarrow> bool" where
  "pc_ok c q w Entered = True"
| "pc_ok c q w (Reading p) = (p = env_local w)"
| "pc_ok c q w (Working d) = (d = c)"
| "pc_ok c q w (Instrumenting d n class) = (d = c \<and> \<not> own_class q \<and> class = request_class q)"
| "pc_ok c q w (Dumping d n out) = (d = c \<and> \<not> own_class q \<and> made c q = Inr out)"
| "pc_ok c q w (Allocating out) = (\<not> own_class q \<and> made c q = Inr out)"
| "pc_ok c q w (Copying out p) =
     (\<not> own_class q \<and> made c q = Inr out \<and>
      (if p = 0 then out = [] else out \<noteq> [] \<and> (\<exists>b. heap w p = Some b \<and> length b = length out)))"
| "pc_ok c q w (Returning None) = (own_class q \<or> (\<exists>e. made c q = Inl e))"
| "pc_ok c q w (Returning (Some (n, p))) =
     (\<not> own_class q \<and> (\<exists>out. made c q = Inr out \<and> unat n = length out \<and>
        (if p = 0 then out = [] else heap w p = Some out)))"
| "pc_ok c q w (Stuck pc) = (\<forall>p. owned pc = Some p \<longrightarrow> heap w p \<noteq> None)"

lemma pc_ok_owned: "pc_ok c q w pc \<Longrightarrow> owned pc = Some p \<Longrightarrow> heap w p \<noteq> None"
  by (induction pc rule: owned.induct) (auto split: if_splits)

lemma pc_ok_cong:
  "env_local u = env_local w \<Longrightarrow> (\<And>p. owned pc = Some p \<Longrightarrow> heap u p = heap w p) \<Longrightarrow>
   pc_ok c q u pc = pc_ok c q w pc"
  by (induction pc rule: owned.induct) (auto split: if_splits)

text \<open>A turn changes at most the block of its call, or takes a fresh one.\<close>

definition own_change :: "pointer option \<Rightarrow> pointer option \<Rightarrow> (pointer \<rightharpoonup> byte list) \<Rightarrow> (pointer \<rightharpoonup> byte list) \<Rightarrow> bool" where
  "own_change own own' h h' \<longleftrightarrow>
     own' = own \<and> (\<forall>p. Some p \<noteq> own \<longrightarrow> h' p = h p) \<or>
     own = None \<and> (\<exists>p b. own' = Some p \<and> h p = None \<and> h' = h(p \<mapsto> b))"

lemma own_change_same: "own_change own own h h"
  by (simp add: own_change_def)

definition call_frame :: "'j world \<Rightarrow> 'j world \<Rightarrow> bool" where
  "call_frame w u \<longleftrightarrow> u = w\<lparr>jvm := jvm u, files := files u, heap := heap u\<rparr>"

lemma call_frame_simps [simp]:
  "call_frame w w" "call_frame w (w\<lparr>jvm := j\<rparr>)" "call_frame w (w\<lparr>files := f\<rparr>)" "call_frame w (w\<lparr>heap := h\<rparr>)"
  "call_frame w (w\<lparr>jvm := j, heap := h\<rparr>)"
  by (simp_all add: call_frame_def)

definition turn_ok :: "PjAgentConf \<Rightarrow> class_request \<Rightarrow> 'j world \<Rightarrow> hook_pc \<Rightarrow> hook_pc result \<Rightarrow> 'j world \<Rightarrow> bool" where
  "turn_ok c q w pc r u \<longleftrightarrow>
     call_frame w u \<and>
     (case r of
        Inl e \<Rightarrow> (\<exists>x. e = Panicked x) \<and> pc_ok c q u (Stuck pc) \<and>
          own_change (owned pc) (owned pc) (heap w) (heap u)
      | Inr pc' \<Rightarrow> pc_ok c q u pc' \<and> own_change (owned pc) (owned pc') (heap w) (heap u))"

lemma turn_panics:
  "call_frame w u \<Longrightarrow> heap u = heap w \<Longrightarrow> pc_ok c q w pc \<Longrightarrow> turn_ok c q w pc (Inl (Panicked x)) u"
  using pc_ok_owned [of c q w pc] by (auto simp: turn_ok_def own_change_same)

lemma turn_returns:
  "call_frame w u \<Longrightarrow> heap u = heap w \<Longrightarrow> owned pc' = owned pc \<Longrightarrow> pc_ok c q u pc' \<Longrightarrow>
   turn_ok c q w pc (Inr pc') u"
  by (simp add: turn_ok_def own_change_same)

text \<open>Each turn.\<close>

lemma dump_if_cases:
  assumes "dump_if b dir n d w = (r, u)"
  obtains (dumped) f where "u = w\<lparr>files := f\<rparr>" "r = Inr ()"
  | (panicked) f x where "u = w\<lparr>files := f\<rparr>" "r = Inl (Panicked x)"
proof -
  from dump_step [OF assms [unfolded dump_if_def]] obtain f where f:
    "u = w\<lparr>files := f\<rparr>" "\<forall>e. r = Inl e \<longrightarrow> (\<exists>q. e = Panicked q)" by blast
  show thesis
  proof (cases r)
    case (Inl e)
    with f show thesis by (auto intro: panicked)
  next
    case (Inr x)
    with f(1) show thesis by (intro dumped) simp_all
  qed
qed

lemma entered_turn:
  assumes "jvmti_laws J" and "holds_conf w c" and "hook_turn J q Entered w = (r, u)"
  shows "turn_ok c q w Entered r u"
proof (rule actsE [OF get_ptr_acts [OF assms(1)], of w], goal_cases fault returns)
  case (fault e j)
  from call_fault_panics [OF fault(1)] obtain x where "e = Panicked x" ..
  with fault assms(3) have "r = Inl (Panicked x)" "u = w\<lparr>jvm := j\<rparr>" by simp_all
  then show ?case by (simp add: turn_panics)
next
  case (returns j)
  with assms(2,3) have "r = Inr (Reading (env_local w))" "u = w\<lparr>jvm := j\<rparr>"
    by (simp_all add: holds_conf_def expect_def ret_def)
  then show ?case by (simp add: turn_returns)
qed

lemma reading_turn:
  assumes "holds_conf w c" and "hook_turn J q (Reading (env_local w)) w = (r, u)"
  shows "turn_ok c q w (Reading (env_local w)) r u"
proof -
  have "r = Inr (Working c)" "u = w" using to_env_storage_holds [OF assms(1)] assms(2) by (simp_all add: ret_def)
  then show ?thesis by (simp add: turn_returns)
qed

lemma working_turn:
  assumes "request_ok q" and "hook_turn J q (Working c) w = (r, u)"
  shows "turn_ok c q w (Working c) r u"
proof -
  obtain buf where buf: "req_name q = Some buf" using assms(1) by (auto simp: request_ok_def)
  have slice: "slice_from_raw_parts (req_data q) (req_len q) = ret (request_class q)"
    using assms(1) by (simp add: slice_from_raw_parts_def class_data_ok_def request_ok_def request_class_def)
  have own: "starts_with (cstr_bytes buf) ''phasicj/agent/rt/'' = own_class q"
    using buf by (simp add: own_class_def runtime_class_def)
  show ?thesis
  proof (cases "utf8_valid (cstr_bytes buf) \<and> \<not> own_class q")
    case False
    with assms(2) buf own have "r = (if utf8_valid (cstr_bytes buf) then Inr (Returning None)
        else Inl (Panicked UnwrapNone))" "u = w" "utf8_valid (cstr_bytes buf) \<Longrightarrow> own_class q"
      by (auto simp: cstr_from_ptr_def to_str_def expect_def ret_def throw_def split: if_splits)
    then show ?thesis by (simp add: turn_returns turn_panics)
  next
    case True
    let ?dump = "dump_if (debug_dump_classes_before_instr c) ''classes/before_instr'' (cstr_bytes buf) (request_class q)"
    obtain x v where d: "?dump w = (x, v)" by fastforce
    have run: "(r, u) = seq ?dump (ret (Instrumenting c (cstr_bytes buf) (request_class q))) w"
      using assms(2) buf True own by (simp add: cstr_from_ptr_def to_str_def expect_def slice)
    from d show ?thesis
    proof (cases rule: dump_if_cases)
      case (dumped f)
      with run d True show ?thesis by (simp add: ret_def turn_returns)
    next
      case (panicked f x)
      with run d show ?thesis by (simp add: turn_panics)
    qed
  qed
qed

lemma instrumenting_turn:
  assumes "pc_ok c q w (Instrumenting d n class)" and "hook_turn J q (Instrumenting d n class) w = (r, u)"
  shows "turn_ok c q w (Instrumenting d n class) r u"
proof (cases "made c q")
  case (Inl e)
  with assms have "r = Inr (Returning None)" "u = w" by (simp_all add: instrument_conf made_def ret_def)
  with Inl show ?thesis by (simp add: turn_returns)
next
  case (Inr out)
  with assms have "r = Inr (Dumping c n out)" "u = w" by (simp_all add: instrument_conf made_def ret_def)
  with Inr assms(1) show ?thesis by (simp add: turn_returns)
qed

lemma dumping_turn:
  assumes "pc_ok c q w (Dumping d n out)" and "hook_turn J q (Dumping d n out) w = (r, u)"
  shows "turn_ok c q w (Dumping d n out) r u"
proof -
  let ?dump = "dump_if (debug_dump_classes_after_instr d) ''classes/after_instr'' n out"
  obtain x v where v: "?dump w = (x, v)" by fastforce
  then show ?thesis
  proof (cases rule: dump_if_cases)
    case (dumped f)
    with v assms(2) have "r = Inr (Allocating out)" "u = w\<lparr>files := f\<rparr>" by (simp_all add: ret_def)
    with assms(1) show ?thesis by (simp add: turn_returns)
  next
    case (panicked f y)
    with v assms(2) have "r = Inl (Panicked y)" "u = w\<lparr>files := f\<rparr>" by simp_all
    with assms(1) show ?thesis by (simp add: turn_panics)
  qed
qed

lemma allocating_turn:
  assumes "jvmti_laws J" and "pc_ok c q w (Allocating out)" and "hook_turn J q (Allocating out) w = (r, u)"
  shows "turn_ok c q w (Allocating out) r u"
proof (cases "length out < 2 ^ 63")
  case False
  with assms(3) have "r = Inl (Panicked UnwrapErr)" "u = w" by (simp_all add: throw_def)
  with assms(2) show ?thesis by (simp add: turn_panics)
next
  case True
  then have len: "unat (of_nat (length out) :: 64 word) = length out"
    unfolding unat_of_nat by (intro mod_less) simp
  note run = assms(3) [unfolded hook_turn.simps if_P [OF True]]
  show ?thesis
  proof (rule jvmti_allocate_cases [OF assms(1), of "of_nat (length out)" w], goal_cases fault empty fresh)
    case (fault e j)
    from call_fault_panics [OF fault(1)] obtain x where "e = Panicked x" ..
    with fault run have "r = Inl (Panicked x)" "u = w\<lparr>jvm := j\<rparr>" by simp_all
    with assms(2) show ?case by (simp add: turn_panics)
  next
    case (empty j)
    then have "out = []" using len by (metis length_0_conv unsigned_0)
    moreover have "r = Inr (Copying out 0)" "u = w\<lparr>jvm := j\<rparr>"
      using empty run by (simp_all add: assume_init_def ret_def)
    ultimately show ?case using assms(2) by (simp add: turn_returns)
  next
    case (fresh p block j)
    then have "out \<noteq> []" by auto
    moreover have "r = Inr (Copying out p)" "u = w\<lparr>jvm := j, heap := (heap w)(p \<mapsto> block)\<rparr>"
      using fresh run by (simp_all add: assume_init_def ret_def)
    ultimately show ?case using fresh len assms(2) by (auto simp: turn_ok_def own_change_def)
  qed
qed

lemma copying_turn:
  assumes "pc_ok c q w (Copying out p)" and "hook_turn J q (Copying out p) w = (r, u)"
  shows "turn_ok c q w (Copying out p) r u"
proof -
  define h where "h = (if p = 0 then heap w else (heap w)(p \<mapsto> out))"
  have "write_block p out w = (Inr (), w\<lparr>heap := h\<rparr>)"
    using assms(1) by (auto simp: h_def write_block_run write_block_def split: if_splits)
  with assms(2) have run: "r = (if length out < 2 ^ 31 then Inr (Returning (Some (of_nat (length out), p)))
      else Inl (Panicked UnwrapErr))" "u = w\<lparr>heap := h\<rparr>"
    by (auto simp: ret_def throw_def split: if_splits)
  have "unat (of_nat (length out) :: 32 word) = length out" if "length out < 2 ^ 31"
    using that unfolding unat_of_nat by (intro mod_less) simp
  with run assms(1) show ?thesis
    by (auto simp: turn_ok_def own_change_def h_def split: if_splits)
qed

lemma hook_turn_ok:
  assumes "jvmti_laws J" and "holds_conf w c" and "request_ok q" and "pc_ok c q w pc" and "live pc"
    and "hook_turn J q pc w = (r, u)"
  shows "turn_ok c q w pc r u"
proof (cases pc)
  case Entered
  with entered_turn [OF assms(1,2)] assms(6) show ?thesis by simp
next
  case (Reading p)
  with reading_turn [OF assms(2)] assms(4,6) show ?thesis by simp
next
  case (Working d)
  with working_turn [OF assms(3)] assms(4,6) show ?thesis by simp
next
  case (Instrumenting d n b)
  with instrumenting_turn assms(4,6) show ?thesis by blast
next
  case (Dumping d n out)
  with dumping_turn assms(4,6) show ?thesis by blast
next
  case (Allocating out)
  with allocating_turn [OF assms(1)] assms(4,6) show ?thesis by blast
next
  case (Copying out p)
  with copying_turn assms(4,6) show ?thesis by blast
qed (use assms(5) in simp_all)

section \<open>The turns are the hook\<close>

text \<open>
  Taken one after the other, at most seven turns are the whole hook: they return what
  \<open>pj_class_file_load_hook\<close> returns, fail as it fails, and leave the same state, whatever the
  arguments, the JVM and the state are.
\<close>

lemma hook_turns_sequential:
  "bnd (hook_run J q 7 Entered) hook_value =
     pj_class_file_load_hook J (req_os q) (req_name q) (req_len q) (req_data q)"
  by (simp add: run_value)

end
