(* ===== verification/Threads.thy ===== *)
theory Threads
  imports Readers HookTurns
begin

text \<open>
  Class load hooks on many threads: the turns of the calls in flight interleave with each
  other and with the other events of the agent's life. What a call allocates is its own until
  the JVM takes it, and no other call or event touches it.
\<close>

section \<open>Calls in flight\<close>

type_synonym calls = "nat \<rightharpoonup> class_request \<times> hook_pc"

text \<open>
  What can be observed: a call, a turn of it or its failure, its return with what the JVM then
  finds in the memory it is given, and any other event.
\<close>

datatype 'j deed =
    Called nat class_request
  | Turned nat
  | Failed nat fault
  | Returned class_request "(32 word \<times> pointer) option" "byte list option"
  | Occurred "'j event"

definition found_by_jvm :: "(32 word \<times> pointer) option \<Rightarrow> 'j world \<Rightarrow> byte list option" where
  "found_by_jvm res w =
     (case res of None \<Rightarrow> None | Some (n, p) \<Rightarrow> if p = 0 then None else heap w p)"

inductive calls_step :: "'j jvmti_table \<Rightarrow> 'j world \<times> calls \<Rightarrow> 'j deed \<Rightarrow> 'j world \<times> calls \<Rightarrow> bool"
  for J where
  call: "ts t = None \<Longrightarrow>
    registered JVMTI_EVENT_CLASS_FILE_LOAD_HOOK ClassFileLoadHook w = Some Pj_class_file_load_hook \<Longrightarrow>
    calls_step J (w, ts) (Called t q) (w, ts(t \<mapsto> (q, Entered)))"
| turn: "ts t = Some (q, pc) \<Longrightarrow> live pc \<Longrightarrow> hook_turn J q pc w = (Inr pc', u) \<Longrightarrow>
    calls_step J (w, ts) (Turned t) (u, ts(t \<mapsto> (q, pc')))"
| fail: "ts t = Some (q, pc) \<Longrightarrow> live pc \<Longrightarrow> hook_turn J q pc w = (Inl e, u) \<Longrightarrow>
    calls_step J (w, ts) (Failed t e) (u, ts(t \<mapsto> (q, Stuck pc)))"
| give: "ts t = Some (q, Returning res) \<Longrightarrow> take_class res w = (Inr (), u) \<Longrightarrow>
    calls_step J (w, ts) (Returned q res (found_by_jvm res w)) (u, ts(t := None))"
| occur: "deliver J ev w = (Inr (), u) \<Longrightarrow> calls_step J (w, ts) (Occurred ev) (u, ts)"


section \<open>Ownership\<close>

definition owns :: "calls \<Rightarrow> nat \<Rightarrow> pointer option" where
  "owns ts t = (case ts t of None \<Rightarrow> None | Some (q, pc) \<Rightarrow> owned pc)"

definition owners :: "calls \<Rightarrow> pointer set" where
  "owners ts = {p. \<exists>t. owns ts t = Some p}"

lemma owns_simps [simp]:
  "owns Map.empty t = None"
  "owns (ts(t := None)) t' = (if t' = t then None else owns ts t')"
  "owns (ts(t \<mapsto> (q, pc))) t' = (if t' = t then owned pc else owns ts t')"
  by (simp_all add: owns_def)

lemma owners_empty [simp]: "owners Map.empty = {}"
  by (simp add: owners_def)

text \<open>
  The memory is what it was before any call, \<open>base\<close>, with the blocks of the calls besides, each
  of one call.
\<close>

definition apart :: "(pointer \<rightharpoonup> byte list) \<Rightarrow> (pointer \<rightharpoonup> byte list) \<Rightarrow> calls \<Rightarrow> bool" where
  "apart base h ts \<longleftrightarrow>
     (\<forall>t t' p. owns ts t = Some p \<longrightarrow> owns ts t' = Some p \<longrightarrow> t = t') \<and>
     (\<forall>p\<in>owners ts. base p = None) \<and> (\<forall>p. p \<notin> owners ts \<longrightarrow> h p = base p)"

definition calls_ok :: "PjAgentConf \<Rightarrow> 'j world \<Rightarrow> calls \<Rightarrow> bool" where
  "calls_ok c w ts \<longleftrightarrow> (\<forall>t q pc. ts t = Some (q, pc) \<longrightarrow> request_ok q \<and> pc_ok c q w pc)"

definition calls_inv :: "(pointer \<rightharpoonup> byte list) \<Rightarrow> PjAgentConf \<Rightarrow> 'j world \<times> calls \<Rightarrow> bool" where
  "calls_inv base c s =
     (case s of (w, ts) \<Rightarrow> alive c w \<and> holds_conf (w\<lparr>heap := base\<rparr>) c \<and> calls_ok c w ts \<and> apart base (heap w) ts)"

lemma apart_le: "apart base h ts \<Longrightarrow> base \<subseteq>\<^sub>m h"
  unfolding apart_def map_le_def by (metis domIff)

lemma owners_cong: "(\<And>t. owns ts t = owns us t) \<Longrightarrow> owners ts = owners us"
  by (simp add: owners_def)

lemma owns_there: "calls_ok c w ts \<Longrightarrow> owns ts t = Some p \<Longrightarrow> heap w p \<noteq> None"
  using pc_ok_owned [of c _ w _ p] by (force simp: calls_ok_def owns_def split: option.splits prod.splits)

lemma apart_move:
  assumes "apart base h ts" and "ts t = Some (q, pc)" and "\<And>t p. owns ts t = Some p \<Longrightarrow> h p \<noteq> None"
    and "own_change (owned pc) (owned pc') h h'"
  shows "apart base h' (ts(t \<mapsto> (q, pc')))"
proof -
  have own: "owns ts t = owned pc" using assms(2) by (simp add: owns_def)
  from assms(4) consider (same) "owned pc' = owned pc" "\<And>p. Some p \<noteq> owned pc \<Longrightarrow> h' p = h p"
    | (fresh) p b where "owned pc = None" "owned pc' = Some p" "h p = None" "h' = h(p \<mapsto> b)"
    by (auto simp: own_change_def)
  then show ?thesis
  proof cases
    case same
    then have "owns (ts(t \<mapsto> (q, pc'))) = owns ts" using own by (simp add: fun_eq_iff)
    then have keep: "owners (ts(t \<mapsto> (q, pc'))) = owners ts" "\<And>t'. owns (ts(t \<mapsto> (q, pc'))) t' = owns ts t'"
      by (simp_all add: owners_def)
    have "h' p = h p" if "p \<notin> owners ts" for p
      using that same(2) own by (metis (mono_tags, lifting) mem_Collect_eq owners_def)
    with assms(1) show ?thesis unfolding apart_def keep by metis
  next
    case fresh
    have new: "owners (ts(t \<mapsto> (q, pc'))) = insert p (owners ts)"
    proof (rule set_eqI)
      fix x
      have "(\<exists>t'. owns (ts(t \<mapsto> (q, pc'))) t' = Some x) \<longleftrightarrow> x = p \<or> (\<exists>t'. owns ts t' = Some x)"
        using fresh own by (metis (full_types) option.distinct(1) option.inject owns_simps(3))
      then show "x \<in> owners (ts(t \<mapsto> (q, pc'))) \<longleftrightarrow> x \<in> insert p (owners ts)" by (simp add: owners_def)
    qed
    have "p \<notin> owners ts" using assms(3) [of _ p] fresh(3) unfolding owners_def by blast
    then have "base p = None" "\<And>t'. owns ts t' \<noteq> Some p"
      using assms(1) fresh(3) by (auto simp: apart_def owners_def)
    with assms(1) fresh own show ?thesis unfolding apart_def new by auto
  qed
qed

lemma calls_ok_move:
  assumes "calls_ok c w ts" and "apart base (heap w) ts" and "ts t = Some (q, pc)" and "env_local u = env_local w"
    and "own_change (owned pc) (owned pc') (heap w) (heap u)" and "pc_ok c q u pc'"
  shows "calls_ok c u (ts(t \<mapsto> (q, pc')))"
proof -
  have "request_ok q" using assms(1,3) by (auto simp: calls_ok_def)
  moreover have "pc_ok c r u x" if "ts t' = Some (r, x)" and "t' \<noteq> t" for t' r x
  proof -
    have "pc_ok c r w x" using assms(1) that(1) by (auto simp: calls_ok_def)
    moreover have "heap u p = heap w p" if p: "owned x = Some p" for p
    proof -
      have "owns ts t' = Some p" using \<open>ts t' = Some (r, x)\<close> p by (simp add: owns_def)
      moreover from this have "heap w p \<noteq> None" by (rule owns_there [OF assms(1)])
      moreover have "owned pc \<noteq> Some p"
        using calculation(1) assms(2,3) \<open>t' \<noteq> t\<close> by (auto simp: apart_def owns_def)
      ultimately show ?thesis using assms(5) by (auto simp: own_change_def)
    qed
    ultimately show ?thesis using pc_ok_cong [of u w x c r] assms(4) by simp
  qed
  moreover have "request_ok r" if "ts t' = Some (r, x)" for t' r x
    using assms(1) that by (auto simp: calls_ok_def)
  ultimately show ?thesis using assms(6) by (auto simp: calls_ok_def)
qed

text \<open>The agent stays at work as long as the memory from before the calls is there.\<close>

lemma alive_over:
  assumes "alive c w" and "holds_conf (w\<lparr>heap := base\<rparr>) c" and "call_frame w u" and "base \<subseteq>\<^sub>m heap u"
  shows "alive c u \<and> holds_conf (u\<lparr>heap := base\<rparr>) c"
proof -
  obtain j f h where u: "u = w\<lparr>jvm := j, files := f, heap := h\<rparr>" using assms(3) unfolding call_frame_def by blast
  have "holds_conf u c" "holds_conf (u\<lparr>heap := base\<rparr>) c"
    by (rule holds_conf_mono [OF assms(2)]; use assms(4) u in simp)+
  with assms(1) u show ?thesis by (simp add: alive_def ready_def caps_claimed_def)
qed


lemma call_frame_env: "call_frame w u \<Longrightarrow> env_local u = env_local w"
  unfolding call_frame_def by (drule arg_cong [of _ _ env_local]) simp

lemma calls_inv_move:
  assumes "calls_inv base c (w, ts)" and "ts t = Some (q, pc)" and "call_frame w u"
    and "own_change (owned pc) (owned pc') (heap w) (heap u)" and "pc_ok c q u pc'"
  shows "calls_inv base c (u, ts(t \<mapsto> (q, pc')))"
proof -
  have inv: "alive c w" "holds_conf (w\<lparr>heap := base\<rparr>) c" "calls_ok c w ts" "apart base (heap w) ts"
    using assms(1) by (simp_all add: calls_inv_def)
  have env: "env_local u = env_local w"
    using assms(3) by (rule call_frame_env)
  have ap: "apart base (heap u) (ts(t \<mapsto> (q, pc')))"
    by (rule apart_move [OF inv(4) assms(2) owns_there [OF inv(3)] assms(4)])
  moreover have "calls_ok c u (ts(t \<mapsto> (q, pc')))"
    by (rule calls_ok_move [OF inv(3,4) assms(2) env assms(4,5)])
  moreover have "alive c u \<and> holds_conf (u\<lparr>heap := base\<rparr>) c"
    by (rule alive_over [OF inv(1,2) assms(3) apart_le [OF ap]])
  ultimately show ?thesis by (simp add: calls_inv_def)
qed

text \<open>The JVM takes a class and frees its block.\<close>

lemma apart_give:
  assumes "apart base h ts" and "owns ts t = own" and "own = (if p = 0 then None else Some p)"
  shows "apart base (if p = 0 then h else h(p := None)) (ts(t := None))"
proof -
  have one: "owns ts t1 = Some x \<Longrightarrow> owns ts t2 = Some x \<Longrightarrow> t1 = t2" for t1 t2 x
    using assms(1) unfolding apart_def by blast
  have "(\<exists>t'. owns (ts(t := None)) t' = Some x) \<longleftrightarrow> (\<exists>t'. owns ts t' = Some x) \<and> own \<noteq> Some x" for x
    using one assms(2) by (metis option.distinct(1) owns_simps(2))
  then have rest: "owners (ts(t := None)) = owners ts - {x. own = Some x}"
    by (auto simp: owners_def)
  have "p \<noteq> 0 \<Longrightarrow> p \<in> owners ts" using assms(2,3) by (auto simp: owners_def)
  with assms(1,3) show ?thesis unfolding apart_def rest by (auto split: if_splits)
qed

lemma calls_ok_give:
  assumes "calls_ok c w ts" and "apart base (heap w) ts" and "env_local u = env_local w"
    and "\<And>x. owns ts t \<noteq> Some x \<Longrightarrow> heap u x = heap w x"
  shows "calls_ok c u (ts(t := None))"
proof -
  have "pc_ok c r u x" if "ts t' = Some (r, x)" and "t' \<noteq> t" for t' r x
  proof -
    have "pc_ok c r w x" using assms(1) that(1) by (auto simp: calls_ok_def)
    moreover have "heap u p = heap w p" if p: "owned x = Some p" for p
    proof (rule assms(4))
      have "owns ts t' = Some p" using \<open>ts t' = Some (r, x)\<close> p by (simp add: owns_def)
      then show "owns ts t \<noteq> Some p" using assms(2) \<open>t' \<noteq> t\<close> by (auto simp: apart_def)
    qed
    ultimately show ?thesis using pc_ok_cong [of u w x c r] assms(3) by simp
  qed
  then show ?thesis using assms(1) by (auto simp: calls_ok_def)
qed

lemma owned_not_null: "owned pc \<noteq> Some 0"
  by (induction pc rule: owned.induct) auto

lemma take_class_run:
  "take_class res w = (Inr (), u) \<Longrightarrow>
   u = w\<lparr>heap := (case owned (Returning res) of None \<Rightarrow> heap w | Some p \<Rightarrow> (heap w)(p := None))\<rparr>"
  by (cases res) (auto simp: take_class_def ret_def update_def split: if_splits)

lemma calls_inv_give:
  assumes "calls_inv base c (w, ts)" and "ts t = Some (q, Returning res)" and "take_class res w = (Inr (), u)"
  shows "calls_inv base c (u, ts(t := None))"
proof -
  have inv: "alive c w" "holds_conf (w\<lparr>heap := base\<rparr>) c" "calls_ok c w ts" "apart base (heap w) ts"
    using assms(1) by (simp_all add: calls_inv_def)
  define h where "h = (case owned (Returning res) of None \<Rightarrow> heap w | Some p \<Rightarrow> (heap w)(p := None))"
  have u: "u = w\<lparr>heap := h\<rparr>" using take_class_run [OF assms(3)] by (simp add: h_def)
  have own: "owns ts t = owned (Returning res)" using assms(2) by (simp add: owns_def)
  define p where "p = (case owned (Returning res) of None \<Rightarrow> 0 | Some p \<Rightarrow> p)"
  have p: "owned (Returning res) = (if p = 0 then None else Some p)"
    unfolding p_def using owned_not_null [of "Returning res"] by (cases "owned (Returning res)") auto
  have "h = (if p = 0 then heap w else (heap w)(p := None))"
    unfolding h_def p by simp
  with apart_give [OF inv(4) own p] u have ap: "apart base (heap u) (ts(t := None))" by simp
  have "heap u x = heap w x" if "owns ts t \<noteq> Some x" for x
    using that u own by (auto simp: h_def split: option.splits)
  with inv(3,4) u have "calls_ok c u (ts(t := None))"
    by (intro calls_ok_give [of c w ts base]) simp_all
  moreover have "alive c u \<and> holds_conf (u\<lparr>heap := base\<rparr>) c"
    by (rule alive_over [OF inv(1,2) _ apart_le [OF ap]]) (simp add: u)
  ultimately show ?thesis using ap by (simp add: calls_inv_def)
qed

section \<open>Every step\<close>

text \<open>The steps the claims are about, and what has then come of each.\<close>

fun lawful :: "'j deed \<Rightarrow> bool" where
  "lawful (Called t q) = request_ok q"
| "lawful (Occurred ev) = (legal_event ev \<and> ev \<noteq> VmDeath)"
| "lawful _ = True"

fun well_done :: "PjAgentConf \<Rightarrow> 'j deed \<Rightarrow> bool" where
  "well_done c (Failed t e) = (\<exists>x. e = Panicked x)"
| "well_done c (Returned q None found) = (own_class q \<or> (\<exists>e. made c q = Inl e))"
| "well_done c (Returned q (Some (n, p)) found) =
     (\<not> own_class q \<and> (\<exists>out. made c q = Inr out \<and> unat n = length out \<and>
        (if p = 0 then out = [] else found = Some out)))"
| "well_done c _ = True"

lemma returned_well:
  assumes "pc_ok c q w (Returning res)"
  shows "well_done c (Returned q res (found_by_jvm res w))"
proof (cases res)
  case None
  with assms show ?thesis by simp
next
  case (Some np)
  obtain n p where np: "np = (n, p)" by fastforce
  from assms [unfolded Some np pc_ok.simps] obtain out where "\<not> own_class q" "made c q = Inr out"
    "unat n = length out" "if p = 0 then out = [] else heap w p = Some out" by blast
  then show ?thesis unfolding Some np well_done.simps found_by_jvm_def by simp
qed

lemma calls_step_inv:
  assumes "jvmti_laws J" and "calls_inv base c s" and "lawful a" and "calls_step J s a s'"
  shows "calls_inv base c s' \<and> well_done c a"
  using assms(4)
proof cases
  case (call ts t w q)
  with assms(2) have "calls_inv base c (w, ts)" by simp
  moreover have "owners (ts(t \<mapsto> (q, Entered))) = owners ts"
    using call(4) by (intro owners_cong) (simp add: owns_def)
  moreover have "owns (ts(t \<mapsto> (q, Entered))) t' = owns ts t'" for t'
    using call(4) by (simp add: owns_def)
  ultimately show ?thesis using call assms(3) by (auto simp: calls_inv_def calls_ok_def apart_def)
next
  case (turn ts t q pc w pc' u)
  with assms(2) have inv: "calls_inv base c (w, ts)" by simp
  then have "holds_conf w c" "request_ok q" "pc_ok c q w pc"
    using turn(4) by (auto simp: calls_inv_def alive_def ready_def calls_ok_def)
  from hook_turn_ok [OF assms(1) this turn(5,6)] have "call_frame w u" "pc_ok c q u pc'"
    "own_change (owned pc) (owned pc') (heap w) (heap u)" by (simp_all add: turn_ok_def)
  with calls_inv_move [OF inv turn(4)] turn show ?thesis by simp
next
  case (fail ts t q pc w e u)
  with assms(2) have inv: "calls_inv base c (w, ts)" by simp
  then have "holds_conf w c" "request_ok q" "pc_ok c q w pc"
    using fail(4) by (auto simp: calls_inv_def alive_def ready_def calls_ok_def)
  from hook_turn_ok [OF assms(1) this fail(5,6)] have "call_frame w u" "pc_ok c q u (Stuck pc)"
    "own_change (owned pc) (owned (Stuck pc)) (heap w) (heap u)" "\<exists>x. e = Panicked x" by (simp_all add: turn_ok_def)
  with calls_inv_move [OF inv fail(4)] fail show ?thesis by simp
next
  case (give ts t q res w u)
  with assms(2) have inv: "calls_inv base c (w, ts)" by simp
  then have "pc_ok c q w (Returning res)" using give(4) by (simp add: calls_inv_def calls_ok_def)
  with calls_inv_give [OF inv give(4,5)] give show ?thesis by (simp add: returned_well del: pc_ok.simps)
next
  case (occur ev w u ts)
  with assms(2,3) have ev: "alive c w" "legal_event ev" "ev \<noteq> VmDeath" by (simp_all add: calls_inv_def)
  from deliver_alive [OF assms(1) ev occur(4)] have "alive c u" by simp
  moreover have mem: "heap u = heap w" "env_local u = env_local w"
    using deliver_memory [OF assms(1) ev occur(4)] by simp_all
  moreover from this have "pc_ok c q u pc = pc_ok c q w pc" for q pc by (intro pc_ok_cong) simp_all
  moreover have "holds_conf (u\<lparr>heap := base\<rparr>) c" if "holds_conf (w\<lparr>heap := base\<rparr>) c"
    by (rule holds_conf_mono [OF that]) (simp_all add: mem)
  ultimately show ?thesis using occur assms(2) by (simp add: calls_inv_def calls_ok_def)
qed

interpretation calls: guarded_invariant "calls_step J" "\<lambda>s. jvmti_laws J \<and> calls_inv base c s" lawful "well_done c"
  for J and base and c
  by unfold_locales (blast dest: calls_step_inv)

lemma calls_inv_initial: "alive c w \<Longrightarrow> calls_inv (heap w) c (w, Map.empty)"
  by (simp add: calls_inv_def calls_ok_def apart_def alive_def ready_def)

section \<open>Properties\<close>

lemma loaded_inv:
  assumes "vm_laws vm J" and "jvmti_laws J" and "env_local w0 = 0" and "rec_inv (recorder_state w0)"
    and "Agent_OnLoad vm E options w0 = (Inr 0, w)"
  obtains c where "options_result options = Inr c" and "calls_inv (heap w) c (w, Map.empty)"
proof -
  from load_cases [OF assms(1-3,5)] obtain c where "options_result options = Inr c"
    "started c E (w0\<lparr>logger_set := True\<rparr>) w" by auto
  then have "alive c w" "options_result options = Inr c" using assms(4) by (auto intro: started_alive)
  then show thesis by (intro that [of c] calls_inv_initial)
qed

text \<open>
  C8. Class file load hooks may run on any number of threads at once. From a successful load
  on, whatever the order in which the turns of the calls in flight interleave with each other
  and with other lawful events, the agent stays at work; a call fails only by a panic; each
  class the JVM takes is in memory exactly what the instrumenter made of the bytes of that
  call, with its length, and a class is kept only when it is the agent's own or its
  instrumenter failed. Every block a call holds is its own, and the rest of the memory is as
  the load left it.
\<close>

theorem hooks_interleave:
  assumes "vm_laws vm J" and "jvmti_laws J" and "env_local w0 = 0" and "rec_inv (recorder_state w0)"
    and "Agent_OnLoad vm E options w0 = (Inr 0, w)"
    and "runs (calls_step J) (w, Map.empty) as (w', ts)" and "list_all lawful as"
  shows "\<exists>c. options_result options = Inr c \<and> alive c w' \<and> list_all (well_done c) as \<and>
    apart (heap w) (heap w') ts"
proof -
  obtain c where "options_result options = Inr c" "calls_inv (heap w) c (w, Map.empty)"
    by (rule loaded_inv [OF assms(1-5)])
  with calls.runs_kept [OF assms(6) _ assms(7), of "heap w" c] assms(2) show ?thesis
    by (auto simp: calls_inv_def)
qed

text \<open>Two calls on the reference JVM, the second overtaking the first.\<close>

definition sample_request :: class_request where
  "sample_request = \<lparr>req_os = sample_os, req_name = Some ''a/B'', req_len = 3, req_data = ''old''\<rparr>"

lemma sample_request_ok: "request_ok sample_request"
  using sample_class by (simp add: request_ok_def sample_request_def)

lemma loaded_reserve: "reference_healthy 2 loaded_world"
proof -
  have "hospitable (\<lambda>k. reference_healthy (k + 2)) sample_embedded sample_world"
    using sample_hospitable by (simp add: hospitable_def)
  moreover have "\<not> logger_set sample_world" "\<not> directory_missing sample_embedded sample_conf"
    by (simp_all add: sample_world_def sample_embedded_def directory_missing_def)
  ultimately obtain w where "Agent_OnLoad reference_vm sample_embedded (Some sample_options) sample_world = (Inr 0, w)"
    "reference_healthy (0 + 2) w"
    using load_progress [OF reference_vm_laws reference_laws vm_obliging_reserve [OF reference_vm_obliging]
        jvmti_obliging_reserve [OF reference_obliging] _ _ sample_options_result sample_facts(2)] by blast
  then show ?thesis by (simp add: loaded_world_def numeral_2_eq_2)
qed

abbreviation overtaking :: "nat deed list" where
  "overtaking \<equiv> [Called 0 sample_request, Called 1 sample_request, Turned 0]"

lemma overtaking_runs:
  obtains w where "runs (calls_step reference_jvmti) (loaded_world, Map.empty) overtaking
      (w, [0 \<mapsto> (sample_request, Reading (env_local loaded_world)), 1 \<mapsto> (sample_request, Entered)])"
    "reference_healthy 2 w"
proof -
  obtain j where j: "RawEnvStorage_get_ptr reference_jvmti loaded_world =
      (Inr (if env_local loaded_world = 0 then None else Some (env_local loaded_world)), loaded_world\<lparr>jvm := j\<rparr>)"
    "reference_healthy 2 (loaded_world\<lparr>jvm := j\<rparr>)"
    by (rule get_ptr_progress [OF reference_laws reference_obliging loaded_reserve])
  let ?ts = "[0 \<mapsto> (sample_request, Entered), 1 \<mapsto> (sample_request, Entered)] :: calls"
  have reg: "registered JVMTI_EVENT_CLASS_FILE_LOAD_HOOK ClassFileLoadHook loaded_world = Some Pj_class_file_load_hook"
    using loaded_world(2) ready_registered(3) [of sample_conf loaded_world] by (simp add: alive_def)
  have "hook_turn reference_jvmti sample_request Entered loaded_world =
      (Inr (Reading (env_local loaded_world)), loaded_world\<lparr>jvm := j\<rparr>)"
    using j(1) loaded_world(2) by (simp add: alive_def ready_def holds_conf_def expect_def ret_def)
  then have "calls_step reference_jvmti (loaded_world, ?ts) (Turned 0)
      (loaded_world\<lparr>jvm := j\<rparr>, ?ts(0 \<mapsto> (sample_request, Reading (env_local loaded_world))))"
    by (intro turn [of ?ts 0 sample_request Entered]) simp_all
  moreover have "calls_step reference_jvmti (loaded_world, Map.empty) (Called 0 sample_request)
      (loaded_world, [0 \<mapsto> (sample_request, Entered)])" by (rule call) (simp_all add: reg)
  moreover have "calls_step reference_jvmti (loaded_world, [0 \<mapsto> (sample_request, Entered)]) (Called 1 sample_request)
      (loaded_world, ?ts)" by (rule call) (simp_all add: reg)
  moreover have "?ts(0 \<mapsto> (sample_request, Reading (env_local loaded_world))) =
      [0 \<mapsto> (sample_request, Reading (env_local loaded_world)), 1 \<mapsto> (sample_request, Entered)]"
    by (simp add: fun_upd_twist)
  ultimately show thesis by (intro that [OF _ j(2)]) (auto simp: runs_Cons_iff)
qed

theorem hooks_interleave_witness:
  "\<exists>w ts. runs (calls_step reference_jvmti) (loaded_world, Map.empty) overtaking (w, ts) \<and>
     alive sample_conf w \<and> apart (heap loaded_world) (heap w) ts"
proof -
  obtain w ts where w: "runs (calls_step reference_jvmti) (loaded_world, Map.empty) overtaking (w, ts)"
    using overtaking_runs by metis
  have inv: "rec_inv (recorder_state sample_world)" by (simp add: sample_world_def rec_inv_initial)
  have "list_all lawful overtaking" using sample_request_ok by simp
  from hooks_interleave [OF reference_vm_laws reference_laws sample_facts(3) inv loaded_world(1) w this] w
  show ?thesis by (auto simp: sample_options_result)
qed

end
