(* ===== verification/Pipes.thy ===== *)
theory Pipes
  imports Instrumenter
begin

text \<open>
  The instrumenter's child process at the level of its pipes
  (\<^verbatim>\<open>phasicj/agent/instr/rust/lib.rs\<close>). The agent writes the whole class to the child's
  standard input, closes it, reads the child's standard output to its end and waits. A pipe
  holds only so much, and the child runs at its own pace: here is what becomes of the call
  with the program that the agent is made for, \<^verbatim>\<open>phasicj/agent/instr/cli/Cli.java\<close>, and with
  one that writes while it reads.
\<close>

section \<open>Two processes and two pipes\<close>

text \<open>
  What a program does next: it asks for at most so many bytes, offers some for writing, or
  ends. An empty read is the end of the input.
\<close>

datatype 's act =
    Read nat "byte list \<Rightarrow> 's"
  | Write "byte list" "nat \<Rightarrow> 's"
  | Exit bool

datatype 's kid = Running 's | Exited bool

text \<open>\<open>write_all\<close>, then the two stages of \<open>wait_with_output\<close>, then the result.\<close>

datatype parent = Writing "byte list" | Collecting "byte list" | Finished "io_error + Output"

record 's piped =
  par :: parent
  to_child :: "byte list"
  from_child :: "byte list"
  kid :: "'s kid"

fun stdin_closed :: "parent \<Rightarrow> bool" where
  "stdin_closed (Writing bs) = False"
| "stdin_closed _ = True"

text \<open>Each system call moves what it can, at least a byte; it waits if there is none to move.\<close>

inductive pipe_step :: "nat \<Rightarrow> ('s \<Rightarrow> 's act) \<Rightarrow> 's piped \<Rightarrow> 's piped \<Rightarrow> bool" for K prog where
  send: "par s = Writing bs \<Longrightarrow> kid s = Running x \<Longrightarrow> 0 < k \<Longrightarrow> k \<le> length bs \<Longrightarrow>
    length (to_child s) + k \<le> K \<Longrightarrow>
    pipe_step K prog s (s\<lparr>par := Writing (drop k bs), to_child := to_child s @ take k bs\<rparr>)"
| broken: "par s = Writing bs \<Longrightarrow> bs \<noteq> [] \<Longrightarrow> kid s = Exited b \<Longrightarrow>
    pipe_step K prog s (s\<lparr>par := Finished (Inl BrokenPipe)\<rparr>)"
| close: "par s = Writing [] \<Longrightarrow> pipe_step K prog s (s\<lparr>par := Collecting []\<rparr>)"
| collect: "par s = Collecting got \<Longrightarrow> 0 < k \<Longrightarrow> k \<le> length (from_child s) \<Longrightarrow>
    pipe_step K prog s (s\<lparr>par := Collecting (got @ take k (from_child s)), from_child := drop k (from_child s)\<rparr>)"
| reap: "par s = Collecting got \<Longrightarrow> from_child s = [] \<Longrightarrow> kid s = Exited b \<Longrightarrow>
    pipe_step K prog s (s\<lparr>par := Finished (Inr \<lparr>status_success = b, out_bytes = got\<rparr>)\<rparr>)"
| take_in: "kid s = Running x \<Longrightarrow> prog x = Read n f \<Longrightarrow> 0 < k \<Longrightarrow> k \<le> n \<Longrightarrow> k \<le> length (to_child s) \<Longrightarrow>
    pipe_step K prog s (s\<lparr>kid := Running (f (take k (to_child s))), to_child := drop k (to_child s)\<rparr>)"
| end_of_input: "kid s = Running x \<Longrightarrow> prog x = Read n f \<Longrightarrow> to_child s = [] \<Longrightarrow> stdin_closed (par s) \<Longrightarrow>
    pipe_step K prog s (s\<lparr>kid := Running (f [])\<rparr>)"
| put: "kid s = Running x \<Longrightarrow> prog x = Write bs f \<Longrightarrow> 0 < k \<Longrightarrow> k \<le> length bs \<Longrightarrow>
    length (from_child s) + k \<le> K \<Longrightarrow>
    pipe_step K prog s (s\<lparr>kid := Running (f k), from_child := from_child s @ take k bs\<rparr>)"
| quit: "kid s = Running x \<Longrightarrow> prog x = Exit b \<Longrightarrow> pipe_step K prog s (s\<lparr>kid := Exited b\<rparr>)"

definition spawned :: "'s \<Rightarrow> byte list \<Rightarrow> 's piped" where
  "spawned x class_data = \<lparr>par = Writing class_data, to_child = [], from_child = [], kid = Running x\<rparr>"

text \<open>Systems that run down, whatever is done.\<close>

locale running_down =
  fixes step :: "'s \<Rightarrow> 's \<Rightarrow> bool" and inv :: "'s \<Rightarrow> bool" and left :: "'s \<Rightarrow> nat"
  assumes down: "inv s \<Longrightarrow> step s t \<Longrightarrow> inv t \<and> left t < left s"
begin

lemma after: "(step ^^ m) s t \<Longrightarrow> inv s \<Longrightarrow> inv t \<and> m + left t \<le> left s"
proof (induction m arbitrary: t)
  case (Suc m)
  then obtain u where "(step ^^ m) s u" "step u t" by (auto elim: relpowp_Suc_E)
  with Suc.IH [of u] Suc.prems(2) down [of u t] show ?case by simp
qed simp

lemma rests: "inv s \<Longrightarrow> \<exists>m t. (step ^^ m) s t \<and> \<not> (\<exists>u. step t u)"
proof (induction "left s" arbitrary: s rule: less_induct)
  case less
  show ?case
  proof (cases "\<exists>u. step s u")
    case True
    then obtain u where u: "step s u" ..
    with less down obtain m t where "(step ^^ m) u t" "\<not> (\<exists>v. step t v)" by blast
    with u show ?thesis by (metis relpowp_Suc_I2)
  next
    case False
    then show ?thesis by (metis relpowp_0_I)
  qed
qed

end

section \<open>The command line instrumenter\<close>

text \<open>
  \<open>Cli.main\<close> reads its input to the end, refuses what is no class file, and writes what the
  bytecode library makes of it; that library is an argument, which gives nothing when it
  throws. \<open>want\<close> is the room that \<open>ByteStreams.toByteArray\<close> has for the next read.
\<close>

definition MAGIC_NUMBER :: "byte list" where
  "MAGIC_NUMBER = map char_of [0xCA, 0xFE, 0xBA, 0xBE :: nat]"

definition hasMagicNumber :: "byte list \<Rightarrow> bool" where
  "hasMagicNumber data =
     (if length data < length MAGIC_NUMBER then False
      else list_all (\<lambda>idx. data ! idx = MAGIC_NUMBER ! idx) [0..<length MAGIC_NUMBER])"

definition appearsToBeClassData :: "byte list \<Rightarrow> bool" where
  "appearsToBeClassData data = hasMagicNumber data"

datatype cli = Slurping "byte list" | Printing "byte list" | Failing

definition cli_decide :: "(byte list \<Rightarrow> byte list option) \<Rightarrow> byte list \<Rightarrow> cli" where
  "cli_decide asm class_data =
     (if \<not> appearsToBeClassData class_data then Failing
      else (case asm class_data of None \<Rightarrow> Failing | Some out \<Rightarrow> Printing out))"

fun cli_main :: "(byte list \<Rightarrow> nat) \<Rightarrow> (byte list \<Rightarrow> byte list option) \<Rightarrow> cli \<Rightarrow> cli act" where
  "cli_main want asm (Slurping acc) =
     Read (want acc) (\<lambda>bs. if bs = [] then cli_decide asm acc else Slurping (acc @ bs))"
| "cli_main want asm (Printing out) = (if out = [] then Exit True else Write out (\<lambda>k. Printing (drop k out)))"
| "cli_main want asm Failing = Exit False"

text \<open>The program as the rest of the development sees one: by what comes of its input.\<close>

definition cli_output :: "(byte list \<Rightarrow> byte list option) \<Rightarrow> byte list \<Rightarrow> Output" where
  "cli_output asm d =
     (case cli_decide asm d of
        Printing out \<Rightarrow> \<lparr>status_success = True, out_bytes = out\<rparr>
      | _ \<Rightarrow> \<lparr>status_success = False, out_bytes = []\<rparr>)"

definition cli_process :: "(byte list \<Rightarrow> byte list option) \<Rightarrow> process" where
  "cli_process asm = \<lparr>accepts = (\<lambda>_. Inr ()), ends = (\<lambda>d. Inr (cli_output asm d))\<rparr>"

text \<open>Where the bytes are, and how much is left to do.\<close>

fun cli_inv :: "(byte list \<Rightarrow> byte list option) \<Rightarrow> byte list \<Rightarrow> parent \<Rightarrow> byte list \<Rightarrow> byte list \<Rightarrow> cli kid \<Rightarrow> bool" where
  "cli_inv asm d (Writing bs) i r (Running (Slurping acc)) = (r = [] \<and> acc @ i @ bs = d)"
| "cli_inv asm d (Collecting got) i r (Running (Slurping acc)) = (r = [] \<and> got = [] \<and> acc @ i = d)"
| "cli_inv asm d (Collecting got) i r (Running (Printing out)) =
     (i = [] \<and> cli_output asm d = \<lparr>status_success = True, out_bytes = got @ r @ out\<rparr>)"
| "cli_inv asm d (Collecting got) i r (Running Failing) =
     (i = [] \<and> got = [] \<and> r = [] \<and> cli_output asm d = \<lparr>status_success = False, out_bytes = []\<rparr>)"
| "cli_inv asm d (Collecting got) i r (Exited b) =
     (i = [] \<and> cli_output asm d = \<lparr>status_success = b, out_bytes = got @ r\<rparr>)"
| "cli_inv asm d (Finished res) i r (Exited b) = (i = [] \<and> r = [] \<and> res = Inr (cli_output asm d))"
| "cli_inv asm d _ i r _ = False"

fun cli_left :: "byte list \<Rightarrow> parent \<Rightarrow> byte list \<Rightarrow> byte list \<Rightarrow> cli kid \<Rightarrow> nat" where
  "cli_left out p i r k =
     (case p of Writing bs \<Rightarrow> 2 * length bs + 2 | Collecting got \<Rightarrow> 1 | Finished res \<Rightarrow> 0) +
     length i + length r +
     (case k of
        Running (Slurping acc) \<Rightarrow> 2 * length out + 2
      | Running (Printing rest) \<Rightarrow> 2 * length rest + 1
      | Running Failing \<Rightarrow> 1
      | Exited b \<Rightarrow> 0)"

abbreviation cli_state :: "(byte list \<Rightarrow> byte list option) \<Rightarrow> byte list \<Rightarrow> cli piped \<Rightarrow> bool" where
  "cli_state asm d s \<equiv> cli_inv asm d (par s) (to_child s) (from_child s) (kid s)"

abbreviation cli_size :: "(byte list \<Rightarrow> byte list option) \<Rightarrow> byte list \<Rightarrow> cli piped \<Rightarrow> nat" where
  "cli_size asm d s \<equiv> cli_left (out_bytes (cli_output asm d)) (par s) (to_child s) (from_child s) (kid s)"

lemma cli_decided:
  "cli_decide asm d = x \<Longrightarrow>
     (case x of Slurping acc \<Rightarrow> False
      | Printing out \<Rightarrow> cli_output asm d = \<lparr>status_success = True, out_bytes = out\<rparr>
      | Failing \<Rightarrow> cli_output asm d = \<lparr>status_success = False, out_bytes = []\<rparr>)"
  by (auto simp: cli_output_def cli_decide_def split: option.split)

lemma cli_writing:
  "cli_inv asm d (Writing bs) i r k \<Longrightarrow> \<exists>acc. k = Running (Slurping acc) \<and> r = [] \<and> acc @ i @ bs = d"
  by (cases "(asm, d, Writing bs, i, r, k)" rule: cli_inv.cases) auto

lemma cli_kid_cases:
  obtains (slurping) acc where "k = Running (Slurping acc)" | (printing) out where "k = Running (Printing out)"
  | (failing) "k = Running Failing" | (exited) b where "k = Exited b"
  by (metis cli.exhaust kid.exhaust)

lemma cli_step:
  assumes "cli_state asm d s" and "pipe_step K (cli_main want asm) s t"
  shows "cli_state asm d t \<and> cli_size asm d t < cli_size asm d s"
  using assms(2)
proof cases
  case (send bs x k)
  with assms(1) show ?thesis by (cases x) auto
next
  case (broken bs b)
  with assms(1) show ?thesis by simp
next
  case close
  with assms(1) cli_writing [of asm d "[]" "to_child s" "from_child s" "kid s"] show ?thesis by auto
next
  case (collect got k)
  with assms(1) show ?thesis by (cases "kid s" rule: cli_kid_cases) auto
next
  case (reap got b)
  with assms(1) show ?thesis by simp
next
  case (take_in x n f k)
  with assms(1) show ?thesis by (cases x; cases "par s") (auto split: if_splits)
next
  case (end_of_input x n f)
  then show ?thesis using assms(1) cli_decided [of asm d]
    by (cases x; cases "par s") (auto split: if_splits cli.splits)
next
  case (put x bs f k)
  with assms(1) show ?thesis by (cases x; cases "par s") (auto split: if_splits)
next
  case (quit x b)
  with assms(1) show ?thesis by (cases x; cases "par s") (auto split: if_splits)
qed


interpretation cli: running_down "pipe_step K (cli_main want asm)" "cli_state asm d" "cli_size asm d"
  for K and want and asm and d
  by unfold_locales (rule cli_step)

text \<open>Some system call is always possible until the agent has the result.\<close>

lemma cli_goes_on:
  assumes "0 < K" and "\<And>acc. 0 < want acc" and "cli_state asm d s"
  shows "(\<exists>t. pipe_step K (cli_main want asm) s t) \<or> par s = Finished (Inr (cli_output asm d))"
proof (cases "kid s")
  case (Exited b)
  show ?thesis
  proof (cases "par s")
    case (Writing bs)
    with Exited assms(3) show ?thesis by simp
  next
    case (Collecting got)
    show ?thesis
    proof (cases "from_child s = []")
      case True
      from reap [OF Collecting this Exited] show ?thesis by blast
    next
      case False
      from collect [OF Collecting, of 1] False show ?thesis by (auto simp: Suc_le_eq)
    qed
  qed (use Exited assms(3) in simp)
next
  case (Running x)
  show ?thesis
  proof (cases x)
    case (Slurping acc)
    note read = Running [unfolded Slurping] cli_main.simps(1) [of want asm acc]
    show ?thesis
    proof (cases "to_child s = []")
      case False
      from take_in [where prog = "cli_main want asm", OF read, of 1] False assms(2) [of acc] show ?thesis by (auto simp: Suc_le_eq)
    next
      case True
      show ?thesis
      proof (cases "par s")
        case (Writing bs)
        show ?thesis
        proof (cases "bs = []")
          case True
          from close [of s] Writing True show ?thesis by blast
        next
          case False
          from send [OF Writing Running, of 1] False True assms(1) show ?thesis by (auto simp: Suc_le_eq)
        qed
      qed (use end_of_input [where prog = "cli_main want asm", OF read True] in \<open>auto simp del: cli_main.simps\<close>)
    qed
  next
    case (Printing out)
    with Running assms(3) obtain got where par: "par s = Collecting got" by (cases "par s") auto
    show ?thesis
    proof (cases "from_child s = []")
      case False
      from collect [OF par, of 1] False show ?thesis by (auto simp: Suc_le_eq)
    next
      case True
      show ?thesis
      proof (cases "out = []")
        case True
        from quit [OF Running, of "cli_main want asm" True] True Printing show ?thesis by auto
      next
        case False
        from put [OF Running, of "cli_main want asm" out _ 1] False True Printing assms(1) show ?thesis
          by (auto simp: Suc_le_eq)
      qed
    qed
  next
    case Failing
    from quit [OF Running, of "cli_main want asm" False] Failing show ?thesis by auto
  qed
qed

section \<open>A program that writes while it reads\<close>

text \<open>It passes on what it reads, at most \<open>n\<close> bytes at a time.\<close>

datatype relay = Taking | Giving "byte list" | Ending

fun relay_main :: "nat \<Rightarrow> relay \<Rightarrow> relay act" where
  "relay_main n Taking = Read n (\<lambda>bs. if bs = [] then Ending else Giving bs)"
| "relay_main n (Giving bs) = Write bs (\<lambda>k. if k = length bs then Taking else Giving (drop k bs))"
| "relay_main n Ending = Exit True"

fun relay_held :: "relay \<Rightarrow> byte list" where
  "relay_held (Giving bs) = bs"
| "relay_held _ = []"

text \<open>As long as the agent writes, no byte leaves the two pipes and the program.\<close>

fun relay_inv :: "nat \<Rightarrow> nat \<Rightarrow> nat \<Rightarrow> relay piped \<Rightarrow> bool" where
  "relay_inv K n len s =
     (case (par s, kid s) of
        (Writing bs, Running x) \<Rightarrow>
          length bs + length (to_child s) + length (relay_held x) + length (from_child s) = len \<and>
          length (to_child s) \<le> K \<and> length (relay_held x) \<le> n \<and> length (from_child s) \<le> K \<and> x \<noteq> Ending
      | _ \<Rightarrow> False)"

fun relay_size :: "relay piped \<Rightarrow> nat" where
  "relay_size s =
     (case (par s, kid s) of
        (Writing bs, Running x) \<Rightarrow>
          4 * length bs + 3 * length (to_child s) + 2 * length (relay_held x) + length (from_child s)
      | _ \<Rightarrow> 0)"

lemma relay_step:
  assumes "2 * K + n < len" and "relay_inv K n len s" and "pipe_step K (relay_main n) s t"
  shows "relay_inv K n len t \<and> relay_size t < relay_size s"
proof -
  from assms(2) obtain bs x where s: "par s = Writing bs" "kid s = Running x"
    by (auto split: prod.splits parent.splits kid.splits)
  from assms(1,2) s have "bs \<noteq> []" by auto
  from assms(3) show ?thesis
  proof cases
    case (take_in y m f k)
    with s assms(2) show ?thesis by (cases x) (auto split: if_splits)
  next
    case (put y cs f k)
    with s assms(2) show ?thesis by (cases x) (auto split: if_splits)
  next
    case (quit y b)
    with s assms(2) show ?thesis by (cases x) auto
  qed (use s assms(2) \<open>bs \<noteq> []\<close> in auto)
qed

interpretation relay: running_down "pipe_step K (relay_main n)" "\<lambda>s. 2 * K + n < len \<and> relay_inv K n len s" relay_size
  for K and n and len
  by unfold_locales (blast dest: relay_step)

section \<open>Properties\<close>

text \<open>
  C15. With the command line instrumenter the call always returns, and what it returns is what
  the hook is proved about. Whatever the capacity of the pipes, the size of the class and the
  pace of the two processes, there is always a next system call until the agent has its
  result; there are finitely many, bounded by the sizes of the class and of its instrumented
  form; and the result is the output of the program on the whole class.
\<close>

theorem cli_is_served:
  assumes "0 < K" and "\<forall>acc. 0 < want acc"
    and "(pipe_step K (cli_main want asm) ^^ m) (spawned (Slurping []) d) s"
  shows "m \<le> 2 * length d + 2 * length (out_bytes (cli_output asm d)) + 4 \<and>
    ((\<exists>t. pipe_step K (cli_main want asm) s t) \<or>
     par s = Finished (process_outcome (Inr (cli_process asm)) d)) \<and>
    (\<forall>res. par s = Finished res \<longrightarrow> res = process_outcome (Inr (cli_process asm)) d)"
proof -
  have "cli_state asm d (spawned (Slurping []) d)" by (simp add: spawned_def)
  from cli.after [OF assms(3) this] have "cli_state asm d s"
    "m \<le> cli_size asm d (spawned (Slurping []) d)" by simp_all
  moreover from this(1) have "(\<exists>t. pipe_step K (cli_main want asm) s t) \<or> par s = Finished (Inr (cli_output asm d))"
    using cli_goes_on [OF assms(1)] assms(2) by blast
  moreover have "res = Inr (cli_output asm d)" if "par s = Finished res" for res
    using that \<open>cli_state asm d s\<close> by (cases "kid s") auto
  ultimately show ?thesis by (simp add: spawned_def process_outcome_def cli_process_def)
qed

theorem cli_is_served_witness:
  "\<exists>m s. (pipe_step 2 (cli_main (\<lambda>_. 8192) (\<lambda>d. Some (d @ ''new''))) ^^ m) (spawned (Slurping []) MAGIC_NUMBER) s \<and>
     par s = Finished (Inr \<lparr>status_success = True, out_bytes = MAGIC_NUMBER @ ''new''\<rparr>)"
proof -
  let ?asm = "\<lambda>d. Some (d @ ''new'')" and ?prog = "cli_main (\<lambda>_. 8192) (\<lambda>d. Some (d @ ''new''))"
  have "cli_state ?asm MAGIC_NUMBER (spawned (Slurping []) MAGIC_NUMBER)" by (simp add: spawned_def)
  from cli.rests [OF this] obtain m s where
    s: "(pipe_step 2 ?prog ^^ m) (spawned (Slurping []) MAGIC_NUMBER) s" "\<not> (\<exists>t. pipe_step 2 ?prog s t)" by blast
  have "cli_output ?asm MAGIC_NUMBER = \<lparr>status_success = True, out_bytes = MAGIC_NUMBER @ ''new''\<rparr>"
    by (simp add: cli_output_def cli_decide_def appearsToBeClassData_def hasMagicNumber_def list_all_iff)
  then have out: "process_outcome (Inr (cli_process ?asm)) MAGIC_NUMBER =
      Inr \<lparr>status_success = True, out_bytes = MAGIC_NUMBER @ ''new''\<rparr>"
    unfolding process_outcome_def cli_process_def by simp
  have "(0::nat) < 2" "\<forall>acc :: byte list. (0::nat) < 8192" by simp_all
  from cli_is_served [OF this s(1)] s(2) out have
    "par s = Finished (Inr \<lparr>status_success = True, out_bytes = MAGIC_NUMBER @ ''new''\<rparr>)" by argo
  with s(1) show ?thesis by blast
qed

text \<open>
  C24. The agent writes all of the class before it reads anything, so a program that writes
  while it reads blocks it: if the class is larger than both pipes and the program's own
  buffer can hold, no schedule lets the call return. Every run stops, within four steps for
  each byte, with both processes waiting for each other and some of the class still unwritten.
\<close>

theorem relay_blocks:
  assumes "2 * K + n < length d"
  shows "(\<exists>m s. (pipe_step K (relay_main n) ^^ m) (spawned Taking d) s \<and> \<not> (\<exists>t. pipe_step K (relay_main n) s t)) \<and>
    (\<forall>m s. (pipe_step K (relay_main n) ^^ m) (spawned Taking d) s \<longrightarrow>
       m \<le> 4 * length d \<and> (\<exists>bs. par s = Writing bs \<and> bs \<noteq> []))"
proof (intro conjI allI impI)
  have inv: "2 * K + n < length d \<and> relay_inv K n (length d) (spawned Taking d)"
    using assms by (simp add: spawned_def)
  show "\<exists>m s. (pipe_step K (relay_main n) ^^ m) (spawned Taking d) s \<and> \<not> (\<exists>t. pipe_step K (relay_main n) s t)"
    by (rule relay.rests [OF inv])
  fix m s assume "(pipe_step K (relay_main n) ^^ m) (spawned Taking d) s"
  from relay.after [OF this inv] have s: "relay_inv K n (length d) s" "m \<le> relay_size (spawned Taking d)" by simp_all
  then show "m \<le> 4 * length d" by (simp add: spawned_def)
  from s(1) assms show "\<exists>bs. par s = Writing bs \<and> bs \<noteq> []"
    by (auto split: parent.splits kid.splits)
qed

theorem relay_blocks_witness:
  "\<exists>m s. (pipe_step 1 (relay_main 1) ^^ m) (spawned Taking ''abcd'') s \<and> \<not> (\<exists>t. pipe_step 1 (relay_main 1) s t) \<and>
     (\<exists>bs. par s = Writing bs \<and> bs \<noteq> [])"
  using relay_blocks [of 1 1 "''abcd''"] by fastforce

end
