(* ===== verification/Unpackers.thy ===== *)
theory Unpackers
  imports RtEmbed
begin

text \<open>
  Agents that unpack at the same time. Several JVMs may start with the agent on one machine,
  and each tests for the file of the runtime jar before it writes it
  (\<^verbatim>\<open>phasicj/agent/rt/embed/lib.rs\<close>). Here the steps of \<open>write_rt_jar_file_if_missing\<close> of any
  number of processes interleave on a working disk; each has the file open by itself, with an
  offset of its own.
\<close>

section \<open>Steps\<close>

datatype unpack_pc =
    Testing
  | Making
  | Opening
  | Putting nat
  | Syncing
  | Unpacked "io_error + unit"

text \<open>Bytes written at an offset; what is skipped reads as zero.\<close>

definition write_at :: "nat \<Rightarrow> byte list \<Rightarrow> byte list \<Rightarrow> byte list" where
  "write_at off bs c = take off (c @ replicate (off - length c) (CHR 0x00)) @ bs @ drop (off + length bs) c"

definition put_bytes :: "path \<Rightarrow> nat \<Rightarrow> byte list \<Rightarrow> (fsys, unit) prog" where
  "put_bytes p off bs = update (\<lambda>f.
     case nodes f p of
       Some (File c) \<Rightarrow> f\<lparr>nodes := (nodes f)(p \<mapsto> File (write_at off bs c))\<rparr>
     | _ \<Rightarrow> f)"

text \<open>One turn; \<open>write_all\<close> takes as many as it needs, each of which writes \<open>k + 1\<close> bytes if there are.\<close>

fun unpack_turn :: "byte list \<Rightarrow> path \<Rightarrow> nat \<Rightarrow> unpack_pc \<Rightarrow> (fsys, unpack_pc) prog" where
  "unpack_turn jar p k Testing =
     bnd (path_exists p) (\<lambda>b. ret (if b then Unpacked (Inr ()) else Making))"
| "unpack_turn jar p k Making =
     bnd (expect ParentMissing (path_parent p)) (\<lambda>parent_path.
     bnd (create_dir_all parent_path) (\<lambda>r.
     ret (case r of Inl e \<Rightarrow> Unpacked (Inl e) | Inr _ \<Rightarrow> Opening)))"
| "unpack_turn jar p k Opening =
     bnd (file_create p) (\<lambda>r. ret (case r of Inl e \<Rightarrow> Unpacked (Inl e) | Inr _ \<Rightarrow> Putting 0))"
| "unpack_turn jar p k (Putting off) =
     (if off < length jar then
        seq (put_bytes p off (take (Suc k) (drop off jar)))
          (ret (Putting (off + length (take (Suc k) (drop off jar)))))
      else ret Syncing)"
| "unpack_turn jar p k Syncing =
     bnd (file_sync_all p) (\<lambda>r. ret (Unpacked r))"
| "unpack_turn jar p k (Unpacked r) = ret (Unpacked r)"

type_synonym unpackers = "nat \<rightharpoonup> unpack_pc"

datatype unpack_act = Started nat | Stepped nat

inductive unpack_step :: "byte list \<Rightarrow> path \<Rightarrow> fsys \<times> unpackers \<Rightarrow> unpack_act \<Rightarrow> fsys \<times> unpackers \<Rightarrow> bool"
  for jar p where
  start: "ts t = None \<Longrightarrow> unpack_step jar p (f, ts) (Started t) (f, ts(t \<mapsto> Testing))"
| step: "ts t = Some pc \<Longrightarrow> (\<forall>r. pc \<noteq> Unpacked r) \<Longrightarrow> unpack_turn jar p k pc f = (Inr pc', g) \<Longrightarrow>
    unpack_step jar p (f, ts) (Stepped t) (g, ts(t \<mapsto> pc'))"

section \<open>One process alone\<close>

text \<open>Taken one after the other, with the jar written at once, the turns are the function.\<close>

fun unpack_run :: "byte list \<Rightarrow> path \<Rightarrow> nat \<Rightarrow> unpack_pc \<Rightarrow> (fsys, unpack_pc) prog" where
  "unpack_run jar p 0 pc = ret pc"
| "unpack_run jar p (Suc n) pc = bnd (unpack_turn jar p (length jar) pc) (unpack_run jar p n)"

lemma run_unpacked [simp]: "unpack_run jar p n (Unpacked r) f = (Inr (Unpacked r), f)"
  by (induction n) (simp_all add: ret_def)

lemma outcome_working: "plan f = [] \<Longrightarrow> outcome f = (Inr Fine, f)"
  by (simp add: outcome_def)

lemma write_at_all: "write_at 0 jar [] = jar"
  by (simp add: write_at_def)


text \<open>The operations on a working disk.\<close>

definition disk_ok :: "path \<Rightarrow> fsys \<Rightarrow> bool" where
  "disk_ok p f \<longleftrightarrow> plan f = [] \<and> deliverable f p \<and> \<not> is_dir f p"

lemma disk_ok_parent: "disk_ok p f \<Longrightarrow> path_parent p = Some (butlast p)"
  by (auto simp: disk_ok_def deliverable_def path_parent_def)

lemma exists_working: "disk_ok p f \<Longrightarrow> path_exists p f = (Inr (nodes f p \<noteq> None), f)"
  by (auto simp: disk_ok_def path_exists_def prog_simps outcome_working dest: deliverable_named)

lemma own_parent: "disk_ok p f \<Longrightarrow> p \<notin> set (inits (butlast p))"
  using inits_shorter [of p "butlast p"] by (cases p) (auto simp: disk_ok_def deliverable_def)

lemma make_working:
  assumes "disk_ok p f"
  obtains g where "create_dir_all (butlast p) f = (Inr (Inr ()), g)" and "disk_ok p g"
    and "is_dir g (butlast p)" and "nodes g p = nodes f p"
proof -
  have f: "plan f = []" "deliverable f p" "\<not> is_dir f p" using assms by (simp_all add: disk_ok_def)
  obtain g where g: "create_dir_all (butlast p) f = (Inr (Inr ()), g)" "plan g = []"
    "\<forall>q. q \<notin> set (inits (butlast p)) \<longrightarrow> nodes g q = nodes f q"
    using make_dirs_quiet [of "inits (butlast p)" f] f unfolding create_dir_all_def deliverable_def by auto
  note dirs = make_dirs_cases [OF g(1) [unfolded create_dir_all_def]]
  have same: "nodes g p = nodes f p" using g(3) own_parent [OF assms] by simp
  have "nodes g q \<noteq> Some (File d)" if "q \<in> set (inits (butlast p))" for q d
  proof -
    have "nodes g q = nodes f q \<or> nodes g q = Some Dir" using dirs by (auto simp: dirs_added_def)
    with f(2) that show ?thesis by (auto simp: deliverable_def)
  qed
  then have "deliverable g p" using f(2) by (simp add: deliverable_def)
  moreover have "\<not> is_dir g p" using f(3) same by (simp add: is_dir_def)
  ultimately have "disk_ok p g" using g(2) by (simp add: disk_ok_def)
  moreover have "is_dir g (butlast p)"
    using dirs inits_last [of "butlast p"] by (cases "butlast p = []") (auto simp: is_dir_def)
  ultimately show thesis using that g(1) same by blast
qed

lemma create_working:
  "disk_ok p f \<Longrightarrow> is_dir f (butlast p) \<Longrightarrow>
   file_create p f = (Inr (Inr p), f\<lparr>nodes := (nodes f)(p \<mapsto> File [])\<rparr>)"
  by (simp add: disk_ok_def file_create_def prog_simps outcome_working)

lemma disk_ok_file: "disk_ok p f \<Longrightarrow> disk_ok p (f\<lparr>nodes := (nodes f)(p \<mapsto> File c)\<rparr>)"
  using own_parent [of p f] by (auto simp: disk_ok_def deliverable_def is_dir_def)

lemma is_dir_file:
  "disk_ok p f \<Longrightarrow> is_dir f q \<Longrightarrow> is_dir (f\<lparr>nodes := (nodes f)(p \<mapsto> File c)\<rparr>) q"
  by (auto simp: disk_ok_def is_dir_def)

text \<open>Each turn on a working disk.\<close>

lemma unpack_turns:
  assumes "disk_ok p f"
  shows "unpack_turn jar p k Testing f = (Inr (if nodes f p = None then Making else Unpacked (Inr ())), f)"
    and "is_dir f (butlast p) \<Longrightarrow>
      unpack_turn jar p k Opening f = (Inr (Putting 0), f\<lparr>nodes := (nodes f)(p \<mapsto> File [])\<rparr>)"
    and "unpack_turn jar p k Syncing f = (Inr (Unpacked (Inr ())), f)"
    and "\<not> off < length jar \<Longrightarrow> unpack_turn jar p k (Putting off) f = (Inr Syncing, f)"
    and "off < length jar \<Longrightarrow> nodes f p = Some (File c) \<Longrightarrow> unpack_turn jar p k (Putting off) f =
      (Inr (Putting (off + length (take (Suc k) (drop off jar)))),
       f\<lparr>nodes := (nodes f)(p \<mapsto> File (write_at off (take (Suc k) (drop off jar)) c))\<rparr>)"
  using exists_working [OF assms] create_working [OF assms] assms
  by (simp_all add: prog_simps put_bytes_def file_sync_all_def outcome_working disk_ok_def)

lemma making_turn:
  assumes "disk_ok p f"
  obtains g where "unpack_turn jar p k Making f = (Inr Opening, g)" and "disk_ok p g"
    and "is_dir g (butlast p)" and "nodes g p = nodes f p" and "create_dir_all (butlast p) f = (Inr (Inr ()), g)"
    and "\<And>q. is_dir f q \<Longrightarrow> is_dir g q"
proof -
  obtain g where g: "create_dir_all (butlast p) f = (Inr (Inr ()), g)" "disk_ok p g" "is_dir g (butlast p)"
    "nodes g p = nodes f p" using make_working [OF assms] by metis
  moreover have "is_dir g q" if "is_dir f q" for q
    using make_dirs_cases [OF g(1) [unfolded create_dir_all_def]] that dirs_added_is_dir by blast
  ultimately show thesis
    using disk_ok_parent [OF assms] by (intro that [of g]) (simp_all add: expect_def prog_simps)
qed

lemma unpack_alone:
  assumes "disk_ok p f"
  shows "bnd (unpack_run jar p 6 Testing)
      (\<lambda>pc. case pc of Unpacked r \<Rightarrow> ret r | _ \<Rightarrow> panic UnreachableReached) f =
    write_rt_jar_file_if_missing jar p f"
proof (cases "nodes f p = None")
  case False
  with exists_working [OF assms] unpack_turns(1) [OF assms] show ?thesis
    by (simp add: eval_nat_numeral write_rt_jar_eq del: unpack_turn.simps) (simp add: ret_def)
next
  case True
  obtain g where g: "unpack_turn jar p (length jar) Making f = (Inr Opening, g)" "disk_ok p g" "is_dir g (butlast p)"
    "create_dir_all (butlast p) f = (Inr (Inr ()), g)" using making_turn [OF assms] by metis
  define h where "h = g\<lparr>nodes := (nodes g)(p \<mapsto> File [])\<rparr>"
  define w where "w = g\<lparr>nodes := (nodes g)(p \<mapsto> File jar)\<rparr>"
  have ok: "disk_ok p h" "disk_ok p w" using disk_ok_file [OF g(2)] by (simp_all add: h_def w_def)
  note create = create_working [OF g(2,3)]
  have plan: "plan g = []" using g(2) by (simp add: disk_ok_def)
  have put: "0 < length jar \<Longrightarrow> unpack_turn jar p (length jar) (Putting 0) h = (Inr (Putting (length jar)), w)"
    using unpack_turns(5) [OF ok(1), of 0 jar "[]" "length jar"] by (simp add: h_def w_def write_at_all)
  have "unpack_run jar p 6 Testing f = (Inr (Unpacked (Inr ())), w)"
  proof (cases "jar = []")
    case True
    then have "h = w" by (simp add: h_def w_def)
    with True \<open>nodes f p = None\<close> unpack_turns(1) [OF assms] g(1) unpack_turns(2) [OF g(2,3)] unpack_turns(3,4) [OF ok(2)]
    show ?thesis by (simp add: eval_nat_numeral h_def [symmetric] del: unpack_turn.simps) (simp add: ret_def)
  next
    case False
    with put \<open>nodes f p = None\<close> unpack_turns(1) [OF assms] g(1) unpack_turns(2) [OF g(2,3)] unpack_turns(3,4) [OF ok(2)]
    show ?thesis by (simp add: eval_nat_numeral h_def [symmetric] del: unpack_turn.simps) (simp add: ret_def)
  qed
  moreover have "write_rt_jar_file_if_missing jar p f = (Inr (Inr ()), w)"
    using exists_working [OF assms] True g(4) create plan disk_ok_parent [OF assms]
    by (simp add: write_rt_jar_eq unpack_anew_def file_write_all_def file_sync_all_def outcome_working
        w_def expect_def prog_simps)
  ultimately show ?thesis by (simp add: ret_def)
qed

section \<open>All together\<close>

text \<open>Each byte of the jar is there, or some process has yet to write it.\<close>

definition covered :: "byte list \<Rightarrow> byte list \<Rightarrow> unpackers \<Rightarrow> bool" where
  "covered jar c ts \<longleftrightarrow>
     length c \<le> length jar \<and>
     (\<forall>i<length jar. (i < length c \<and> c ! i = jar ! i) \<or> (\<exists>t off. ts t = Some (Putting off) \<and> off \<le> i))"

definition unpack_inv :: "byte list \<Rightarrow> path \<Rightarrow> fsys \<times> unpackers \<Rightarrow> bool" where
  "unpack_inv jar p s =
     (case s of (f, ts) \<Rightarrow>
        disk_ok p f \<and> (\<forall>t. ts t = Some Opening \<longrightarrow> is_dir f (butlast p)) \<and>
        (\<forall>t e. ts t \<noteq> Some (Unpacked (Inl e))) \<and>
        (case nodes f p of
           None \<Rightarrow> \<forall>t pc. ts t = Some pc \<longrightarrow> pc \<in> {Testing, Making, Opening}
         | Some Dir \<Rightarrow> False
         | Some (File c) \<Rightarrow> covered jar c ts))"

lemma length_write_at: "length (write_at off bs c) = max (off + length bs) (length c)"
  by (simp add: write_at_def)

lemma nth_write_at:
  "i < length c \<Longrightarrow> i < off \<or> off + length bs \<le> i \<Longrightarrow> write_at off bs c ! i = c ! i"
  "off \<le> i \<Longrightarrow> i < off + length bs \<Longrightarrow> write_at off bs c ! i = bs ! (i - off)"
  by (auto simp: write_at_def nth_append min_def)

lemma covered_write:
  assumes "covered jar c ts" and "ts t = Some (Putting off)" and "off < length jar"
    and "bs = take n (drop off jar)"
  shows "covered jar (write_at off bs c) (ts(t \<mapsto> Putting (off + length bs)))"
  unfolding covered_def
proof (intro conjI allI impI)
  show "length (write_at off bs c) \<le> length jar"
    using assms by (auto simp: length_write_at covered_def)
next
  fix i assume i: "i < length jar"
  consider (new) "off \<le> i" "i < off + length bs" | (later) "off + length bs \<le> i" | (before) "i < off" by linarith
  then show "i < length (write_at off bs c) \<and> write_at off bs c ! i = jar ! i \<or>
    (\<exists>t' off'. (ts(t \<mapsto> Putting (off + length bs))) t' = Some (Putting off') \<and> off' \<le> i)"
  proof cases
    case new
    then have "write_at off bs c ! i = jar ! i" using assms(4) by (simp add: nth_write_at(2))
    moreover have "i < length (write_at off bs c)" using new by (simp add: length_write_at)
    ultimately show ?thesis by blast
  next
    case later
    then show ?thesis by (intro disjI2 exI [of _ t] exI [of _ "off + length bs"]) simp
  next
    case before
    from assms(1) i consider (there) "i < length c" "c ! i = jar ! i"
      | (other) t' off' where "ts t' = Some (Putting off')" "off' \<le> i" unfolding covered_def by blast
    then show ?thesis
    proof cases
      case there
      with before have "write_at off bs c ! i = jar ! i" by (simp add: nth_write_at(1))
      moreover have "i < length (write_at off bs c)" using there by (simp add: length_write_at)
      ultimately show ?thesis by blast
    next
      case other
      with before assms(2) show ?thesis by (intro disjI2 exI [of _ t'] exI [of _ off']) auto
    qed
  qed
qed

lemma covered_done:
  assumes "covered jar c ts" and "\<And>t off. ts t \<noteq> Some (Putting off)"
  shows "c = jar"
proof (rule nth_equalityI)
  have all: "i < length c \<and> c ! i = jar ! i" if "i < length jar" for i
    using assms that unfolding covered_def by blast
  show "length c = length jar"
    using assms(1) all [of "length jar - 1"] by (cases "length jar") (auto simp: covered_def)
  then show "\<And>i. i < length c \<Longrightarrow> c ! i = jar ! i" using all by simp
qed

text \<open>A move that writes nothing and leaves nothing unwritten.\<close>

lemma covered_move:
  "covered jar c ts \<Longrightarrow> ts t = Some pc \<Longrightarrow> (\<And>off. pc = Putting off \<Longrightarrow> \<not> off < length jar) \<Longrightarrow>
   covered jar c (ts(t \<mapsto> pc'))"
  unfolding covered_def by (metis fun_upd_apply le_less_trans option.inject)

lemma covered_fresh: "covered jar [] (ts(t \<mapsto> Putting 0))"
  unfolding covered_def by auto

lemma covered_new: "covered jar c ts \<Longrightarrow> ts t = None \<Longrightarrow> covered jar c (ts(t \<mapsto> pc))"
  unfolding covered_def by (metis fun_upd_apply option.distinct(1))

lemma unpack_step_inv:
  assumes "unpack_inv jar p s" and "unpack_step jar p s a s'"
  shows "unpack_inv jar p s'"
  using assms(2)
proof cases
  case (start ts t f)
  with assms(1) covered_new [of jar _ ts t Testing] show ?thesis
    by (auto simp: unpack_inv_def split: option.splits node.splits)
next
  case (step ts t pc k f pc' g)
  then have inv: "unpack_inv jar p (f, ts)" and run: "unpack_turn jar p k pc f = (Inr pc', g)"
    using assms(1) by simp_all
  then have ok: "disk_ok p f" by (simp add: unpack_inv_def)
  have filed: "\<exists>c. nodes f p = Some (File c)" if "nodes f p \<noteq> None"
    using that inv by (auto simp: unpack_inv_def split: option.splits node.splits)
  show ?thesis
  proof (cases pc)
    case Testing
    with run unpack_turns(1) [OF ok] have "g = f" "pc' = (if nodes f p = None then Making else Unpacked (Inr ()))"
      by (auto simp del: unpack_turn.simps)
    with step Testing inv covered_move [of jar _ ts t Testing pc'] filed show ?thesis
      by (auto simp: unpack_inv_def split: option.splits node.splits)
  next
    case Making
    obtain h where h: "unpack_turn jar p k Making f = (Inr Opening, h)" "disk_ok p h" "is_dir h (butlast p)"
      "nodes h p = nodes f p" using making_turn [OF ok] by metis
    with run Making have "g = h" "pc' = Opening" by simp_all
    with step Making inv h covered_move [of jar _ ts t Making Opening] show ?thesis
      by (auto simp: unpack_inv_def split: option.splits node.splits)
  next
    case Opening
    with inv step(4) have "is_dir f (butlast p)" by (auto simp: unpack_inv_def)
    from unpack_turns(2) [OF ok this] run Opening have
      g: "g = f\<lparr>nodes := (nodes f)(p \<mapsto> File [])\<rparr>" "pc' = Putting 0" by (simp_all del: unpack_turn.simps)
    then have "disk_ok p g" using disk_ok_file [OF ok] by simp
    with step Opening inv g covered_fresh [of jar ts t] is_dir_file [OF ok] show ?thesis
      by (auto simp: unpack_inv_def)
  next
    case (Putting off)
    with inv step(4) obtain c where c: "nodes f p = Some (File c)" "covered jar c ts"
      by (auto simp: unpack_inv_def split: option.splits node.splits)
    show ?thesis
    proof (cases "off < length jar")
      case True
      let ?bs = "take (Suc k) (drop off jar)"
      from unpack_turns(5) [OF ok True c(1)] run Putting have
        g: "g = f\<lparr>nodes := (nodes f)(p \<mapsto> File (write_at off ?bs c))\<rparr>" "pc' = Putting (off + length ?bs)"
        by (simp_all del: unpack_turn.simps)
      moreover have "covered jar (write_at off ?bs c) (ts(t \<mapsto> Putting (off + length ?bs)))"
        using covered_write [OF c(2) _ True refl] step(4) Putting by simp
      moreover have "disk_ok p g" using disk_ok_file [OF ok] g(1) by simp
      ultimately show ?thesis using step inv is_dir_file [OF ok] by (auto simp: unpack_inv_def)
    next
      case False
      from unpack_turns(4) [OF ok False] run Putting have "g = f" "pc' = Syncing" by (simp_all del: unpack_turn.simps)
      with step inv c Putting False covered_move [OF c(2), of t pc Syncing] show ?thesis
        by (auto simp: unpack_inv_def)
    qed
  next
    case Syncing
    from unpack_turns(3) [OF ok] run Syncing have "g = f" "pc' = Unpacked (Inr ())" by (simp_all del: unpack_turn.simps)
    with step Syncing inv covered_move [of jar _ ts t Syncing pc'] filed show ?thesis
      by (auto simp: unpack_inv_def split: option.splits node.splits)
  next
    case (Unpacked r)
    with step show ?thesis by simp
  qed
qed

interpretation unpackers: guarded_invariant "unpack_step jar p" "unpack_inv jar p" "\<lambda>_. True" "\<lambda>_. True"
  for jar and p
  by unfold_locales (simp add: unpack_step_inv)

section \<open>Properties\<close>

lemma agreed:
  assumes "disk_ok p f" and "nodes f p = None"
    and "runs (unpack_step jar p) (f, Map.empty) as (g, ts)"
    and "\<forall>t pc. ts t = Some pc \<longrightarrow> (\<exists>r. pc = Unpacked r)" and "ts t = Some pc"
  shows "pc = Unpacked (Inr ()) \<and> nodes g p = Some (File jar)"
proof -
  have "unpack_inv jar p (f, Map.empty)" using assms(1,2) by (simp add: unpack_inv_def)
  moreover have "list_all (\<lambda>_. True) as" by (simp add: list_all_iff)
  ultimately have inv: "unpack_inv jar p (g, ts)" using unpackers.runs_kept [OF assms(3)] by blast
  obtain r where r: "pc = Unpacked r" using assms(4,5) by blast
  with inv assms(5) have "r = Inr ()" by (cases r) (auto simp: unpack_inv_def)
  moreover obtain c where c: "nodes g p = Some (File c)" "covered jar c ts"
    using inv assms(5) r by (auto simp: unpack_inv_def split: option.splits node.splits)
  moreover have "c = jar" by (rule covered_done [OF c(2)]) (use assms(4) in blast)
  ultimately show ?thesis using r by simp
qed

lemma overtaken:
  assumes "disk_ok p f" and "nodes f p = None" and "jar \<noteq> []"
  shows "\<exists>g ts. runs (unpack_step jar p) (f, Map.empty)
      [Started 0, Started 1, Stepped 0, Stepped 1, Stepped 0, Stepped 0, Stepped 0, Stepped 0, Stepped 0,
       Stepped 1, Stepped 1] (g, ts) \<and>
    ts 0 = Some (Unpacked (Inr ())) \<and> nodes g p = Some (File [])"
proof -
  have go: "unpack_step jar p (d, ts) (Stepped t) (e, ts(t \<mapsto> pc'))"
    if "unpack_turn jar p (length jar) pc d = (Inr pc', e)" "ts t = Some pc" "\<forall>r. pc \<noteq> Unpacked r"
    for d ts t pc pc' e
    by (rule unpack_step.step [where ts = ts and t = t and pc = pc and pc' = pc' and k = "length jar"]) fact+
  obtain g where g: "unpack_turn jar p (length jar) Making f = (Inr Opening, g)" "disk_ok p g" "is_dir g (butlast p)"
    using making_turn [OF assms(1)] by metis
  define h where "h = g\<lparr>nodes := (nodes g)(p \<mapsto> File [])\<rparr>"
  define w where "w = g\<lparr>nodes := (nodes g)(p \<mapsto> File jar)\<rparr>"
  have ok: "disk_ok p h" "disk_ok p w" using disk_ok_file [OF g(2)] by (simp_all add: h_def w_def)
  obtain v where v: "unpack_turn jar p (length jar) Making w = (Inr Opening, v)" "disk_ok p v" "is_dir v (butlast p)"
    using making_turn [OF ok(2)] by metis
  have test: "unpack_turn jar p (length jar) Testing f = (Inr Making, f)"
    using unpack_turns(1) [OF assms(1)] assms(2) by (simp del: unpack_turn.simps)
  have create: "unpack_turn jar p (length jar) Opening g = (Inr (Putting 0), h)"
    unfolding h_def by (rule unpack_turns(2) [OF g(2,3)])
  have put: "unpack_turn jar p (length jar) (Putting 0) h = (Inr (Putting (length jar)), w)"
    using unpack_turns(5) [OF ok(1), of 0 jar "[]" "length jar"] assms(3) by (simp add: h_def w_def write_at_all)
  have synced: "unpack_turn jar p (length jar) (Putting (length jar)) w = (Inr Syncing, w)"
    "unpack_turn jar p (length jar) Syncing w = (Inr (Unpacked (Inr ())), w)"
    by (rule unpack_turns(4) [OF ok(2)], simp) (rule unpack_turns(3) [OF ok(2)])
  note steps = go [OF test] go [OF g(1)] go [OF create] go [OF put] go [OF synced(1)] go [OF synced(2)]
    go [OF v(1)] go [OF unpack_turns(2) [OF v(2,3)]]
  let ?v = "v\<lparr>nodes := (nodes v)(p \<mapsto> File [])\<rparr>"
  have "\<exists>ts. runs (unpack_step jar p) (f, Map.empty)
      [Started 0, Started 1, Stepped 0, Stepped 1, Stepped 0, Stepped 0, Stepped 0, Stepped 0, Stepped 0,
       Stepped 1, Stepped 1] (?v, ts) \<and> ts 0 = Some (Unpacked (Inr ()))"
    by (intro exI conjI, (rule runs_cons, ((rule start, simp) | (rule steps, (simp; fail), (simp; fail))))+,
        rule runs_nil, simp)
  then obtain ts where "runs (unpack_step jar p) (f, Map.empty)
      [Started 0, Started 1, Stepped 0, Stepped 1, Stepped 0, Stepped 0, Stepped 0, Stepped 0, Stepped 0,
       Stepped 1, Stepped 1] (?v, ts)" "ts 0 = Some (Unpacked (Inr ()))" by blast
  then show ?thesis by (intro exI [of _ ?v] exI [of _ ts]) simp
qed

text \<open>
  C32. Agents that start at the same time race for the jar. On a working disk where nothing
  was, one of them can have unpacked it with success and find it empty, truncated by another
  that had tested for it before: this is the file it then puts on the boot class path. But the
  damage does not last: whatever the number of processes and their schedule, none fails, and
  once all have come to an end the file is the jar, whole.
\<close>

theorem unpackers_race:
  assumes "plan f = []" and "deliverable f p" and "\<not> present f p" and "jar \<noteq> []"
  shows "(\<exists>as g ts. runs (unpack_step jar p) (f, Map.empty) as (g, ts) \<and>
      ts 0 = Some (Unpacked (Inr ())) \<and> nodes g p = Some (File [])) \<and>
    (\<forall>as g ts. runs (unpack_step jar p) (f, Map.empty) as (g, ts) \<longrightarrow>
      (\<forall>t pc. ts t = Some pc \<longrightarrow> (\<exists>r. pc = Unpacked r)) \<longrightarrow>
      (\<forall>t pc. ts t = Some pc \<longrightarrow> pc = Unpacked (Inr ()) \<and> nodes g p = Some (File jar)))"
proof -
  have f: "disk_ok p f" "nodes f p = None" using assms(1-3) deliverable_named [OF assms(2)] by (auto simp: disk_ok_def present_def)
  from overtaken [OF f assms(4)] agreed [OF f] show ?thesis by blast
qed

theorem unpackers_race_witness:
  "\<exists>as g ts. runs (unpack_step ''JAR'' [RootDir, Normal ''j'']) (empty_disk, Map.empty) as (g, ts) \<and>
     ts 0 = Some (Unpacked (Inr ())) \<and> nodes g [RootDir, Normal ''j''] = Some (File [])"
proof -
  have "plan empty_disk = []" "deliverable empty_disk [RootDir, Normal ''j'']"
    "\<not> present empty_disk [RootDir, Normal ''j'']" "''JAR'' \<noteq> []"
    by (simp_all add: deliverable_empty_disk) (simp_all add: empty_disk_def present_def is_dir_def)
  from unpackers_race [OF this] show ?thesis by blast
qed

end
