(* ===== verification/Svm.thy ===== *)
theory Svm
  imports Jvm
begin

text \<open>
  The experimental instrumenter that runs inside the process, as a library compiled from
  Java: the Rust side, \<^verbatim>\<open>phasicj/agent/experimental/svm/rust/lib.rs\<close>, and the entry points of
  the library, \<^verbatim>\<open>phasicj/agent/instr/experimental/svm/Instrumenter.java\<close>. The loader, the
  isolates and the unmanaged memory of GraalVM, and the class instrumenter itself, are
  arguments.
\<close>

section \<open>The library\<close>

text \<open>
  \<open>isolates\<close> are the isolate threads created and not torn down, \<open>svm_heap\<close> the unmanaged
  memory, \<open>open_libraries\<close> the number of handles the loader has given out.
\<close>

record 'g svm_world =
  graal :: 'g
  isolates :: "pointer set"
  svm_heap :: "pointer \<rightharpoonup> byte list"
  open_libraries :: nat

text \<open>The functions of the library, each there or missing; out-parameters as for JVMTI.\<close>

type_synonym 'g SvmInstrInstrumentFn =
  "pointer \<Rightarrow> 32 word \<Rightarrow> byte list \<Rightarrow> ('g svm_world, 32 word option \<times> pointer option) cfun"
type_synonym 'g SvmInstrFreeFn = "pointer \<Rightarrow> pointer \<Rightarrow> 'g svm_world \<Rightarrow> unit \<times> 'g svm_world"
type_synonym 'g GraalCreateIsolateFn = "('g svm_world, pointer option) cfun"
type_synonym 'g GraalTearDownIsolateFn = "pointer \<Rightarrow> ('g svm_world, unit) cfun"

record 'g svm_symbols =
  create_isolate_symbol :: "'g GraalCreateIsolateFn option"
  tear_down_isolate_symbol :: "'g GraalTearDownIsolateFn option"
  instrument_symbol :: "'g SvmInstrInstrumentFn option"
  free_symbol :: "'g SvmInstrFreeFn option"

type_synonym 'g loader = "path \<Rightarrow> 'g svm_symbols option"

definition library_new :: "'g loader \<Rightarrow> path \<Rightarrow> ('g svm_world, unit + 'g svm_symbols) prog" where
  "library_new ld path =
     (case ld path of
        None \<Rightarrow> ret (Inl ())
      | Some lib \<Rightarrow> seq (update (\<lambda>w. w\<lparr>open_libraries := Suc (open_libraries w)\<rparr>)) (ret (Inr lib)))"

definition close_library :: "'g svm_world \<Rightarrow> 'g svm_world" where
  "close_library w = w\<lparr>open_libraries := open_libraries w - 1\<rparr>"

text \<open>A library held by a local variable is closed unless the block returns it.\<close>

definition library_scope ::
  "('g svm_world, unit + 'a) prog \<Rightarrow> ('g svm_world, unit + 'a) prog" where
  "library_scope m = (\<lambda>w. case m w of
     (Inr (Inr x), u) \<Rightarrow> (Inr (Inr x), u)
   | (r, u) \<Rightarrow> (r, close_library u))"

section \<open>The Rust side\<close>

record 'g SvmIsolateThread =
  isolate_thread :: pointer
  svm_instr_instrument_fn :: "'g SvmInstrInstrumentFn"
  svm_instr_free_fn :: "'g SvmInstrFreeFn"
  svm_library :: "'g svm_symbols"

record SvmInstrBuffer =
  buffer_ptr :: pointer
  buffer_size :: "64 word"

definition get_svm_symbol :: "'g svm_symbols \<Rightarrow> ('g svm_symbols \<Rightarrow> 'f option) \<Rightarrow> ('w, unit + 'f) prog" where
  "get_svm_symbol lib symbol = ret (case symbol lib of None \<Rightarrow> Inl () | Some f \<Rightarrow> Inr f)"

definition graal_create_isolate :: "'g svm_symbols \<Rightarrow> ('g svm_world, unit + pointer) prog" where
  "graal_create_isolate lib =
     trying (get_svm_symbol lib create_isolate_symbol) (\<lambda>func.
     bnd (foreign func) (\<lambda>(err, written).
     bnd (assume_init written) (\<lambda>thread.
     ret (if err = 0 then Inr thread else Inl ()))))"

definition graal_tear_down_isolate :: "'g svm_symbols \<Rightarrow> pointer \<Rightarrow> ('g svm_world, unit + unit) prog" where
  "graal_tear_down_isolate lib thread =
     trying (get_svm_symbol lib tear_down_isolate_symbol) (\<lambda>func.
     bnd (foreign (func thread)) (\<lambda>(err, _).
     ret (if err = 0 then Inr () else Inl ())))"

definition new_from_library_path ::
  "'g loader \<Rightarrow> path \<Rightarrow> ('g svm_world, unit + 'g SvmIsolateThread) prog" where
  "new_from_library_path ld path =
     trying (library_new ld path) (\<lambda>lib.
     library_scope
       (trying (graal_create_isolate lib) (\<lambda>thread.
        trying (get_svm_symbol lib instrument_symbol) (\<lambda>instrument_fn.
        trying (get_svm_symbol lib free_symbol) (\<lambda>free_fn.
        ret (Inr \<lparr>isolate_thread = thread, svm_instr_instrument_fn = instrument_fn,
                  svm_instr_free_fn = free_fn, svm_library = lib\<rparr>))))))"

text \<open>Both out-parameters are read, and the size converted, before the error is looked at.\<close>

definition svm_instr_instrument ::
  "'g SvmIsolateThread \<Rightarrow> byte list \<Rightarrow> ('g svm_world, unit + SvmInstrBuffer) prog" where
  "svm_instr_instrument self in_buf =
     (if length in_buf < 2 ^ 31 then
        bnd (foreign (svm_instr_instrument_fn self (isolate_thread self) (of_nat (length in_buf)) in_buf))
          (\<lambda>(err, size_written, ptr_written).
        bnd (assume_init size_written) (\<lambda>out_buf_size.
        bnd (assume_init ptr_written) (\<lambda>out_buf.
        if sint out_buf_size < 0 then panic UnwrapErr
        else
          ret (if err = 0
               then Inr \<lparr>buffer_ptr = out_buf, buffer_size = of_int (sint out_buf_size)\<rparr>
               else Inl ()))))
      else panic UnwrapErr)"

definition as_slice :: "SvmInstrBuffer \<Rightarrow> ('g svm_world, byte list) prog" where
  "as_slice self = (\<lambda>w.
     let n = unat (buffer_size self) in
     if buffer_ptr self = 0 then (Inl (Undefined DanglingRead), w)
     else if n = 0 then (Inr [], w)
     else (case svm_heap w (buffer_ptr self) of
             None \<Rightarrow> (Inl (Undefined DanglingRead), w)
           | Some b \<Rightarrow>
               if n \<le> length b then (Inr (take n b), w) else (Inl (Undefined DanglingRead), w)))"

definition svm_instr_free ::
  "'g SvmIsolateThread \<Rightarrow> SvmInstrBuffer \<Rightarrow> ('g svm_world, unit + unit) prog" where
  "svm_instr_free self buf =
     bnd (foreign (svm_instr_free_fn self (isolate_thread self) (buffer_ptr buf))) (\<lambda>_. ret (Inr ()))"

text \<open>The fields are dropped after \<open>drop\<close>, also where it panics: the library is closed.\<close>

definition svm_drop :: "'g SvmIsolateThread \<Rightarrow> ('g svm_world, unit) prog" where
  "svm_drop self = (\<lambda>w.
     case bnd (graal_tear_down_isolate (svm_library self) (isolate_thread self)) unwrap_ok w of
       (r, u) \<Rightarrow> (r, close_library u))"

section \<open>The Java side\<close>

text \<open>
  What the entry points use of GraalVM. \<open>malloc\<close> throws or returns memory of the size
  asked for; \<open>free\<close> takes it back. The class instrumenter throws, returns null, or
  returns the new class.
\<close>

record 'g unmanaged_memory =
  malloc :: "nat \<Rightarrow> 'g svm_world \<Rightarrow> (unit + pointer) \<times> 'g svm_world"
  release_memory :: "pointer \<Rightarrow> 'g svm_world \<Rightarrow> 'g svm_world"

type_synonym class_instrumenter = "byte list \<Rightarrow> unit + byte list option"

text \<open>A Java method that may throw.\<close>

type_synonym ('g, 'a) java = "'g svm_world \<Rightarrow> (unit + 'a) \<times> 'g svm_world"

definition java_bind :: "('g, 'a) java \<Rightarrow> ('a \<Rightarrow> ('g, 'b) java) \<Rightarrow> ('g, 'b) java" where
  "java_bind m f = (\<lambda>w. case m w of (Inl e, u) \<Rightarrow> (Inl e, u) | (Inr x, u) \<Rightarrow> f x u)"

definition makeByteArrayFrom :: "32 word \<Rightarrow> byte list \<Rightarrow> ('g, byte list) java" where
  "makeByteArrayFrom numBytes bytePtr = (\<lambda>w.
     if sint numBytes < 0 then (Inl (), w)
     else (Inr (map (\<lambda>idx. bytePtr ! idx) [0..<nat (sint numBytes)]), w))"

fun write_bytes :: "pointer \<Rightarrow> nat \<Rightarrow> byte list \<Rightarrow> 'g svm_world \<Rightarrow> 'g svm_world" where
  "write_bytes buf idx [] w = w"
| "write_bytes buf idx (b # bs) w =
     write_bytes buf (Suc idx) bs
       (w\<lparr>svm_heap := (svm_heap w)(buf := map_option (\<lambda>old. old[idx := b]) (svm_heap w buf))\<rparr>)"

definition makeCCharBufferFrom :: "'g unmanaged_memory \<Rightarrow> byte list \<Rightarrow> ('g, pointer) java" where
  "makeCCharBufferFrom U bytes =
     java_bind (malloc U (length bytes)) (\<lambda>buf w. (Inr buf, write_bytes buf 0 bytes w))"

definition java_instrument ::
  "'g unmanaged_memory \<Rightarrow> class_instrumenter \<Rightarrow> 'g SvmInstrInstrumentFn" where
  "java_instrument U instrumenter isolateThread inBufSize inBuf = (\<lambda>w.
     case
       java_bind (makeByteArrayFrom inBufSize inBuf) (\<lambda>inBytes.
       java_bind (\<lambda>w. (instrumenter inBytes, w)) (\<lambda>outBytes.
       (case outBytes of
          None \<Rightarrow> (\<lambda>w. (Inr (0, 0), w))
        | Some bytes \<Rightarrow>
            java_bind (makeCCharBufferFrom U bytes) (\<lambda>buf w.
              (Inr (of_nat (length bytes), buf), w))))) w
     of
       (Inl _, u) \<Rightarrow> ((-1, Some 0, Some 0), u)
     | (Inr (outBufSize, outBufPtr), u) \<Rightarrow> ((0, Some outBufSize, Some outBufPtr), u))"

definition java_free :: "'g unmanaged_memory \<Rightarrow> 'g SvmInstrFreeFn" where
  "java_free U isolateThread ptr = (\<lambda>w. ((), release_memory U ptr w))"


section \<open>What is relied on\<close>

definition svm_frame :: "'g svm_world \<Rightarrow> 'g svm_world \<Rightarrow> bool" where
  "svm_frame w u \<longleftrightarrow> isolates u = isolates w \<and> open_libraries u = open_libraries w"

definition unmanaged_laws :: "'g unmanaged_memory \<Rightarrow> bool" where
  "unmanaged_laws U \<longleftrightarrow>
     (\<forall>n w u. malloc U n w = (Inl (), u) \<longrightarrow> svm_frame w u \<and> svm_heap u = svm_heap w) \<and>
     (\<forall>n w p u. 0 < n \<longrightarrow> malloc U n w = (Inr p, u) \<longrightarrow>
        svm_frame w u \<and> p \<noteq> 0 \<and> svm_heap w p = None \<and>
        (\<exists>b. length b = n \<and> svm_heap u = (svm_heap w)(p \<mapsto> b))) \<and>
     (\<forall>p w. svm_frame w (release_memory U p w) \<and>
        svm_heap (release_memory U p w) = (svm_heap w)(p := None))"

text \<open>A class is not empty, and its length is an \<open>int\<close>.\<close>

definition makes_classes :: "class_instrumenter \<Rightarrow> bool" where
  "makes_classes java \<longleftrightarrow> (\<forall>b out. java b = Inr (Some out) \<longrightarrow> out \<noteq> [] \<and> length out < 2 ^ 31)"

text \<open>
  GraalVM's isolates: a new one is written where the creation succeeds, and one torn down is
  gone. Where the creation fails nothing is known of the out-parameter.
\<close>

definition graal_laws :: "'g svm_symbols \<Rightarrow> bool" where
  "graal_laws lib \<longleftrightarrow>
     (\<forall>f w err t u. create_isolate_symbol lib = Some f \<longrightarrow> f w = ((err, t), u) \<longrightarrow>
        svm_heap u = svm_heap w \<and> open_libraries u = open_libraries w \<and>
        (if err = 0 then \<exists>q. t = Some q \<and> q \<notin> isolates w \<and> isolates u = insert q (isolates w)
         else isolates u = isolates w)) \<and>
     (\<forall>f q w err u. tear_down_isolate_symbol lib = Some f \<longrightarrow> f q w = ((err, ()), u) \<longrightarrow>
        svm_heap u = svm_heap w \<and> open_libraries u = open_libraries w \<and>
        isolates u = (if err = 0 then isolates w - {q} else isolates w))"

definition compiled_from :: "'g unmanaged_memory \<Rightarrow> class_instrumenter \<Rightarrow> 'g svm_symbols \<Rightarrow> bool" where
  "compiled_from U java lib \<longleftrightarrow>
     instrument_symbol lib = Some (java_instrument U java) \<and> free_symbol lib = Some (java_free U)"

lemma graal_create:
  assumes "graal_laws lib" and "create_isolate_symbol lib = Some f" and "f w = ((err, t), u)"
  shows "svm_heap u = svm_heap w" and "open_libraries u = open_libraries w"
    and "err = 0 \<Longrightarrow> \<exists>q. t = Some q \<and> q \<notin> isolates w \<and> isolates u = insert q (isolates w)"
    and "err \<noteq> 0 \<Longrightarrow> isolates u = isolates w"
  using assms unfolding graal_laws_def by (metis (full_types))+

lemma graal_tear_down:
  assumes "graal_laws lib" and "tear_down_isolate_symbol lib = Some f" and "f q w = ((err, ()), u)"
  shows "svm_heap u = svm_heap w" and "open_libraries u = open_libraries w"
    and "isolates u = (if err = 0 then isolates w - {q} else isolates w)"
  using assms unfolding graal_laws_def by (metis (full_types))+

lemma malloc_laws:
  assumes "unmanaged_laws U"
  shows "malloc U n w = (Inl (), u) \<Longrightarrow> svm_frame w u \<and> svm_heap u = svm_heap w"
    and "0 < n \<Longrightarrow> malloc U n w = (Inr p, u) \<Longrightarrow>
      svm_frame w u \<and> p \<noteq> 0 \<and> svm_heap w p = None \<and>
      (\<exists>b. length b = n \<and> svm_heap u = (svm_heap w)(p \<mapsto> b))"
    and "svm_frame w (release_memory U p w) \<and>
      svm_heap (release_memory U p w) = (svm_heap w)(p := None)"
  using assms by (simp_all add: unmanaged_laws_def)

section \<open>The entry points\<close>

lemma sint_length: "n < 2 ^ 31 \<Longrightarrow> sint (of_nat n :: 32 word) = int n"
  using signed_take_bit_int_eq_self [of 31 "int n"] by (simp add: signed_of_nat)

lemma makeByteArrayFrom_all:
  "length b < 2 ^ 31 \<Longrightarrow> makeByteArrayFrom (of_nat (length b)) b w = (Inr b, w)"
  using sint_length [of "length b"] by (simp add: makeByteArrayFrom_def map_nth)

lemma write_bytes_run:
  "svm_heap w p = Some old \<Longrightarrow> i + length bs \<le> length old \<Longrightarrow>
   write_bytes p i bs w = w\<lparr>svm_heap := (svm_heap w)(p \<mapsto> take i old @ bs @ drop (i + length bs) old)\<rparr>"
proof (induction bs arbitrary: i w old)
  case Nil
  then have "(svm_heap w)(p \<mapsto> old) = svm_heap w" by (simp add: fun_upd_idem)
  with Nil show ?case by simp
next
  case (Cons b bs)
  then have i: "i < length old" by simp
  let ?w = "w\<lparr>svm_heap := (svm_heap w)(p \<mapsto> old[i := b])\<rparr>"
  have "take (Suc i) (old[i := b]) = take i old @ [b]" using i by (simp add: take_Suc_conv_app_nth)
  moreover have "write_bytes p (Suc i) bs ?w = ?w\<lparr>svm_heap := (svm_heap ?w)(p \<mapsto>
      take (Suc i) (old[i := b]) @ bs @ drop (Suc i + length bs) (old[i := b]))\<rparr>"
    using Cons.prems by (intro Cons.IH) simp_all
  moreover have "write_bytes p i (b # bs) w = write_bytes p (Suc i) bs ?w"
    using Cons.prems(1) by simp
  ultimately show ?case by (simp add: fun_upd_def cong: if_cong)
qed

lemma makeCCharBufferFrom_cases:
  assumes "unmanaged_laws U" and "out \<noteq> []" and "makeCCharBufferFrom U out w = (r, u)"
  shows "svm_frame w u \<and> (case r of Inl _ \<Rightarrow> svm_heap u = svm_heap w
    | Inr p \<Rightarrow> p \<noteq> 0 \<and> svm_heap w p = None \<and> svm_heap u = (svm_heap w)(p \<mapsto> out))"
proof (cases "malloc U (length out) w")
  case (Pair m v)
  show ?thesis
  proof (cases m)
    case (Inl e)
    with Pair assms(3) malloc_laws(1) [OF assms(1)] show ?thesis
      by (auto simp: makeCCharBufferFrom_def java_bind_def)
  next
    case (Inr p)
    from malloc_laws(2) [OF assms(1), of "length out" w p v] assms(2) Pair Inr obtain b where
      "svm_frame w v" "p \<noteq> 0" "svm_heap w p = None" "length b = length out"
      "svm_heap v = (svm_heap w)(p \<mapsto> b)" by auto
    then have frame: "svm_frame w v" and p: "p \<noteq> 0" "svm_heap w p = None"
      and written: "write_bytes p 0 out v = v\<lparr>svm_heap := (svm_heap w)(p \<mapsto> out)\<rparr>"
      using write_bytes_run [of v p b 0 out] by simp_all
    have "r = Inr p" "u = write_bytes p 0 out v"
      using Pair Inr assms(3) by (simp_all add: makeCCharBufferFrom_def java_bind_def)
    with frame p written show ?thesis by (simp add: svm_frame_def)
  qed
qed

text \<open>The three ways a call ends, with everything written in each.\<close>

lemma java_instrument_cases:
  assumes "unmanaged_laws U" and "makes_classes java" and "length b < 2 ^ 31"
    and "java_instrument U java t (of_nat (length b)) b w = (x, u)"
  obtains (thrown) "x = (-1, Some 0, Some 0)" "java b \<noteq> Inr None" "svm_frame w u" "svm_heap u = svm_heap w"
  | (unchanged) "x = (0, Some 0, Some 0)" "java b = Inr None" "u = w"
  | (replaced) out p where "x = (0, Some (of_nat (length out)), Some p)" "java b = Inr (Some out)"
      "svm_frame w u" "p \<noteq> 0" "svm_heap w p = None" "svm_heap u = (svm_heap w)(p \<mapsto> out)"
      "out \<noteq> []" "length out < 2 ^ 31"
proof (cases "java b")
  case (Inl e)
  with assms(4) thrown show ?thesis
    by (simp add: java_instrument_def java_bind_def makeByteArrayFrom_all [OF assms(3)] svm_frame_def)
next
  case (Inr res)
  note run = assms(4) [unfolded java_instrument_def java_bind_def makeByteArrayFrom_all [OF assms(3)]]
  show ?thesis
  proof (cases res)
    case None
    with Inr run unchanged show ?thesis by simp
  next
    case (Some out)
    with Inr assms(2) have out: "out \<noteq> []" "length out < 2 ^ 31" by (auto simp: makes_classes_def)
    obtain m v where m: "makeCCharBufferFrom U out w = (m, v)" by fastforce
    from makeCCharBufferFrom_cases [OF assms(1) out(1) m] m Inr Some run out thrown replaced
    show ?thesis by (cases m) auto
  qed
qed


section \<open>The Rust side on the library\<close>

lemma library_new_run:
  "ld path = Some lib \<Longrightarrow>
   library_new ld path w = (Inr (Inr lib), w\<lparr>open_libraries := Suc (open_libraries w)\<rparr>)"
  by (simp add: library_new_def prog_simps)

abbreviation opened :: "'g svm_world \<Rightarrow> 'g svm_world" where
  "opened w \<equiv> w\<lparr>open_libraries := Suc (open_libraries w)\<rparr>"

lemma new_from_library_path_run:
  "ld path = Some lib \<Longrightarrow> create_isolate_symbol lib = Some f \<Longrightarrow> f (opened w) = ((err, t), u) \<Longrightarrow>
   new_from_library_path ld path w =
     (case t of
        None \<Rightarrow> (Inl (Undefined ReadUninit), close_library u)
      | Some q \<Rightarrow>
          (if err \<noteq> 0 then (Inr (Inl ()), close_library u)
           else
             (case (instrument_symbol lib, free_symbol lib) of
                (Some i, Some r) \<Rightarrow>
                  (Inr (Inr \<lparr>isolate_thread = q, svm_instr_instrument_fn = i,
                            svm_instr_free_fn = r, svm_library = lib\<rparr>), u)
              | _ \<Rightarrow> (Inr (Inl ()), close_library u))))"
  by (cases t; cases "instrument_symbol lib"; cases "free_symbol lib")
     (simp_all add: new_from_library_path_def library_new_def library_scope_def graal_create_isolate_def
        get_svm_symbol_def foreign_def prog_simps)

lemma new_from_library_path_Inr:
  assumes "new_from_library_path ld path w = (Inr (Inr self), u)"
  obtains lib f where "ld path = Some lib" "create_isolate_symbol lib = Some f"
    "f (opened w) = ((0, Some (isolate_thread self)), u)" "svm_library self = lib"
    "instrument_symbol lib = Some (svm_instr_instrument_fn self)"
    "free_symbol lib = Some (svm_instr_free_fn self)"
proof -
  obtain lib where lib: "ld path = Some lib"
    using assms by (cases "ld path") (auto simp: new_from_library_path_def library_new_def prog_simps)
  obtain f where f: "create_isolate_symbol lib = Some f"
    using assms lib by (cases "create_isolate_symbol lib")
      (auto simp: new_from_library_path_def library_new_def library_scope_def graal_create_isolate_def
        get_svm_symbol_def prog_simps)
  obtain err t v where v: "f (opened w) = ((err, t), v)" by (metis prod.exhaust)
  show ?thesis
    using assms new_from_library_path_run [of ld path lib f w err t v, OF lib f v] that [OF lib f] v
    by (auto split: option.splits if_splits)
qed

lemma compiled_functions:
  assumes "compiled_from U java lib" and "ld path = Some lib"
    and "new_from_library_path ld path w = (Inr (Inr self), u)"
  shows "svm_instr_instrument_fn self = java_instrument U java \<and> svm_instr_free_fn self = java_free U"
  by (rule new_from_library_path_Inr [OF assms(3)]) (use assms(1,2) in \<open>auto simp: compiled_from_def\<close>)

lemma as_slice_run:
  assumes "svm_heap w p = Some out" and "p \<noteq> 0" and "length out < 2 ^ 31"
  shows "as_slice \<lparr>buffer_ptr = p, buffer_size = of_int (sint (of_nat (length out) :: 32 word))\<rparr> w = (Inr out, w)"
proof -
  have "unat (of_int (sint (of_nat (length out) :: 32 word)) :: 64 word) = length out"
    using assms(3) by (simp add: sint_length unsigned_of_nat take_bit_nat_eq_self)
  with assms(1,2) show ?thesis by (simp add: as_slice_def Let_def)
qed

lemma svm_instr_free_run:
  assumes "unmanaged_laws U" and "svm_instr_free_fn self = java_free U"
  obtains u where "svm_instr_free self buf w = (Inr (Inr ()), u)" "svm_frame w u"
    "svm_heap u = (svm_heap w)(buffer_ptr buf := None)"
proof
  let ?u = "release_memory U (buffer_ptr buf) w"
  show "svm_instr_free self buf w = (Inr (Inr ()), ?u)"
    using assms(2) by (simp add: svm_instr_free_def java_free_def foreign_def prog_simps)
  from malloc_laws(3) [OF assms(1)] show "svm_frame w ?u"
    "svm_heap ?u = (svm_heap w)(buffer_ptr buf := None)" by simp_all
qed

lemma svm_drop_run:
  "svm_drop self v =
     (case tear_down_isolate_symbol (svm_library self) of
        None \<Rightarrow> (Inl (Panicked UnwrapErr), close_library v)
      | Some g \<Rightarrow>
          (case g (isolate_thread self) v of ((err, _), x) \<Rightarrow>
            (if err = 0 then Inr () else Inl (Panicked UnwrapErr), close_library x)))"
  by (auto simp: svm_drop_def graal_tear_down_isolate_def get_svm_symbol_def foreign_def prog_simps
      split: option.split prod.split)

section \<open>Properties\<close>

text \<open>
  C14. The in-process instrumenter does what the class instrumenter does. With a library
  compiled from the Java sources, instrumenting returns and never disturbs the isolates.
  Where the class instrumenter (or the allocation) throws, the result is an error and
  nothing is left allocated; where it gives a class, the slice of the returned buffer is
  exactly that class, and freeing the buffer gives back all memory; where it asks for no
  change, the buffer is null, and taking its slice is undefined behaviour.
\<close>

theorem svm_instrument_outcome:
  assumes "unmanaged_laws U" and "makes_classes java" and "compiled_from U java lib"
    and "ld path = Some lib" and "new_from_library_path ld path w0 = (Inr (Inr self), w)"
    and "length b < 2 ^ 31" and "svm_instr_instrument self b v = (r, u)"
  shows "svm_frame v u \<and>
    ((r = Inr (Inl ()) \<and> java b \<noteq> Inr None \<and> svm_heap u = svm_heap v) \<or>
     (\<exists>buf. r = Inr (Inr buf) \<and> java b = Inr None \<and> u = v \<and>
        as_slice buf u = (Inl (Undefined DanglingRead), u)) \<or>
     (\<exists>buf out u'. r = Inr (Inr buf) \<and> java b = Inr (Some out) \<and> as_slice buf u = (Inr out, u) \<and>
        svm_instr_free self buf u = (Inr (Inr ()), u') \<and> svm_frame v u' \<and> svm_heap u' = svm_heap v))"
proof -
  have self: "svm_instr_instrument_fn self = java_instrument U java" "svm_instr_free_fn self = java_free U"
    using compiled_functions [OF assms(3-5)] by simp_all
  obtain x v' where x: "java_instrument U java (isolate_thread self) (of_nat (length b)) b v = (x, v')"
    by fastforce
  note run = assms(7) [unfolded svm_instr_instrument_def self(1)]
  show ?thesis
  proof (rule java_instrument_cases [OF assms(1,2,6) x], goal_cases thrown unchanged replaced)
    case thrown
    with run x assms(6) show ?case by (auto simp: prog_simps foreign_def)
  next
    case unchanged
    with run x assms(6) show ?case by (auto simp: prog_simps foreign_def as_slice_def svm_frame_def)
  next
    case (replaced out p)
    let ?buf = "\<lparr>buffer_ptr = p, buffer_size = of_int (sint (of_nat (length out) :: 32 word))\<rparr>"
    have r: "r = Inr (Inr ?buf)" "u = v'"
      using run x assms(6) replaced(1,8) sint_length [of "length out"] by (auto simp: prog_simps foreign_def)
    have "as_slice ?buf u = (Inr out, u)"
      using replaced r by (intro as_slice_run) simp_all
    moreover obtain u' where u': "svm_instr_free self ?buf u = (Inr (Inr ()), u')" "svm_frame u u'"
      "svm_heap u' = (svm_heap u)(p := None)"
      by (rule svm_instr_free_run [OF assms(1) self(2), of ?buf u]) simp
    moreover have "svm_heap u' = svm_heap v" "svm_frame v u'" "svm_frame v u"
      using u' r(2) replaced(3,5,6) by (auto simp: fun_eq_iff svm_frame_def)
    ultimately show ?case using r(1) replaced(2) by blast
  qed
qed


text \<open>A library to run it on, with isolates and memory numbered by a counter.\<close>

definition reference_memory :: "nat unmanaged_memory" where
  "reference_memory =
     \<lparr>malloc = (\<lambda>n w. let p = of_nat (Suc (graal w)) in
        if p = 0 \<or> svm_heap w p \<noteq> None then (Inl (), w)
        else (Inr p, w\<lparr>graal := Suc (graal w), svm_heap := (svm_heap w)(p \<mapsto> replicate n (CHR 0x00))\<rparr>)),
      release_memory = (\<lambda>p w. w\<lparr>svm_heap := (svm_heap w)(p := None)\<rparr>)\<rparr>"

definition reference_create :: "nat GraalCreateIsolateFn" where
  "reference_create = (\<lambda>w. let q = of_nat (Suc (graal w)) in
     if q \<in> isolates w then ((1, None), w)
     else ((0, Some q), w\<lparr>graal := Suc (graal w), isolates := insert q (isolates w)\<rparr>))"

definition reference_tear_down :: "nat GraalTearDownIsolateFn" where
  "reference_tear_down q = (\<lambda>w. ((0, ()), w\<lparr>isolates := isolates w - {q}\<rparr>))"

definition reference_image :: "class_instrumenter \<Rightarrow> nat svm_symbols" where
  "reference_image java =
     \<lparr>create_isolate_symbol = Some reference_create, tear_down_isolate_symbol = Some reference_tear_down,
      instrument_symbol = Some (java_instrument reference_memory java),
      free_symbol = Some (java_free reference_memory)\<rparr>"

definition sample_java :: class_instrumenter where
  "sample_java b = (if b = ''old'' then Inr (Some ''new'') else Inr None)"

definition no_isolates :: "nat svm_world" where
  "no_isolates = \<lparr>graal = 0, isolates = {}, svm_heap = Map.empty, open_libraries = 0\<rparr>"

lemma reference_memory_laws: "unmanaged_laws reference_memory"
  by (auto simp: unmanaged_laws_def reference_memory_def svm_frame_def Let_def split: if_splits)
    (metis length_replicate)

lemma reference_graal_laws: "graal_laws (reference_image java)"
  by (auto simp: graal_laws_def reference_image_def reference_create_def reference_tear_down_def Let_def
      split: if_splits)

lemma reference_compiled: "compiled_from reference_memory java (reference_image java)"
  by (simp add: compiled_from_def reference_image_def)

lemma sample_java_classes: "makes_classes sample_java"
  by (simp add: makes_classes_def sample_java_def)

definition reference_thread :: "class_instrumenter \<Rightarrow> nat SvmIsolateThread" where
  "reference_thread java =
     \<lparr>isolate_thread = 1, svm_instr_instrument_fn = java_instrument reference_memory java,
      svm_instr_free_fn = java_free reference_memory, svm_library = reference_image java\<rparr>"

definition one_isolate :: "nat svm_world" where
  "one_isolate = \<lparr>graal = 1, isolates = {1}, svm_heap = Map.empty, open_libraries = 1\<rparr>"

lemma reference_new:
  "new_from_library_path (\<lambda>_. Some (reference_image java)) [] no_isolates =
     (Inr (Inr (reference_thread java)), one_isolate)"
proof -
  have f: "reference_create (opened no_isolates) = ((0, Some 1), one_isolate)"
    by (simp add: reference_create_def no_isolates_def one_isolate_def)
  have "create_isolate_symbol (reference_image java) = Some reference_create"
    by (simp add: reference_image_def)
  from new_from_library_path_run [of "\<lambda>_. Some (reference_image java)" "[]" "reference_image java"
      reference_create no_isolates 0 "Some 1" one_isolate, OF refl this f]
  show ?thesis by (simp add: reference_image_def reference_thread_def)
qed

theorem svm_instrument_outcome_witness:
  "\<exists>buf u. svm_instr_instrument (reference_thread sample_java) ''old'' one_isolate = (Inr (Inr buf), u) \<and>
     as_slice buf u = (Inr ''new'', u) \<and> svm_frame one_isolate u"
proof -
  obtain r u where run: "svm_instr_instrument (reference_thread sample_java) ''old'' one_isolate = (r, u)"
    by fastforce
  have "length ''old'' < 2 ^ 31" by simp
  note outcome = svm_instrument_outcome [OF reference_memory_laws sample_java_classes reference_compiled
      refl reference_new this run]
  have "makeByteArrayFrom 3 ''old'' one_isolate = (Inr ''old'', one_isolate)"
    using makeByteArrayFrom_all [of "''old''"] by simp
  moreover have "malloc reference_memory (Suc (Suc (Suc 0))) one_isolate =
      (Inr 2, one_isolate\<lparr>graal := 2, svm_heap := [2 \<mapsto> replicate 3 (CHR 0x00)]\<rparr>)"
    by (simp add: reference_memory_def one_isolate_def eval_nat_numeral)
  ultimately have "fst (fst (java_instrument reference_memory sample_java 1 3 ''old'' one_isolate)) = 0"
    by (simp add: java_instrument_def java_bind_def sample_java_def makeCCharBufferFrom_def)
  then have "r \<noteq> Inr (Inl ())"
    using run by (auto simp: svm_instr_instrument_def reference_thread_def foreign_def prog_simps
      split: prod.splits option.splits if_splits)
  with outcome run show ?thesis by (auto simp: sample_java_def)
qed

text \<open>
  C25. Opening and dropping a library is balanced: opening starts one new isolate and holds
  one more handle, and dropping gives the handle back in any case, and the isolate too
  unless the library cannot tear it down, which is a panic.
\<close>

theorem svm_open_drop:
  assumes "graal_laws lib" and "ld path = Some lib"
    and "new_from_library_path ld path w = (Inr (Inr self), u)"
    and "svm_frame u v" and "svm_drop self v = (r, v')"
  shows "isolate_thread self \<notin> isolates w \<and> isolates u = insert (isolate_thread self) (isolates w) \<and>
    open_libraries u = Suc (open_libraries w) \<and> open_libraries v' = open_libraries w \<and>
    svm_heap v' = svm_heap v \<and>
    (r = Inr () \<and> isolates v' = isolates w \<or> r = Inl (Panicked UnwrapErr) \<and> isolates v' = isolates u)"
proof -
  obtain f where f: "create_isolate_symbol lib = Some f"
    "f (opened w) = ((0, Some (isolate_thread self)), u)" "svm_library self = lib"
  proof (rule new_from_library_path_Inr [OF assms(3)], goal_cases)
    case (1 lib' f)
    have "lib' = lib" using 1(2) assms(2) by simp
    with 1 show thesis by blast
  qed
  from graal_create [OF assms(1) f(1,2)] have made: "isolate_thread self \<notin> isolates w"
    "isolates u = insert (isolate_thread self) (isolates w)" "open_libraries u = Suc (open_libraries w)"
    by simp_all
  have v: "isolates v = isolates u" "open_libraries v = open_libraries u"
    using assms(4) by (simp_all add: svm_frame_def)
  note run = assms(5) [unfolded svm_drop_run f(3)]
  show ?thesis
  proof (cases "tear_down_isolate_symbol lib")
    case None
    then have "v' = close_library v" "r = Inl (Panicked UnwrapErr)" using run by simp_all
    with v made show ?thesis by (simp add: close_library_def)
  next
    case (Some g)
    obtain err x where x: "g (isolate_thread self) v = ((err, ()), x)" by (metis prod.exhaust old.unit.exhaust)
    have "v' = close_library x" "r = (if err = 0 then Inr () else Inl (Panicked UnwrapErr))"
      using run Some x by simp_all
    moreover have "isolates x = (if err = 0 then isolates w else isolates u)"
      using graal_tear_down(3) [OF assms(1) Some x] v(1) made(1,2) by auto
    ultimately show ?thesis using graal_tear_down(1,2) [OF assms(1) Some x] v made
      by (simp add: close_library_def)
  qed
qed

theorem svm_open_drop_witness:
  "\<exists>v'. svm_drop (reference_thread sample_java) one_isolate = (Inr (), v') \<and>
     isolates v' = {} \<and> open_libraries v' = 0"
proof -
  obtain r v' where run: "svm_drop (reference_thread sample_java) one_isolate = (r, v')" by fastforce
  have "r = Inr ()"
    using run by (auto simp: svm_drop_def reference_thread_def graal_tear_down_isolate_def get_svm_symbol_def
      reference_image_def reference_tear_down_def foreign_def prog_simps)
  moreover have "svm_frame one_isolate one_isolate" by (simp add: svm_frame_def)
  ultimately show ?thesis
    using svm_open_drop [OF reference_graal_laws refl reference_new _ run] run
    by (auto simp: no_isolates_def)
qed

text \<open>
  C27. A library that lacks one of the two entry points is found out only after an isolate
  has been created: the caller gets an error, the library is closed, and the isolate stays.
  One whose creation of an isolate fails without writing the out-parameter makes the caller
  read uninitialised memory instead of reporting the error.
\<close>

theorem svm_open_failures:
  assumes "graal_laws lib" and "ld path = Some lib" and "create_isolate_symbol lib = Some f"
    and "f (opened w) = ((err, t), u)"
  shows "(err = 0 \<and> (instrument_symbol lib = None \<or> free_symbol lib = None) \<longrightarrow>
      (\<exists>q w'. new_from_library_path ld path w = (Inr (Inl ()), w') \<and> q \<notin> isolates w \<and>
        isolates w' = insert q (isolates w) \<and> open_libraries w' = open_libraries w)) \<and>
    (err \<noteq> 0 \<longrightarrow> fst (new_from_library_path ld path w) =
      (if t = None then Inl (Undefined ReadUninit) else Inr (Inl ())))"
proof (cases "err = 0")
  case True
  with graal_create [OF assms(1,3,4)] obtain q where q: "t = Some q" "q \<notin> isolates w"
    "isolates u = insert q (isolates w)" "open_libraries u = Suc (open_libraries w)" by auto
  with True new_from_library_path_run [of ld path, OF assms(2-4)] show ?thesis
    by (auto simp: close_library_def split: option.splits)
next
  case False
  with new_from_library_path_run [of ld path, OF assms(2-4)] show ?thesis
    by (cases t) simp_all
qed

text \<open>The library without \<open>svm_instr_free\<close>.\<close>

theorem svm_open_failures_witness:
  "\<exists>w'. new_from_library_path (\<lambda>_. Some ((reference_image sample_java)\<lparr>free_symbol := None\<rparr>)) [] no_isolates =
     (Inr (Inl ()), w') \<and> isolates w' \<noteq> {} \<and> open_libraries w' = 0"
proof -
  let ?lib = "(reference_image sample_java)\<lparr>free_symbol := None\<rparr>"
  have laws: "graal_laws ?lib"
    using reference_graal_laws [of sample_java] by (simp add: graal_laws_def)
  have f: "create_isolate_symbol ?lib = Some reference_create"
    by (simp add: reference_image_def)
  have run: "reference_create (opened no_isolates) = ((0, Some 1), one_isolate)"
    by (simp add: reference_create_def no_isolates_def one_isolate_def)
  have fails: "err = 0 \<and> (instrument_symbol ?lib = None \<or> free_symbol ?lib = None)" if "err = (0 :: 32 word)" for err
    using that by simp
  from svm_open_failures [of ?lib "\<lambda>_. Some ?lib" "[]", OF laws refl f run] fails [OF refl]
  obtain q w' where "new_from_library_path (\<lambda>_. Some ?lib) [] no_isolates = (Inr (Inl ()), w')"
    "isolates w' = insert q (isolates no_isolates)" "open_libraries w' = open_libraries no_isolates" by blast
  then show ?thesis by (auto simp: no_isolates_def)
qed

end
