(* ===== verification/Daemon.thy ===== *)
theory Daemon
  imports FileSystem "HOL-Library.Multiset"
begin

text \<open>
  The daemon that records events, \<^verbatim>\<open>phasicj/daemon/main.rs\<close> and \<^verbatim>\<open>phasicj/daemon/rtevents.rs\<close>.
  SQLite, the binding of a socket and
  the transport of requests are arguments; the SQL the sources send is kept, white space
  apart, and the laws say what these statements do.
\<close>

section \<open>SQLite\<close>

text \<open>
  A connection is known by the file it is open on, a prepared statement by a number; any
  call may fail at any time.
\<close>

type_synonym connection = path
type_synonym statement = nat

definition CREATE_RTEVENTS :: string where
  "CREATE_RTEVENTS = ''CREATE TABLE rtevents ( id INTEGER PRIMARY KEY, description TEXT )''"

definition INSERT_RTEVENT :: string where
  "INSERT_RTEVENT = ''INSERT INTO rtevents (description) VALUES (?1)''"

definition SELECT_DESCRIPTIONS :: string where
  "SELECT_DESCRIPTIONS = ''SELECT description FROM rtevents''"

type_synonym rtevents_row = "nat \<times> string option"

text \<open>
  The last three are not called by the code. \<open>own_file\<close> holds of paths that name a database
  file each, no two of them the same one: not \<^verbatim>\<open>:memory:\<close>, the empty path of a temporary
  database, or a link. \<open>rtevents\<close> is the content of the table of that name in the database of
  a file, oldest row first, or \<open>None\<close> where there is no such table. \<open>to_read\<close> is what a prepared
  query reads, the connection and the descriptions it has not given yet.
\<close>

record 'd sqlite =
  conn_open :: "path \<Rightarrow> 'd \<Rightarrow> (unit + connection) \<times> 'd"
  conn_execute :: "connection \<Rightarrow> string \<Rightarrow> string list \<Rightarrow> 'd \<Rightarrow> (unit + nat) \<times> 'd"
  conn_prepare :: "connection \<Rightarrow> string \<Rightarrow> 'd \<Rightarrow> (unit + statement) \<times> 'd"
  stmt_query :: "statement \<Rightarrow> 'd \<Rightarrow> (unit + unit) \<times> 'd"
  stmt_step :: "statement \<Rightarrow> 'd \<Rightarrow> (unit + string option option) \<times> 'd"
  own_file :: "path \<Rightarrow> bool"
  rtevents :: "path \<Rightarrow> 'd \<Rightarrow> rtevents_row list option"
  to_read :: "statement \<Rightarrow> 'd \<Rightarrow> (connection \<times> string option list) option"

text \<open>
  What a call leaves alone in the files' databases. A query reads the table as it was when
  the query was made, in an order that SQL leaves open; a write through another connection
  does not disturb it, by the isolation SQLite documents.
\<close>

definition tables_kept :: "'d sqlite \<Rightarrow> (path \<Rightarrow> bool) \<Rightarrow> 'd \<Rightarrow> 'd \<Rightarrow> bool" where
  "tables_kept S P d d' \<longleftrightarrow> (\<forall>q. own_file S q \<longrightarrow> P q \<longrightarrow> rtevents S q d' = rtevents S q d)"

definition open_law :: "'d sqlite \<Rightarrow> bool" where
  "open_law S \<longleftrightarrow> (\<forall>p d r d'. conn_open S p d = (r, d') \<longrightarrow>
     tables_kept S (\<lambda>_. True) d d' \<and> (\<forall>c. r = Inr c \<longrightarrow> c = p))"

definition create_law :: "'d sqlite \<Rightarrow> bool" where
  "create_law S \<longleftrightarrow> (\<forall>c d r d'. own_file S c \<longrightarrow> conn_execute S c CREATE_RTEVENTS [] d = (r, d') \<longrightarrow>
     tables_kept S (\<lambda>q. q \<noteq> c) d d' \<and>
     (case r of Inl _ \<Rightarrow> rtevents S c d' = rtevents S c d
      | Inr _ \<Rightarrow> rtevents S c d = None \<and> rtevents S c d' = Some []))"

definition insert_law :: "'d sqlite \<Rightarrow> bool" where
  "insert_law S \<longleftrightarrow> (\<forall>c descr d r d'. own_file S c \<longrightarrow> conn_execute S c INSERT_RTEVENT [descr] d = (r, d') \<longrightarrow>
     tables_kept S (\<lambda>q. q \<noteq> c) d d' \<and>
     (case r of Inl _ \<Rightarrow> rtevents S c d' = rtevents S c d
      | Inr _ \<Rightarrow> \<exists>rows i. rtevents S c d = Some rows \<and> i \<notin> fst ` set rows \<and>
          rtevents S c d' = Some (rows @ [(i, Some descr)])) \<and>
     (\<forall>s q xs. own_file S q \<longrightarrow> to_read S s d = Some (q, xs) \<longrightarrow> q \<noteq> c \<longrightarrow> to_read S s d' = Some (q, xs)))"

definition select_law :: "'d sqlite \<Rightarrow> bool" where
  "select_law S \<longleftrightarrow>
     (\<forall>c d r d'. own_file S c \<longrightarrow> conn_prepare S c SELECT_DESCRIPTIONS d = (r, d') \<longrightarrow>
        tables_kept S (\<lambda>_. True) d d' \<and>
        (\<forall>s. r = Inr s \<longrightarrow> (\<exists>rows xs. rtevents S c d = Some rows \<and> to_read S s d' = Some (c, xs) \<and>
           mset xs = image_mset snd (mset rows)))) \<and>
     (\<forall>s d r d'. stmt_query S s d = (r, d') \<longrightarrow>
        tables_kept S (\<lambda>_. True) d d' \<and> (r = Inr () \<longrightarrow> to_read S s d' = to_read S s d)) \<and>
     (\<forall>s d r d'. stmt_step S s d = (r, d') \<longrightarrow>
        tables_kept S (\<lambda>_. True) d d' \<and>
        (\<forall>row q xs. r = Inr row \<longrightarrow> to_read S s d = Some (q, xs) \<longrightarrow>
           (case xs of [] \<Rightarrow> row = None | x # ys \<Rightarrow> row = Some x \<and> to_read S s d' = Some (q, ys))))"

definition sqlite_laws :: "'d sqlite \<Rightarrow> bool" where
  "sqlite_laws S \<longleftrightarrow> open_law S \<and> create_law S \<and> insert_law S \<and> select_law S"

section \<open>The recorder\<close>

record 'd daemon_world =
  database :: 'd
  disk :: fsys
  connection_poisoned :: bool

record SqliteRecorder =
  database_connection :: connection

definition on_database :: "('d \<Rightarrow> 'a \<times> 'd) \<Rightarrow> ('d daemon_world, 'a) prog" where
  "on_database f = (\<lambda>w. case f (database w) of (x, d) \<Rightarrow> (Inr x, w\<lparr>database := d\<rparr>))"

definition SqliteRecorder_new ::
  "'d sqlite \<Rightarrow> path \<Rightarrow> ('d daemon_world, unit + SqliteRecorder) prog" where
  "SqliteRecorder_new S db =
     trying (on_database (conn_open S db)) (\<lambda>connection.
     trying (on_database (conn_execute S connection CREATE_RTEVENTS [])) (\<lambda>_.
     seq (update (\<lambda>w. w\<lparr>connection_poisoned := False\<rparr>))
       (ret (Inr \<lparr>database_connection = connection\<rparr>))))"

text \<open>
  The connection is locked for the insertion; a panic while it is locked poisons it, and
  locking a poisoned mutex panics.
\<close>

definition with_connection :: "('d daemon_world, 'a) prog \<Rightarrow> ('d daemon_world, 'a) prog" where
  "with_connection m =
     bnd (gets connection_poisoned) (\<lambda>b.
     if b then panic UnwrapErr
     else (\<lambda>w. case m w of
             (Inl e, u) \<Rightarrow> (Inl e, u\<lparr>connection_poisoned := True\<rparr>)
           | (Inr x, u) \<Rightarrow> (Inr x, u)))"

definition record_events ::
  "'d sqlite \<Rightarrow> SqliteRecorder \<Rightarrow> string \<Rightarrow> ('d daemon_world, unit + string) prog" where
  "record_events S self ev_descr =
     bnd (with_connection
            (bnd (on_database (conn_execute S (database_connection self) INSERT_RTEVENT [ev_descr]))
               unwrap_ok)) (\<lambda>_.
     ret (Inr ''ack''))"

section \<open>The daemon\<close>

record Opts =
  opt_database :: string
  opt_socket :: string

text \<open>
  Serving never returns: the stream of connections has no end, and an error of \<open>accept\<close> ends
  it in the panic of \<open>unwrap\<close>. So these two functions give the recorder with which the daemon
  goes on to serve.
\<close>

definition record_pj_rt_events_from_uds ::
  "'d sqlite \<Rightarrow> (path \<Rightarrow> (fsys, io_error + unit) prog) \<Rightarrow> path \<Rightarrow> path \<Rightarrow>
   ('d daemon_world, SqliteRecorder) prog" where
  "record_pj_rt_events_from_uds S uds_bind socket db =
     bnd (expect UnwrapNone (path_parent socket)) (\<lambda>dir.
     bnd (zoom disk disk_update (create_dir_all dir)) (\<lambda>created.
     bnd (unwrap_ok created) (\<lambda>_.
     bnd (zoom disk disk_update (uds_bind socket)) (\<lambda>bound.
     bnd (unwrap_ok bound) (\<lambda>_.
     bnd (SqliteRecorder_new S db) unwrap_ok)))))"

definition daemon_main ::
  "'d sqlite \<Rightarrow> (path \<Rightarrow> (fsys, io_error + unit) prog) \<Rightarrow> Opts \<Rightarrow> ('d daemon_world, SqliteRecorder) prog" where
  "daemon_main S uds_bind opts =
     record_pj_rt_events_from_uds S uds_bind (components (opt_socket opts)) (components (opt_database opts))"

section \<open>Serving\<close>

text \<open>
  What the root task is at, or that the process is gone; and what happens while it serves:
  a connection is accepted or not, a handler runs with what comes of it, the process is
  killed, before the next handler locks the connection or when the insertion of one has been
  made and is not answered yet. Which connections and requests there are, and in which order
  the handlers get the lock, is up to the transport. A panic of a handler is caught by the
  runtime, and that of the root task leaves the handlers that run to their end.
\<close>

datatype root_task = Accepting | Panicking fault | Gone

datatype happening =
    Accepted "io_error + unit"
  | Handled string "(unit + string) result"
  | Killed "string option"

inductive serves ::
  "'d sqlite \<Rightarrow> SqliteRecorder \<Rightarrow> root_task \<times> 'd daemon_world \<Rightarrow> happening \<Rightarrow>
   root_task \<times> 'd daemon_world \<Rightarrow> bool" for S self where
  accepted: "unwrap_ok conn w = (Inr (), u) \<Longrightarrow> serves S self (Accepting, w) (Accepted conn) (Accepting, u)"
| not_accepted: "unwrap_ok conn w = (Inl e, u) \<Longrightarrow>
    serves S self (Accepting, w) (Accepted conn) (Panicking e, u)"
| handled: "m \<noteq> Gone \<Longrightarrow> record_events S self descr w = (r, u) \<Longrightarrow>
    serves S self (m, w) (Handled descr r) (m, u)"
| killed: "m \<noteq> Gone \<Longrightarrow> serves S self (m, w) (Killed None) (Gone, w)"
| cut_off: "m \<noteq> Gone \<Longrightarrow> record_events S self descr w = (Inr x, u) \<Longrightarrow>
    serves S self (m, w) (Killed (Some descr)) (Gone, u)"

inductive_cases serves_AcceptedE: "serves S self s (Accepted conn) t"
inductive_cases serves_HandledE: "serves S self s (Handled descr r) t"
inductive_cases serves_KilledE: "serves S self s (Killed x) t"

section \<open>The log\<close>

lemma tables_keptD: "tables_kept S P d d' \<Longrightarrow> own_file S q \<Longrightarrow> P q \<Longrightarrow> rtevents S q d' = rtevents S q d"
  by (simp add: tables_kept_def)

lemma tables_kept_refl [simp]: "tables_kept S P d d"
  by (simp add: tables_kept_def)

lemma tables_kept_trans: "tables_kept S P d d' \<Longrightarrow> tables_kept S P d' d'' \<Longrightarrow> tables_kept S P d d''"
  by (simp add: tables_kept_def)

lemma tables_kept_less: "tables_kept S P d d' \<Longrightarrow> (\<And>q. Q q \<Longrightarrow> P q) \<Longrightarrow> tables_kept S Q d d'"
  by (simp add: tables_kept_def)

lemma tables_kept_all:
  "tables_kept S (\<lambda>q. q \<noteq> c) d d' \<Longrightarrow> rtevents S c d' = rtevents S c d \<Longrightarrow> tables_kept S (\<lambda>_. True) d d'"
  unfolding tables_kept_def by metis

lemma sqlite_open:
  assumes "sqlite_laws S" and "conn_open S p d = (r, d')"
  shows "tables_kept S (\<lambda>_. True) d d'" and "r = Inr c \<Longrightarrow> c = p"
  using assms by (simp_all add: sqlite_laws_def open_law_def)

lemma sqlite_create:
  assumes "sqlite_laws S" and "own_file S c" and "conn_execute S c CREATE_RTEVENTS [] d = (r, d')"
  shows "tables_kept S (\<lambda>q. q \<noteq> c) d d'"
    and "case r of Inl _ \<Rightarrow> rtevents S c d' = rtevents S c d
      | Inr _ \<Rightarrow> rtevents S c d = None \<and> rtevents S c d' = Some []"
proof -
  have "create_law S" using assms(1) by (simp only: sqlite_laws_def)
  from this [unfolded create_law_def, rule_format, OF assms(2,3)]
  show "tables_kept S (\<lambda>q. q \<noteq> c) d d'"
    and "case r of Inl _ \<Rightarrow> rtevents S c d' = rtevents S c d
      | Inr _ \<Rightarrow> rtevents S c d = None \<and> rtevents S c d' = Some []"
    by simp_all
qed

lemma sqlite_insert:
  assumes "sqlite_laws S" and "own_file S c" and "conn_execute S c INSERT_RTEVENT [descr] d = (r, d')"
  shows "tables_kept S (\<lambda>q. q \<noteq> c) d d'"
    and "case r of Inl _ \<Rightarrow> rtevents S c d' = rtevents S c d
      | Inr _ \<Rightarrow> \<exists>rows i. rtevents S c d = Some rows \<and> i \<notin> fst ` set rows \<and>
          rtevents S c d' = Some (rows @ [(i, Some descr)])"
    and "own_file S q \<Longrightarrow> to_read S s d = Some (q, xs) \<Longrightarrow> q \<noteq> c \<Longrightarrow> to_read S s d' = Some (q, xs)"
proof -
  have "insert_law S" using assms(1) by (simp only: sqlite_laws_def)
  note law = this [unfolded insert_law_def, THEN spec, THEN spec, THEN spec, THEN spec, THEN spec,
      THEN mp, OF assms(2), THEN mp, OF assms(3)]
  show "tables_kept S (\<lambda>q. q \<noteq> c) d d'" by (rule law [THEN conjunct1])
  show "case r of Inl _ \<Rightarrow> rtevents S c d' = rtevents S c d
      | Inr _ \<Rightarrow> \<exists>rows i. rtevents S c d = Some rows \<and> i \<notin> fst ` set rows \<and>
          rtevents S c d' = Some (rows @ [(i, Some descr)])"
    by (rule law [THEN conjunct2, THEN conjunct1])
  show "own_file S q \<Longrightarrow> to_read S s d = Some (q, xs) \<Longrightarrow> q \<noteq> c \<Longrightarrow> to_read S s d' = Some (q, xs)"
    by (rule law [THEN conjunct2, THEN conjunct2, rule_format])
qed

text \<open>The table of a database has got rows for the given descriptions, and only those.\<close>

definition log_extended :: "'d sqlite \<Rightarrow> path \<Rightarrow> 'd \<Rightarrow> string list \<Rightarrow> 'd \<Rightarrow> bool" where
  "log_extended S c d ds d' \<longleftrightarrow>
     (\<exists>rows new. rtevents S c d = Some rows \<and> rtevents S c d' = Some (rows @ new) \<and>
        map snd new = map Some ds \<and> fst ` set rows \<inter> fst ` set new = {} \<and> distinct (map fst new)) \<and>
     tables_kept S (\<lambda>q. q \<noteq> c) d d'"

lemma log_extended_refl: "log_extended S c d [] d \<longleftrightarrow> rtevents S c d \<noteq> None"
  by (auto simp: log_extended_def)

lemma log_extended_kept:
  "own_file S c \<Longrightarrow> tables_kept S (\<lambda>_. True) d d' \<Longrightarrow> rtevents S c d \<noteq> None \<Longrightarrow> log_extended S c d [] d'"
  by (auto simp: log_extended_def tables_kept_def)

lemma log_extended_trans:
  assumes "log_extended S c d ds d'" and "log_extended S c d' es d''"
  shows "log_extended S c d (ds @ es) d''"
proof -
  from assms(1) obtain rows new where 1: "rtevents S c d = Some rows" "rtevents S c d' = Some (rows @ new)"
    "map snd new = map Some ds" "fst ` set rows \<inter> fst ` set new = {}" "distinct (map fst new)"
    by (auto simp: log_extended_def)
  with assms(2) obtain new' where 2: "rtevents S c d'' = Some ((rows @ new) @ new')"
    "map snd new' = map Some es" "fst ` set (rows @ new) \<inter> fst ` set new' = {}" "distinct (map fst new')"
    by (auto simp: log_extended_def)
  have "rtevents S c d'' = Some (rows @ new @ new')" "map snd (new @ new') = map Some (ds @ es)"
    "fst ` set rows \<inter> fst ` set (new @ new') = {}" "distinct (map fst (new @ new'))"
    using 1 2 by (auto simp: image_Un)
  moreover have "tables_kept S (\<lambda>q. q \<noteq> c) d d''"
    using assms tables_kept_trans [of S "\<lambda>q. q \<noteq> c" d d' d''] by (simp add: log_extended_def)
  ultimately show ?thesis using 1(1) unfolding log_extended_def by blast
qed

lemma log_extended_after:
  "own_file S c \<Longrightarrow> tables_kept S (\<lambda>_. True) d d' \<Longrightarrow> log_extended S c d' ds d'' \<Longrightarrow> log_extended S c d ds d''"
  by (auto simp: log_extended_def tables_kept_def)

text \<open>One request on every branch.\<close>

lemma record_events_poisoned:
  "connection_poisoned w \<Longrightarrow> record_events S self descr w = (Inl (Panicked UnwrapErr), w)"
  by (simp add: record_events_def with_connection_def prog_simps)

lemma record_events_cases:
  assumes "sqlite_laws S" and "own_file S (database_connection self)" and "\<not> connection_poisoned w"
    and "rtevents S (database_connection self) (database w) \<noteq> None"
    and "record_events S self descr w = (r, u)"
  obtains (acked) "r = Inr (Inr ''ack'')" "\<not> connection_poisoned u" "disk u = disk w"
      "log_extended S (database_connection self) (database w) [descr] (database u)"
  | (failed) "r = Inl (Panicked UnwrapErr)" "connection_poisoned u" "disk u = disk w"
      "log_extended S (database_connection self) (database w) [] (database u)"
proof -
  let ?c = "database_connection self"
  obtain x d where x: "conn_execute S ?c INSERT_RTEVENT [descr] (database w) = (x, d)" by fastforce
  note law = sqlite_insert [OF assms(1,2) x]
  show ?thesis
  proof (cases x)
    case (Inl e)
    then have "r = Inl (Panicked UnwrapErr)" "u = w\<lparr>database := d, connection_poisoned := True\<rparr>"
      using assms(3,5) x by (simp_all add: record_events_def with_connection_def on_database_def prog_simps)
    moreover have "log_extended S ?c (database w) [] d"
      using law(1,2) Inl assms(4) by (auto simp: log_extended_def)
    ultimately show ?thesis using failed by simp
  next
    case (Inr n)
    then have "r = Inr (Inr ''ack'')" "u = w\<lparr>database := d\<rparr>"
      using assms(3,5) x by (simp_all add: record_events_def with_connection_def on_database_def prog_simps)
    moreover have "log_extended S ?c (database w) [descr] d"
    proof -
      obtain rows i where "rtevents S ?c (database w) = Some rows" "i \<notin> fst ` set rows"
        "rtevents S ?c d = Some (rows @ [(i, Some descr)])" using law(2) Inr by auto
      moreover have "fst ` set rows \<inter> fst ` set [(i, Some descr)] = {}" using calculation(2) by simp
      ultimately show ?thesis using law(1) unfolding log_extended_def
        by (intro conjI exI [of _ rows] exI [of _ "[(i, Some descr)]"]) simp_all
    qed
    ultimately show ?thesis using acked assms(3) by simp
  qed
qed

text \<open>A query of another connection goes on undisturbed.\<close>

lemma record_events_query:
  assumes "sqlite_laws S" and "own_file S (database_connection self)" and "own_file S q"
    and "record_events S self descr w = (r, u)"
    and "to_read S s (database w) = Some (q, xs)" and "q \<noteq> database_connection self"
  shows "to_read S s (database u) = Some (q, xs)"
proof (cases "connection_poisoned w")
  case True
  with assms(4,5) show ?thesis by (simp add: record_events_poisoned)
next
  case False
  obtain x d where x: "conn_execute S (database_connection self) INSERT_RTEVENT [descr] (database w) = (x, d)"
    by fastforce
  with assms(4) False have "database u = d"
    by (cases x) (auto simp: record_events_def with_connection_def on_database_def prog_simps)
  with sqlite_insert(3) [OF assms(1,2) x assms(3,5,6)] show ?thesis by simp
qed

lemma log_extended_table: "log_extended S c d ds d' \<Longrightarrow> rtevents S c d' \<noteq> None"
  by (auto simp: log_extended_def)

section \<open>What was served\<close>

text \<open>The requests that were handled, with their responses, and the one that was cut off.\<close>

fun handled_of :: "happening \<Rightarrow> (string \<times> (unit + string) result) list" where
  "handled_of (Handled descr r) = [(descr, r)]"
| "handled_of _ = []"

fun unanswered_of :: "happening \<Rightarrow> string list" where
  "unanswered_of (Killed (Some descr)) = [descr]"
| "unanswered_of _ = []"

definition requests :: "happening list \<Rightarrow> string list" where
  "requests hs = map fst (concat (map handled_of hs))"

definition responses :: "happening list \<Rightarrow> (unit + string) result list" where
  "responses hs = map snd (concat (map handled_of hs))"

definition unanswered :: "happening list \<Rightarrow> string list" where
  "unanswered hs = concat (map unanswered_of hs)"

lemma served_simps [simp]:
  "requests [] = []" "responses [] = []" "unanswered [] = []"
  "requests (Accepted conn # hs) = requests hs" "responses (Accepted conn # hs) = responses hs"
  "unanswered (Accepted conn # hs) = unanswered hs"
  "requests (Handled descr r # hs) = descr # requests hs" "responses (Handled descr r # hs) = r # responses hs"
  "unanswered (Handled descr r # hs) = unanswered hs"
  "requests (Killed x # hs) = requests hs" "responses (Killed x # hs) = responses hs"
  "unanswered (Killed None # hs) = unanswered hs" "unanswered (Killed (Some descr) # hs) = descr # unanswered hs"
  by (simp_all add: requests_def responses_def unanswered_def)

text \<open>
  The abstract recorder: a number of requests is acknowledged and logged, and from the first
  that fails on, none is; what is cut off is in the log as well, without an answer.
\<close>

definition served_upto :: "'d sqlite \<Rightarrow> path \<Rightarrow> happening list \<Rightarrow> nat \<Rightarrow> 'd daemon_world \<Rightarrow> 'd daemon_world \<Rightarrow> bool" where
  "served_upto S c hs k w u \<longleftrightarrow>
     k \<le> length (requests hs) \<and>
     responses hs = replicate k (Inr (Inr ''ack'')) @
       replicate (length (requests hs) - k) (Inl (Panicked UnwrapErr)) \<and>
     log_extended S c (database w) (take k (requests hs) @ unanswered hs) (database u) \<and>
     length (unanswered hs) \<le> 1 \<and> (unanswered hs \<noteq> [] \<longrightarrow> k = length (requests hs))"

lemma serves_gone: "runs (serves S self) (Gone, w) hs t \<Longrightarrow> hs = [] \<and> t = (Gone, w)"
  by (cases hs) (auto simp: runs_Cons_iff elim: serves.cases)

lemma serves_poisoned:
  assumes "connection_poisoned w" and "runs (serves S self) (m, w) hs (m', u)"
  shows "responses hs = replicate (length (requests hs)) (Inl (Panicked UnwrapErr)) \<and> unanswered hs = [] \<and>
    database u = database w"
  using assms
proof (induction hs arbitrary: m w)
  case (Cons h hs)
  then obtain n v where step: "serves S self (m, w) h (n, v)" and rest: "runs (serves S self) (n, v) hs (m', u)"
    by (auto simp: runs_Cons_iff)
  from step have "database v = database w \<and> connection_poisoned v \<and> unanswered [h] = [] \<and>
      responses [h] = replicate (length (requests [h])) (Inl (Panicked UnwrapErr))"
    using Cons.prems(1) by cases (auto simp: prog_simps record_events_poisoned split: sum.splits)
  moreover from this Cons.IH [OF _ rest] have "responses hs = replicate (length (requests hs)) (Inl (Panicked UnwrapErr)) \<and>
      unanswered hs = [] \<and> database u = database v" by blast
  ultimately show ?case by (cases h rule: handled_of.cases; cases h rule: unanswered_of.cases) auto
qed simp

lemma serves_upto:
  assumes "sqlite_laws S" and "own_file S (database_connection self)"
  shows "\<not> connection_poisoned w \<Longrightarrow> rtevents S (database_connection self) (database w) \<noteq> None \<Longrightarrow>
    runs (serves S self) (m, w) hs (m', u) \<Longrightarrow> \<exists>k. served_upto S (database_connection self) hs k w u"
proof (induction hs arbitrary: m w)
  case Nil
  then have "served_upto S (database_connection self) [] 0 w u"
    by (simp add: served_upto_def log_extended_refl)
  then show ?case ..
next
  case (Cons h hs)
  let ?c = "database_connection self"
  from Cons.prems(3) obtain n v where step: "serves S self (m, w) h (n, v)"
    and rest: "runs (serves S self) (n, v) hs (m', u)" by (auto simp: runs_Cons_iff)
  from step show ?case
  proof cases
    case (accepted conn)
    then have "v = w" by (auto simp: prog_simps split: sum.splits)
    with Cons.IH [OF Cons.prems(1,2)] rest accepted show ?thesis by (auto simp: served_upto_def)
  next
    case (not_accepted conn e)
    then have "v = w" by (auto simp: prog_simps split: sum.splits)
    with Cons.IH [OF Cons.prems(1,2)] rest not_accepted show ?thesis by (auto simp: served_upto_def)
  next
    case (handled descr r)
    show ?thesis
    proof (rule record_events_cases [OF assms Cons.prems(1,2) handled(4)], goal_cases acked failed)
      case acked
      from Cons.IH [OF acked(2) log_extended_table [OF acked(4)] rest] obtain k where
        k: "served_upto S ?c hs k v u" ..
      then have "log_extended S ?c (database w) ([descr] @ (take k (requests hs) @ unanswered hs)) (database u)"
        using log_extended_trans [OF acked(4)] by (simp add: served_upto_def)
      with k acked(1) handled(1) have "served_upto S ?c (h # hs) (Suc k) w u" by (auto simp: served_upto_def)
      then show ?thesis ..
    next
      case failed
      from serves_poisoned [OF failed(2) rest] failed handled(1) have "served_upto S ?c (h # hs) 0 w u"
        by (simp add: served_upto_def)
      then show ?thesis ..
    qed
  next
    case killed
    with rest serves_gone [of S self v hs "(m', u)"] Cons.prems(2) have "served_upto S ?c (h # hs) 0 w u"
      by (simp add: served_upto_def log_extended_refl)
    then show ?thesis ..
  next
    case (cut_off descr x)
    show ?thesis
    proof (rule record_events_cases [OF assms Cons.prems(1,2) cut_off(4)], goal_cases acked failed)
      case acked
      with cut_off rest serves_gone [of S self v hs "(m', u)"] have "served_upto S ?c (h # hs) 0 w u"
        by (simp add: served_upto_def)
      then show ?thesis ..
    next
      case failed
      then show ?thesis by simp
    qed
  qed
qed


section \<open>Starting\<close>

lemma recorder_new_cases:
  assumes "sqlite_laws S" and "own_file S db" and "SqliteRecorder_new S db w = (r, u)"
  obtains (made) "r = Inr (Inr \<lparr>database_connection = db\<rparr>)" "rtevents S db (database w) = None"
      "rtevents S db (database u) = Some []" "\<not> connection_poisoned u"
      "tables_kept S (\<lambda>q. q \<noteq> db) (database w) (database u)"
  | (refused) "r = Inr (Inl ())" "tables_kept S (\<lambda>_. True) (database w) (database u)"
proof -
  obtain x d where x: "conn_open S db (database w) = (x, d)" by fastforce
  note opened = sqlite_open [OF assms(1) x]
  show ?thesis
  proof (cases x)
    case (Inl e)
    with x assms(3) opened(1) refused show ?thesis
      by (auto simp: SqliteRecorder_new_def on_database_def prog_simps)
  next
    case (Inr c)
    then have c: "x = Inr db" using opened(2) by simp
    obtain y d' where y: "conn_execute S db CREATE_RTEVENTS [] d = (y, d')" by fastforce
    have run: "(r, u) = (case y of Inl e \<Rightarrow> (Inr (Inl e), w\<lparr>database := d'\<rparr>)
      | Inr _ \<Rightarrow> (Inr (Inr \<lparr>database_connection = db\<rparr>), w\<lparr>database := d', connection_poisoned := False\<rparr>))"
      using assms(3) x y c by (auto simp: SqliteRecorder_new_def on_database_def prog_simps split: sum.splits)
    note created = sqlite_create [OF assms(1,2) y]
    have others: "tables_kept S (\<lambda>q. q \<noteq> db) (database w) d'"
      using tables_kept_trans [OF tables_kept_less [OF opened(1)] created(1)] by simp
    have table: "rtevents S db d = rtevents S db (database w)" using tables_keptD [OF opened(1) assms(2)] by simp
    show ?thesis
    proof (cases y)
      case (Inl e)
      with created(2) table have "rtevents S db d' = rtevents S db (database w)" by simp
      with Inl run refused tables_kept_all [OF others] show ?thesis by simp
    next
      case (Inr n)
      with created(2) table others run made show ?thesis by simp
    qed
  qed
qed

definition may_bind :: "(path \<Rightarrow> (fsys, io_error + unit) prog) \<Rightarrow> bool" where
  "may_bind uds_bind \<longleftrightarrow> (\<forall>p f. \<exists>r g. uds_bind p f = (Inr r, g))"

text \<open>The directory and the socket come first, and leave the database alone.\<close>

definition socket_ready ::
  "(path \<Rightarrow> (fsys, io_error + unit) prog) \<Rightarrow> path \<Rightarrow> ('d daemon_world, unit) prog" where
  "socket_ready uds_bind socket =
     bnd (expect UnwrapNone (path_parent socket)) (\<lambda>dir.
     bnd (zoom disk disk_update (create_dir_all dir)) (\<lambda>created.
     bnd (unwrap_ok created) (\<lambda>_.
     bnd (zoom disk disk_update (uds_bind socket)) unwrap_ok)))"

lemma record_from_uds_eq:
  "record_pj_rt_events_from_uds S uds_bind socket db =
     bnd (socket_ready uds_bind socket) (\<lambda>_. bnd (SqliteRecorder_new S db) unwrap_ok)"
  by (simp add: record_pj_rt_events_from_uds_def socket_ready_def bnd_assoc)

lemma make_dir_returns: "\<exists>r g. make_dir p f = (Inr r, g)"
  by (auto simp: make_dir_def outcome_def prog_simps split: list.split io_outcome.split prod.split sum.split)

lemma create_dir_all_returns: "\<exists>r g. create_dir_all p f = (Inr r, g)"
proof -
  have "\<exists>r g. make_dirs ps f = (Inr r, g)" for ps
  proof (induction ps arbitrary: f)
    case (Cons q ps)
    obtain r g where r: "make_dir q f = (Inr r, g)" using make_dir_returns by blast
    with Cons show ?case by (cases r) (simp_all add: trying_def ret_def)
  qed (simp add: ret_def)
  then show ?thesis by (simp add: create_dir_all_def)
qed

lemma socket_ready_cases:
  assumes "may_bind uds_bind" and "socket_ready uds_bind socket w = (r, u)"
  shows "(r = Inr () \<and> path_parent socket \<noteq> None \<or>
      r = Inl (Panicked (if path_parent socket = None then UnwrapNone else UnwrapErr))) \<and>
    database u = database w \<and> connection_poisoned u = connection_poisoned w"
proof (cases "path_parent socket")
  case None
  with assms(2) show ?thesis by (auto simp: socket_ready_def prog_simps)
next
  case (Some dir)
  obtain x g where x: "create_dir_all dir (disk w) = (Inr x, g)" using create_dir_all_returns by blast
  obtain y h where y: "uds_bind socket g = (Inr y, h)"
    using assms(1) unfolding may_bind_def by blast
  from assms(2) Some x y show ?thesis
    by (cases x; cases y) (auto simp: socket_ready_def prog_simps)
qed

lemma daemon_started:
  assumes "sqlite_laws S" and "may_bind uds_bind" and "own_file S db"
    and "record_pj_rt_events_from_uds S uds_bind socket db w = (Inr recorder, v)"
  shows "recorder = \<lparr>database_connection = db\<rparr> \<and> rtevents S db (database w) = None \<and>
    rtevents S db (database v) = Some [] \<and> \<not> connection_poisoned v \<and>
    tables_kept S (\<lambda>q. q \<noteq> db) (database w) (database v)"
proof -
  obtain r1 w1 where w1: "socket_ready uds_bind socket w = (r1, w1)" by fastforce
  obtain r2 w2 where w2: "SqliteRecorder_new S db w1 = (r2, w2)" by fastforce
  note run = assms(4) [unfolded record_from_uds_eq]
  from socket_ready_cases [OF assms(2) w1] run w1 have ready: "r1 = Inr ()" "database w1 = database w"
    by (auto simp: bnd_run_fault)
  show ?thesis
  proof (rule recorder_new_cases [OF assms(1,3) w2], goal_cases made refused)
    case made
    with run w1 w2 ready show ?case by (simp add: unwrap_ok_def ret_def)
  next
    case refused
    with run w1 w2 ready(1) show ?case by (simp add: unwrap_ok_def throw_def)
  qed
qed

lemma daemon_with_table:
  assumes "sqlite_laws S" and "may_bind uds_bind" and "own_file S db"
    and "rtevents S db (database w) \<noteq> None"
    and "record_pj_rt_events_from_uds S uds_bind socket db w = (r, u)"
  shows "r = Inl (Panicked (if path_parent socket = None then UnwrapNone else UnwrapErr)) \<and>
    tables_kept S (\<lambda>_. True) (database w) (database u)"
proof -
  obtain r1 w1 where w1: "socket_ready uds_bind socket w = (r1, w1)" by fastforce
  obtain r2 w2 where w2: "SqliteRecorder_new S db w1 = (r2, w2)" by fastforce
  note run = assms(5) [unfolded record_from_uds_eq]
  note ready = socket_ready_cases [OF assms(2) w1]
  show ?thesis
  proof (cases r1)
    case (Inl e)
    with ready run w1 show ?thesis by auto
  next
    case (Inr x)
    show ?thesis
    proof (rule recorder_new_cases [OF assms(1,3) w2], goal_cases made refused)
      case made
      with ready assms(4) show ?case by simp
    next
      case refused
      with run w1 w2 Inr ready show ?case by (auto simp: unwrap_ok_def throw_def)
    qed
  qed
qed


section \<open>Properties\<close>


text \<open>
  A database that keeps the tables of its files; one opened as \<^verbatim>\<open>:memory:\<close> is new each time.
  And a socket that binds once.
\<close>

record memory_db =
  tables :: "path \<Rightarrow> rtevents_row list option"
  queries :: "(connection \<times> string option list) list"

definition reference_sqlite :: "memory_db sqlite" where
  "reference_sqlite =
     \<lparr>conn_open = (\<lambda>p d. (Inr p,
        if p = [Normal '':memory:''] then d\<lparr>tables := (tables d)(p := None)\<rparr> else d)),
      conn_execute = (\<lambda>c sql params d.
        if sql = CREATE_RTEVENTS then
          (if tables d c = None then (Inr 0, d\<lparr>tables := (tables d)(c := Some [])\<rparr>) else (Inl (), d))
        else (case (tables d c, params) of
            (Some rows, [descr]) \<Rightarrow>
              if length rows \<in> fst ` set rows then (Inl (), d)
              else (Inr 1, d\<lparr>tables := (tables d)(c := Some (rows @ [(length rows, Some descr)]))\<rparr>)
          | _ \<Rightarrow> (Inl (), d))),
      conn_prepare = (\<lambda>c sql d. case tables d c of
          None \<Rightarrow> (Inl (), d)
        | Some rows \<Rightarrow> (Inr (length (queries d)), d\<lparr>queries := queries d @ [(c, map snd rows)]\<rparr>)),
      stmt_query = (\<lambda>s d. (Inr (), d)),
      stmt_step = (\<lambda>s d. if s < length (queries d) then
          (case queries d ! s of
             (c, []) \<Rightarrow> (Inr None, d)
           | (c, x # xs) \<Rightarrow> (Inr (Some x), d\<lparr>queries := (queries d)[s := (c, xs)]\<rparr>))
        else (Inl (), d)),
      own_file = (\<lambda>p. p \<noteq> [] \<and> p \<noteq> [Normal '':memory:'']),
      rtevents = (\<lambda>p d. tables d p),
      to_read = (\<lambda>s d. if s < length (queries d) then Some (queries d ! s) else None)\<rparr>"

definition reference_bind :: "path \<Rightarrow> (fsys, io_error + unit) prog" where
  "reference_bind p = (\<lambda>f.
     if nodes f p = None then (Inr (Inr ()), f\<lparr>nodes := (nodes f)(p \<mapsto> File [])\<rparr>)
     else (Inr (Inl AlreadyExists), f))"

lemma reference_sqlite_laws: "sqlite_laws reference_sqlite"
proof -
  have "open_law reference_sqlite" by (simp add: open_law_def tables_kept_def reference_sqlite_def)
  moreover have "create_law reference_sqlite"
    by (simp add: create_law_def tables_kept_def reference_sqlite_def)
  moreover have "insert_law reference_sqlite"
    by (auto simp: insert_law_def tables_kept_def reference_sqlite_def CREATE_RTEVENTS_def INSERT_RTEVENT_def
        split: option.splits)
  moreover have "select_law reference_sqlite"
    by (auto simp: select_law_def tables_kept_def reference_sqlite_def
        split: option.splits list.splits if_splits prod.splits)
  ultimately show ?thesis by (simp add: sqlite_laws_def)
qed

lemma reference_bind_may: "may_bind reference_bind"
  by (simp add: may_bind_def reference_bind_def)

definition sample_opts :: Opts where
  "sample_opts = \<lparr>opt_database = ''log.db'', opt_socket = ''run/pj.sock''\<rparr>"

definition memory :: "(path \<Rightarrow> rtevents_row list option) \<Rightarrow> memory_db" where
  "memory t = \<lparr>tables = t, queries = []\<rparr>"

lemma memory_simps [simp]: "tables (memory t) = t" "queries (memory t) = []"
  "memory t\<lparr>tables := t'\<rparr> = memory t'"
  by (simp_all add: memory_def)

definition fresh_daemon :: "memory_db daemon_world" where
  "fresh_daemon = \<lparr>database = memory (\<lambda>_. None), disk = \<lparr>nodes = Map.empty, plan = []\<rparr>, connection_poisoned = False\<rparr>"

definition sample_log :: "rtevents_row list" where
  "sample_log = [(0, Some ''enter''), (1, Some ''exit'')]"

lemma sample_paths:
  "components (opt_database sample_opts) = [Normal ''log.db'']"
  "components (opt_socket sample_opts) = [Normal ''run'', Normal ''pj.sock'']"
  by (simp_all add: sample_opts_def components_def segment_def)

lemma sample_own_file: "own_file reference_sqlite (components (opt_database sample_opts))"
  by (simp add: reference_sqlite_def sample_paths)

text \<open>
  Two requests are answered, the second after the root task has panicked, and a third is cut
  off.
\<close>

definition sample_happenings :: "happening list" where
  "sample_happenings = [Accepted (Inr ()), Handled ''enter'' (Inr (Inr ''ack'')), Accepted (Inl Other),
     Handled ''exit'' (Inr (Inr ''ack'')), Killed (Some ''late'')]"

lemma sample_daemon_start:
  "\<exists>v. daemon_main reference_sqlite reference_bind sample_opts fresh_daemon =
     (Inr \<lparr>database_connection = [Normal ''log.db'']\<rparr>, v) \<and>
   v = fresh_daemon\<lparr>database := memory ((\<lambda>_. None)([Normal ''log.db''] := Some [])), disk := disk v\<rparr>"
proof -
  let ?w = "fresh_daemon\<lparr>disk := \<lparr>nodes = [[Normal ''run''] \<mapsto> Dir,
      [Normal ''run'', Normal ''pj.sock''] \<mapsto> File []], plan = []\<rparr>\<rparr>"
  let ?db = "[Normal ''log.db'']"
  have "socket_ready reference_bind [Normal ''run'', Normal ''pj.sock''] fresh_daemon = (Inr (), ?w)"
    by (simp add: socket_ready_def path_parent_def create_dir_all_def make_dir_def outcome_def is_dir_def
        fresh_daemon_def reference_bind_def prog_simps)
  moreover have "SqliteRecorder_new reference_sqlite ?db ?w =
      (Inr (Inr \<lparr>database_connection = ?db\<rparr>), ?w\<lparr>database := memory ((\<lambda>_. None)(?db := Some []))\<rparr>)"
    by (simp add: SqliteRecorder_new_def on_database_def reference_sqlite_def fresh_daemon_def prog_simps)
  ultimately show ?thesis
    by (simp add: daemon_main_def record_from_uds_eq sample_paths unwrap_ok_def prog_simps fresh_daemon_def)
qed

lemma sample_insertion:
  assumes "length rows \<notin> fst ` set rows" and "\<not> connection_poisoned w"
    and "database w = memory ((\<lambda>_. None)([Normal ''log.db''] := Some rows))"
  shows "record_events reference_sqlite \<lparr>database_connection = [Normal ''log.db'']\<rparr> descr w =
    (Inr (Inr ''ack''), w\<lparr>database := memory ((\<lambda>_. None)([Normal ''log.db''] := Some (rows @ [(length rows, Some descr)])))\<rparr>)"
  using assms by (simp add: record_events_def with_connection_def on_database_def reference_sqlite_def
      CREATE_RTEVENTS_def INSERT_RTEVENT_def prog_simps)

lemma sample_daemon_run:
  obtains v u where "daemon_main reference_sqlite reference_bind sample_opts fresh_daemon =
      (Inr \<lparr>database_connection = [Normal ''log.db'']\<rparr>, v)"
    and "runs (serves reference_sqlite \<lparr>database_connection = [Normal ''log.db'']\<rparr>) (Accepting, v)
      sample_happenings (Gone, u)"
proof -
  let ?db = "[Normal ''log.db'']"
  let ?self = "\<lparr>database_connection = ?db\<rparr>"
  obtain v where start: "daemon_main reference_sqlite reference_bind sample_opts fresh_daemon = (Inr ?self, v)"
    "v = fresh_daemon\<lparr>database := memory ((\<lambda>_. None)(?db := Some [])), disk := disk v\<rparr>"
    using sample_daemon_start by blast
  define log where "log rows = v\<lparr>database := memory ((\<lambda>_. None)(?db := Some rows))\<rparr>" for rows
  have v: "v = log []" unfolding log_def by (subst (1 2) start(2)) simp
  have insert: "record_events reference_sqlite ?self descr (log rows) =
      (Inr (Inr ''ack''), log (rows @ [(length rows, Some descr)]))" if "length rows \<notin> fst ` set rows" for rows descr
  proof -
    have "\<not> connection_poisoned (log rows)" unfolding log_def by (subst start(2)) (simp add: fresh_daemon_def)
    from sample_insertion [OF that this] show ?thesis by (simp add: log_def)
  qed
  let ?step = "serves reference_sqlite ?self"
  let ?log1 = "[(0, Some ''enter'')]" and ?log2 = "[(0, Some ''enter''), (1, Some ''exit'')]"
    and ?log3 = "[(0, Some ''enter''), (1, Some ''exit''), (Suc (Suc 0), Some ''late'')]"
  have "?step (Accepting, log []) (Accepted (Inr ())) (Accepting, log [])"
    by (rule accepted) (simp add: unwrap_ok_def ret_def)
  moreover have "?step (Accepting, log []) (Handled ''enter'' (Inr (Inr ''ack''))) (Accepting, log ?log1)"
    by (rule handled) (use insert [of "[]"] in simp_all)
  moreover have "?step (Accepting, log ?log1) (Accepted (Inl Other)) (Panicking (Panicked UnwrapErr), log ?log1)"
    by (rule not_accepted) (simp add: unwrap_ok_def throw_def)
  moreover have "?step (Panicking (Panicked UnwrapErr), log ?log1) (Handled ''exit'' (Inr (Inr ''ack'')))
      (Panicking (Panicked UnwrapErr), log ?log2)"
    by (rule handled) (use insert [of ?log1] in simp_all)
  moreover have "?step (Panicking (Panicked UnwrapErr), log ?log2) (Killed (Some ''late'')) (Gone, log ?log3)"
    by (rule cut_off [where x = "Inr ''ack''"]) (use insert [of ?log2] in simp_all)
  ultimately have "runs ?step (Accepting, v) sample_happenings (Gone, log ?log3)"
    unfolding sample_happenings_def v by (blast intro: runs.intros)
  with start(1) show thesis by (rule that)
qed


text \<open>
  C26. A database file can be served once. Once a daemon has started on it, and whatever has
  happened to that one since, every later start on a database that still has the table panics,
  whatever socket it is given and whatever has become of the files meanwhile, and no table of
  any file changes.
\<close>

theorem daemon_serves_once:
  assumes "sqlite_laws S" and "may_bind uds_bind" and "own_file S (components (opt_database opts))"
    and "daemon_main S uds_bind opts w = (Inr recorder, v)"
    and "runs (serves S recorder) (Accepting, v) hs (m, u)"
    and "opt_database opts' = opt_database opts"
    and "\<forall>q. own_file S q \<longrightarrow> rtevents S q (database w') = rtevents S q (database u)"
    and "daemon_main S uds_bind opts' w' = (r, u')"
  shows "r = Inl (Panicked (if path_parent (components (opt_socket opts')) = None then UnwrapNone else UnwrapErr)) \<and>
    (\<forall>q. own_file S q \<longrightarrow> rtevents S q (database u') = rtevents S q (database u))"
proof -
  let ?db = "components (opt_database opts)"
  from daemon_started [OF assms(1-3) assms(4) [unfolded daemon_main_def]] have v:
    "recorder = \<lparr>database_connection = ?db\<rparr>" "rtevents S ?db (database v) = Some []"
    "\<not> connection_poisoned v" by simp_all
  from serves_upto [OF assms(1) _ v(3) _ assms(5)] v(1,2) assms(3)
  have "rtevents S ?db (database u) \<noteq> None" by (auto simp: served_upto_def dest: log_extended_table)
  then have "rtevents S ?db (database w') \<noteq> None" using assms(3,7) by simp
  from daemon_with_table [OF assms(1-3) this] assms(6,8)
  have "r = Inl (Panicked (if path_parent (components (opt_socket opts')) = None then UnwrapNone else UnwrapErr))"
    "tables_kept S (\<lambda>_. True) (database w') (database u')" unfolding daemon_main_def by simp_all
  with assms(7) show ?thesis by (simp add: tables_kept_def)
qed

theorem daemon_serves_once_witness:
  "\<exists>v u u'. daemon_main reference_sqlite reference_bind sample_opts fresh_daemon =
       (Inr \<lparr>database_connection = [Normal ''log.db'']\<rparr>, v) \<and>
     runs (serves reference_sqlite \<lparr>database_connection = [Normal ''log.db'']\<rparr>) (Accepting, v)
       sample_happenings (Gone, u) \<and>
     daemon_main reference_sqlite reference_bind sample_opts (fresh_daemon\<lparr>database := database u\<rparr>) =
       (Inl (Panicked UnwrapErr), u')"
proof -
  obtain v u where run: "daemon_main reference_sqlite reference_bind sample_opts fresh_daemon =
      (Inr \<lparr>database_connection = [Normal ''log.db'']\<rparr>, v)"
    "runs (serves reference_sqlite \<lparr>database_connection = [Normal ''log.db'']\<rparr>) (Accepting, v)
      sample_happenings (Gone, u)" by (rule sample_daemon_run)
  obtain r u' where again: "daemon_main reference_sqlite reference_bind sample_opts
      (fresh_daemon\<lparr>database := database u\<rparr>) = (r, u')" by fastforce
  have "\<forall>q. own_file reference_sqlite q \<longrightarrow>
    rtevents reference_sqlite q (database (fresh_daemon\<lparr>database := database u\<rparr>)) =
    rtevents reference_sqlite q (database u)" by simp
  from daemon_serves_once [OF reference_sqlite_laws reference_bind_may sample_own_file run refl this again]
    run again show ?thesis by (auto simp: sample_paths path_parent_def)
qed

end
