(* ===== verification/Replay.thy ===== *)
theory Replay
  imports Daemon
begin

text \<open>
  The client that replays a recorded database against a running daemon,
  \<^verbatim>\<open>phasicj/daemon/tests/sqlite_replay_client/main.rs\<close>: it steps through a query of the
  recorded rows and sends each before it asks for the next.
\<close>

section \<open>The client\<close>

text \<open>A call over the connection: a handler that panicked is an error status to the client.\<close>

definition call_record_events ::
  "'d sqlite \<Rightarrow> SqliteRecorder \<Rightarrow> string \<Rightarrow> ('d daemon_world, unit + string) prog" where
  "call_record_events S server descr = (\<lambda>w.
     case record_events S server descr w of
       (Inl _, u) \<Rightarrow> (Inr (Inl ()), u)
     | (Inr reply, u) \<Rightarrow> (Inr reply, u))"

text \<open>
  The iterator's next item: the end, an error, or a description. A null description cannot
  be read as a string and is an error too.
\<close>

definition next_rtevent :: "'d sqlite \<Rightarrow> statement \<Rightarrow> ('d daemon_world, (unit + string) option) prog" where
  "next_rtevent S stmt =
     bnd (on_database (stmt_step S stmt)) (\<lambda>r. ret
       (case r of
          Inl e \<Rightarrow> Some (Inl e)
        | Inr None \<Rightarrow> None
        | Inr (Some None) \<Rightarrow> Some (Inl ())
        | Inr (Some (Some description)) \<Rightarrow> Some (Inr description)))"

text \<open>The loop over the iterator ends when SQLite says so; a run that does not end is \<open>None\<close>.\<close>

partial_function (option) replay_rows ::
  "'d sqlite \<Rightarrow> SqliteRecorder \<Rightarrow> statement \<Rightarrow> 'd daemon_world \<Rightarrow> ((unit + unit) result \<times> 'd daemon_world) option" where
  "replay_rows S server stmt w =
     (case next_rtevent S stmt w of
        (Inl e, u) \<Rightarrow> Some (Inl e, u)
      | (Inr None, u) \<Rightarrow> Some (Inr (Inr ()), u)
      | (Inr (Some (Inl e)), u) \<Rightarrow> Some (Inr (Inl ()), u)
      | (Inr (Some (Inr description)), u) \<Rightarrow>
          (case call_record_events S server description u of
             (Inl e, v) \<Rightarrow> Some (Inl e, v)
           | (Inr (Inl e), v) \<Rightarrow> Some (Inr (Inl ()), v)
           | (Inr (Inr reply), v) \<Rightarrow> replay_rows S server stmt v))"

text \<open>What comes before the loop; \<open>connected\<close> is whether the client reaches the daemon's socket.\<close>

definition replay_prepare ::
  "'d sqlite \<Rightarrow> Opts \<Rightarrow> unit + unit \<Rightarrow> ('d daemon_world, unit + statement) prog" where
  "replay_prepare S opts connected =
     trying (on_database (conn_open S (components (opt_database opts)))) (\<lambda>db_conn.
     trying (on_database (conn_prepare S db_conn SELECT_DESCRIPTIONS)) (\<lambda>stmt.
     trying (on_database (stmt_query S stmt)) (\<lambda>_.
     trying (ret connected) (\<lambda>_.
     ret (Inr stmt)))))"

definition replay_main ::
  "'d sqlite \<Rightarrow> SqliteRecorder \<Rightarrow> Opts \<Rightarrow> unit + unit \<Rightarrow> 'd daemon_world \<Rightarrow>
   ((unit + unit) result \<times> 'd daemon_world) option" where
  "replay_main S server opts connected w =
     (case replay_prepare S opts connected w of
        (Inl e, u) \<Rightarrow> Some (Inl e, u)
      | (Inr (Inl e), u) \<Rightarrow> Some (Inr (Inl e), u)
      | (Inr (Inr stmt), u) \<Rightarrow> replay_rows S server stmt u)"

section \<open>Its steps\<close>

text \<open>A client that still has the descriptions \<open>xs\<close> of the database \<open>src\<close> to send.\<close>

definition replaying :: "'d sqlite \<Rightarrow> statement \<Rightarrow> path \<Rightarrow> string option list \<Rightarrow> 'd daemon_world \<Rightarrow> bool" where
  "replaying S stmt src xs w \<longleftrightarrow> to_read S stmt (database w) = Some (src, xs)"

lemma next_rtevent_cases:
  assumes "sqlite_laws S" and "replaying S stmt src xs w"
  obtains (fails) u where "next_rtevent S stmt w = (Inr (Some (Inl ())), u)"
      "connection_poisoned u = connection_poisoned w" "tables_kept S (\<lambda>_. True) (database w) (database u)"
  | (ends) u where "next_rtevent S stmt w = (Inr None, u)" "xs = []"
      "connection_poisoned u = connection_poisoned w" "tables_kept S (\<lambda>_. True) (database w) (database u)"
  | (gives) x ys u where "next_rtevent S stmt w = (Inr (Some (Inr x)), u)" "xs = Some x # ys"
      "replaying S stmt src ys u"
      "connection_poisoned u = connection_poisoned w" "tables_kept S (\<lambda>_. True) (database w) (database u)"
proof -
  obtain r d where r: "stmt_step S stmt (database w) = (r, d)" by fastforce
  let ?u = "w\<lparr>database := d\<rparr>"
  from assms(1) r have same: "tables_kept S (\<lambda>_. True) (database w) (database ?u)"
    by (simp add: sqlite_laws_def select_law_def)
  from assms r have step: "r = Inr row \<Longrightarrow>
      (case xs of [] \<Rightarrow> row = None | x # ys \<Rightarrow> row = Some x \<and> replaying S stmt src ys ?u)" for row
    unfolding sqlite_laws_def select_law_def replaying_def by (cases xs) fastforce+
  have run: "next_rtevent S stmt w = (Inr (case r of Inl e \<Rightarrow> Some (Inl e) | Inr None \<Rightarrow> None
      | Inr (Some None) \<Rightarrow> Some (Inl ()) | Inr (Some (Some d)) \<Rightarrow> Some (Inr d)), ?u)"
    using r by (simp add: next_rtevent_def on_database_def prog_simps)
  show thesis
  proof (cases r)
    case (Inl e)
    with run same show thesis by (intro that(1) [of ?u]) simp_all
  next
    case (Inr row)
    note stepped = step [OF this]
    show thesis
    proof (cases xs)
      case Nil
      with Inr run same stepped show thesis by (intro that(2) [of ?u]) simp_all
    next
      case (Cons y ys)
      with stepped have row: "row = Some y" "replaying S stmt src ys ?u" by simp_all
      show thesis
      proof (cases y)
        case None
        with Inr run same row show thesis by (intro that(1) [of ?u]) simp_all
      next
        case (Some x)
        with Inr run same row Cons show thesis by (intro that(3) [of x ?u ys]) simp_all
      qed
    qed
  qed
qed

lemma call_record_events_returns:
  obtains r u where "call_record_events S server descr w = (Inr r, u)"
  by (cases "record_events S server descr w"; cases "fst (record_events S server descr w)")
     (auto simp: call_record_events_def)

lemma call_record_events_query:
  assumes "sqlite_laws S" and "own_file S (database_connection server)" and "own_file S src"
    and "call_record_events S server descr w = (r, u)"
    and "replaying S stmt src xs w" and "src \<noteq> database_connection server"
  shows "replaying S stmt src xs u"
proof -
  obtain x v where v: "record_events S server descr w = (x, v)" by fastforce
  with assms(4) have "v = u" by (cases x) (auto simp: call_record_events_def)
  with record_events_query [OF assms(1-3) v] assms(5,6) show ?thesis by (simp add: replaying_def)
qed

lemma call_record_events_cases:
  assumes "sqlite_laws S" and "own_file S (database_connection server)"
    and "rtevents S (database_connection server) (database w) \<noteq> None"
  obtains (acked) reply u where "call_record_events S server descr w = (Inr (Inr reply), u)"
      "log_extended S (database_connection server) (database w) [descr] (database u)"
  | (failed) u where "call_record_events S server descr w = (Inr (Inl ()), u)"
      "log_extended S (database_connection server) (database w) [] (database u)"
proof (cases "connection_poisoned w")
  case True
  with assms(3) show thesis
    by (intro failed [of w]) (simp_all add: call_record_events_def record_events_poisoned log_extended_refl)
next
  case False
  obtain r u where r: "record_events S server descr w = (r, u)" by fastforce
  show thesis
    by (rule record_events_cases [OF assms(1,2) False assms(3) r])
      (use r that in \<open>auto simp: call_record_events_def\<close>)
qed

text \<open>
  The loop ends, and the daemon's log has got the descriptions sent, in order, which are all
  of them where the loop succeeds.
\<close>

definition sent :: "'d sqlite \<Rightarrow> path \<Rightarrow> 'd daemon_world \<Rightarrow> string option list \<Rightarrow> (unit + unit) result \<Rightarrow> 'd daemon_world \<Rightarrow> bool" where
  "sent S c w xs r u \<longleftrightarrow>
     (\<exists>ds ys. xs = map Some ds @ ys \<and> log_extended S c (database w) ds (database u) \<and>
        (r = Inr (Inr ()) \<longrightarrow> ys = []))"

lemma sent_more:
  assumes "log_extended S c (database w) [x] (database v)" and "sent S c v ys r u"
  shows "sent S c w (Some x # ys) r u"
proof -
  from assms(2) obtain ds zs where "ys = map Some ds @ zs"
    "log_extended S c (database v) ds (database u)" "r = Inr (Inr ()) \<longrightarrow> zs = []" by (auto simp: sent_def)
  with log_extended_trans [OF assms(1)] show ?thesis
    unfolding sent_def by (intro exI [of _ "x # ds"] exI [of _ zs]) simp
qed

lemma sent_after:
  assumes "own_file S c" and "tables_kept S (\<lambda>_. True) (database w) (database v)" and "sent S c v xs r u"
  shows "sent S c w xs r u"
proof -
  from assms(3) obtain ds ys where "xs = map Some ds @ ys" "log_extended S c (database v) ds (database u)"
    "r = Inr (Inr ()) \<longrightarrow> ys = []" by (auto simp: sent_def)
  with log_extended_after [OF assms(1,2)] show ?thesis unfolding sent_def by (intro exI [of _ ds] exI [of _ ys]) simp
qed

lemma sent_none: "log_extended S c (database w) [] (database u) \<Longrightarrow> (r = Inr (Inr ()) \<Longrightarrow> xs = []) \<Longrightarrow> sent S c w xs r u"
  unfolding sent_def by (intro exI [of _ "[]"] exI [of _ xs]) simp

lemma replay_rows_ends:
  assumes "sqlite_laws S" and "own_file S (database_connection server)" and "own_file S src"
    and "src \<noteq> database_connection server"
  shows "replaying S stmt src xs w \<Longrightarrow> rtevents S (database_connection server) (database w) \<noteq> None \<Longrightarrow>
    \<exists>r u. replay_rows S server stmt w = Some (Inr r, u) \<and> sent S (database_connection server) w xs (Inr r) u"
proof (induction xs arbitrary: w)
  case (Cons y ys)
  let ?c = "database_connection server"
  show ?case
  proof (rule next_rtevent_cases [OF assms(1) Cons.prems(1)], goal_cases fails ends gives)
    case (fails u)
    with Cons.prems(2) assms(2) have "log_extended S ?c (database w) [] (database u)" by (simp add: log_extended_kept)
    then have "sent S (database_connection server) w (y # ys) (Inr (Inl ())) u" by (rule sent_none) simp
    with fails show ?case by (intro exI [of _ "Inl ()"] exI [of _ u]) (simp add: replay_rows.simps)
  next
    case (ends u)
    then show ?case by simp
  next
    case (gives x zs u)
    have table: "rtevents S ?c (database u) \<noteq> None" using tables_keptD [OF gives(5) assms(2)] Cons.prems(2) by simp
    show ?case
    proof (rule call_record_events_cases [OF assms(1,2) table, of x], goal_cases acked failed)
      case (acked reply v)
      have "replaying S stmt src ys v"
        using call_record_events_query [OF assms(1-3) acked(1) gives(3) assms(4)] gives(2) by simp
      from Cons.IH [OF this log_extended_table [OF acked(2)]] obtain r t where
        t: "replay_rows S server stmt v = Some (Inr r, t)" "sent S ?c v ys (Inr r) t" by blast
      have "sent S ?c u (y # ys) (Inr r) t" using sent_more [OF acked(2) t(2)] gives(2) by simp
      then have "sent S ?c w (y # ys) (Inr r) t" by (rule sent_after [OF assms(2) gives(5)])
      moreover have "replay_rows S server stmt w = Some (Inr r, t)"
        using gives(1) acked(1) t(1) by (subst replay_rows.simps) simp
      ultimately show ?thesis by blast
    next
      case (failed v)
      have "replay_rows S server stmt w = Some (Inr (Inl ()), v)"
        using gives(1) failed(1) by (subst replay_rows.simps) simp
      moreover have "sent S ?c u (y # ys) (Inr (Inl ())) v" by (rule sent_none [OF failed(2)]) simp
      then have "sent S ?c w (y # ys) (Inr (Inl ())) v" by (rule sent_after [OF assms(2) gives(5)])
      ultimately show ?thesis by blast
    qed
  qed
next
  case Nil
  show ?case
  proof (rule next_rtevent_cases [OF assms(1) Nil(1)], goal_cases fails ends gives)
    case (fails u)
    with Nil(2) assms(2) have "log_extended S (database_connection server) (database w) [] (database u)"
      by (simp add: log_extended_kept)
    then have "sent S (database_connection server) w [] (Inr (Inl ())) u" by (rule sent_none) simp
    with fails show ?case by (intro exI [of _ "Inl ()"] exI [of _ u]) (simp add: replay_rows.simps)
  next
    case (ends u)
    with Nil(2) assms(2) have "log_extended S (database_connection server) (database w) [] (database u)"
      by (simp add: log_extended_kept)
    then have "sent S (database_connection server) w [] (Inr (Inr ())) u" by (rule sent_none) simp
    with ends show ?case by (intro exI [of _ "Inr ()"] exI [of _ u]) (simp add: replay_rows.simps)
  next
    case (gives x ys u)
    then show ?case by simp
  qed
qed

lemma trying_run:
  "m s = (Inr (Inr x), t) \<Longrightarrow> trying m f s = f x t"
  "m s = (Inr (Inl e), t) \<Longrightarrow> trying m f s = (Inr (Inl e), t)"
  by (simp_all add: trying_def bnd_def ret_def)

lemma on_database_run: "f (database w) = (x, d) \<Longrightarrow> on_database f w = (Inr x, w\<lparr>database := d\<rparr>)"
  by (simp add: on_database_def)

lemma select_cases:
  assumes "sqlite_laws S" and "own_file S c"
  obtains (refused) d' where "conn_prepare S c SELECT_DESCRIPTIONS d = (Inl (), d')"
      "tables_kept S (\<lambda>_. True) d d'"
  | (prepared) s d' rows xs where "conn_prepare S c SELECT_DESCRIPTIONS d = (Inr s, d')"
      "tables_kept S (\<lambda>_. True) d d'" "rtevents S c d = Some rows"
      "to_read S s d' = Some (c, xs)" "mset xs = mset (map snd rows)"
proof -
  obtain r d' where r: "conn_prepare S c SELECT_DESCRIPTIONS d = (r, d')" by fastforce
  from assms r have law: "tables_kept S (\<lambda>_. True) d d'" "\<And>s. r = Inr s \<Longrightarrow>
      \<exists>rows xs. rtevents S c d = Some rows \<and> to_read S s d' = Some (c, xs) \<and> mset xs = mset (map snd rows)"
    by (simp_all add: sqlite_laws_def select_law_def)
  show thesis
  proof (cases r)
    case (Inl e)
    with r law(1) show thesis by (intro that(1) [of d']) simp_all
  next
    case (Inr s)
    with law(2) obtain rows xs where "rtevents S c d = Some rows" "to_read S s d' = Some (c, xs)"
      "mset xs = mset (map snd rows)" by blast
    with r Inr law(1) show thesis by (intro that(2) [of s d' rows xs]) simp_all
  qed
qed

lemma query_cases:
  assumes "sqlite_laws S"
  obtains r d' where "stmt_query S s d = (r, d')" "tables_kept S (\<lambda>_. True) d d'"
    "r = Inr () \<Longrightarrow> to_read S s d' = to_read S s d"
proof -
  obtain r d' where r: "stmt_query S s d = (r, d')" by fastforce
  with assms have "tables_kept S (\<lambda>_. True) d d'" "r = Inr () \<longrightarrow> to_read S s d' = to_read S s d"
    unfolding sqlite_laws_def select_law_def by blast+
  with r that show thesis by blast
qed

lemma replay_prepare_cases:
  assumes "sqlite_laws S" and "own_file S (components (opt_database opts))"
  obtains (stops) u where "replay_prepare S opts connected w = (Inr (Inl ()), u)"
      "tables_kept S (\<lambda>_. True) (database w) (database u)"
  | (ready) stmt old xs u where "replay_prepare S opts connected w = (Inr (Inr stmt), u)"
      "tables_kept S (\<lambda>_. True) (database w) (database u)"
      "rtevents S (components (opt_database opts)) (database w) = Some old"
      "mset xs = mset (map snd old)" "replaying S stmt (components (opt_database opts)) xs u"
proof -
  let ?src = "components (opt_database opts)"
  obtain r1 d1 where r1: "conn_open S ?src (database w) = (r1, d1)" by fastforce
  note opened = sqlite_open [OF assms(1) r1]
  show thesis
  proof (cases r1)
    case (Inl e)
    then have "on_database (conn_open S ?src) w = (Inr (Inl ()), w\<lparr>database := d1\<rparr>)"
      using r1 by (simp add: on_database_run)
    with opened(1) show thesis
      by (intro that(1) [of "w\<lparr>database := d1\<rparr>"]) (simp_all add: replay_prepare_def trying_run)
  next
    case (Inr c)
    then have "on_database (conn_open S ?src) w = (Inr (Inr ?src), w\<lparr>database := d1\<rparr>)"
      using r1 opened(2) by (simp add: on_database_run)
    then have run1: "replay_prepare S opts connected w =
        trying (on_database (conn_prepare S ?src SELECT_DESCRIPTIONS)) (\<lambda>stmt.
        trying (on_database (stmt_query S stmt)) (\<lambda>_. trying (ret connected) (\<lambda>_. ret (Inr stmt))))
          (w\<lparr>database := d1\<rparr>)"
      by (simp add: replay_prepare_def trying_run)
    show thesis
    proof (rule select_cases [OF assms, of d1], goal_cases refused prepared)
      case (refused d2)
      with run1 tables_kept_trans [OF opened(1)] show thesis
        by (intro that(1) [of "w\<lparr>database := d2\<rparr>"]) (simp_all add: trying_run on_database_run)
    next
      case (prepared stmt d2 old xs)
      obtain r3 d3 where r3: "stmt_query S stmt d2 = (r3, d3)" "tables_kept S (\<lambda>_. True) d2 d3"
        "r3 = Inr () \<Longrightarrow> to_read S stmt d3 = to_read S stmt d2" by (rule query_cases [OF assms(1), of stmt d2]) blast
      have run: "replay_prepare S opts connected w =
          trying (ret r3) (\<lambda>_. trying (ret connected) (\<lambda>_. ret (Inr stmt))) (w\<lparr>database := d3\<rparr>)"
        using run1 prepared(1) r3(1) by (cases r3) (simp_all add: trying_run on_database_run ret_def)
      have same: "tables_kept S (\<lambda>_. True) (database w) d3"
        using tables_kept_trans [OF tables_kept_trans [OF opened(1) prepared(2)] r3(2)] .
      have table: "rtevents S ?src (database w) = Some old"
        using tables_keptD [OF opened(1) assms(2)] prepared(3) by simp
      show thesis
      proof (cases "r3 = Inr () \<and> connected = Inr ()")
        case True
        then have "replay_prepare S opts connected w = (Inr (Inr stmt), w\<lparr>database := d3\<rparr>)"
          unfolding run by (simp add: trying_run ret_def)
        with True same table prepared(4,5) r3(3) show thesis
          by (intro that(2) [of stmt "w\<lparr>database := d3\<rparr>" old xs]) (simp_all add: replaying_def)
      next
        case False
        then have "replay_prepare S opts connected w = (Inr (Inl ()), w\<lparr>database := d3\<rparr>)"
          unfolding run by (cases r3; cases connected) (simp_all add: trying_run ret_def)
        with same show thesis by (intro that(1) [of "w\<lparr>database := d3\<rparr>"]) simp_all
      qed
    qed
  qed
qed

section \<open>Properties\<close>

text \<open>
  C16. Replaying a recorded database to a daemon ends, whatever SQLite and the daemon answer,
  and copies it: the daemon's table has got, besides what it had, rows with descriptions of
  the database replayed, none of them more often than there, and exactly as often where the
  client succeeds. Nothing else changes in the database of any file, and without a table to
  replay the client fails. The two databases are files, not the same one.
\<close>

theorem replay_copies:
  assumes "sqlite_laws S" and "own_file S db" and "own_file S (components (opt_database opts))"
    and "components (opt_database opts) \<noteq> db" and "rtevents S db (database w) = Some rows"
  shows "\<exists>r u new. replay_main S \<lparr>database_connection = db\<rparr> opts connected w = Some (Inr r, u) \<and>
    rtevents S db (database u) = Some (rows @ new) \<and>
    (\<forall>q. own_file S q \<longrightarrow> q \<noteq> db \<longrightarrow> rtevents S q (database u) = rtevents S q (database w)) \<and>
    (case rtevents S (components (opt_database opts)) (database w) of
       None \<Rightarrow> r = Inl () \<and> new = []
     | Some old \<Rightarrow> mset (map snd new) \<subseteq># mset (map snd old) \<and>
         (r = Inr () \<longrightarrow> mset (map snd new) = mset (map snd old)))"
proof (rule replay_prepare_cases [OF assms(1,3), of connected w], goal_cases stops ready)
  case (stops u)
  with assms(2,5) show ?case
    by (intro exI [of _ "Inl ()"] exI [of _ u] exI [of _ "[]"])
       (simp add: replay_main_def tables_kept_def split: option.split)
next
  case (ready stmt old xs u)
  let ?server = "\<lparr>database_connection = db\<rparr>"
  have "rtevents S (database_connection ?server) (database u) \<noteq> None"
    using tables_keptD [OF ready(2) assms(2)] assms(5) by simp
  from replay_rows_ends [OF assms(1) _ assms(3) _ ready(5) this] assms(2,4) obtain r v where
    v: "replay_rows S ?server stmt u = Some (Inr r, v)" "sent S db u xs (Inr r) v" by auto
  from v(2) obtain ds ys where ds: "xs = map Some ds @ ys" "log_extended S db (database u) ds (database v)"
    "r = Inr () \<longrightarrow> ys = []" by (auto simp: sent_def)
  have "log_extended S db (database w) ds (database v)" by (rule log_extended_after [OF assms(2) ready(2) ds(2)])
  with assms(5) obtain new where new: "rtevents S db (database v) = Some (rows @ new)"
    "map snd new = map Some ds" "tables_kept S (\<lambda>q. q \<noteq> db) (database w) (database v)"
    by (auto simp: log_extended_def)
  have "mset (map snd old) = mset (map snd new) + mset ys" using ready(4) ds(1) new(2) by simp
  then have "mset (map snd new) \<subseteq># mset (map snd old) \<and> (r = Inr () \<longrightarrow> mset (map snd new) = mset (map snd old))"
    using ds(3) by simp
  with ready(1,3) v(1) new show ?case
    by (intro exI [of _ r] exI [of _ v] exI [of _ new]) (simp add: replay_main_def tables_kept_def)
qed

theorem replay_copies_witness:
  "\<exists>u new. replay_main reference_sqlite \<lparr>database_connection = [Normal ''copy.db'']\<rparr> sample_opts (Inr ())
     (fresh_daemon\<lparr>database := memory ((\<lambda>_. None)([Normal ''log.db''] := Some sample_log, [Normal ''copy.db''] := Some []))\<rparr>) =
     Some (Inr (Inr ()), u) \<and> tables (database u) [Normal ''copy.db''] = Some new \<and>
     mset (map snd new) = {#Some ''enter'', Some ''exit''#}"
proof -
  let ?w = "fresh_daemon\<lparr>database := memory
    ((\<lambda>_. None)([Normal ''log.db''] := Some sample_log, [Normal ''copy.db''] := Some []))\<rparr>"
  let ?replay = "replay_main reference_sqlite \<lparr>database_connection = [Normal ''copy.db'']\<rparr> sample_opts (Inr ())"
  have "components (opt_database sample_opts) \<noteq> [Normal ''copy.db'']"
    "rtevents reference_sqlite [Normal ''copy.db''] (database ?w) = Some []"
    "own_file reference_sqlite [Normal ''copy.db'']"
    by (simp_all add: fresh_daemon_def reference_sqlite_def sample_paths)
  from replay_copies [OF reference_sqlite_laws this(3) sample_own_file this(1,2), of "Inr ()"] obtain r u new where run: "?replay ?w = Some (Inr r, u)"
    "rtevents reference_sqlite [Normal ''copy.db''] (database u) = Some new"
    "case rtevents reference_sqlite (components (opt_database sample_opts)) (database ?w) of
       None \<Rightarrow> r = Inl () \<and> new = []
     | Some old \<Rightarrow> mset (map snd new) \<subseteq># mset (map snd old) \<and>
         (r = Inr () \<longrightarrow> mset (map snd new) = mset (map snd old))" by auto
  have "map_option fst (?replay ?w) = Some (Inr (Inr ()))"
    by (simp add: replay_main_def replay_prepare_def replay_rows.simps next_rtevent_def call_record_events_def
        record_events_def with_connection_def on_database_def reference_sqlite_def sample_log_def
        CREATE_RTEVENTS_def INSERT_RTEVENT_def fresh_daemon_def prog_simps sample_paths)
  with run(1) have "r = Inr ()" by simp
  with run show ?thesis by (auto simp: reference_sqlite_def sample_log_def sample_paths)
qed

end
