(* ===== verification/Uds.thy ===== *)
theory Uds
  imports FileSystem
begin

text \<open>
  The wrapper that lets Tonic serve over Unix domain sockets,
  \<^verbatim>\<open>phasicj/services/util/tonic/uds.rs\<close>. Tokio's stream is an argument: its reads and
  writes are polled, and poll again later what is pending.
\<close>

section \<open>Tokio's stream\<close>

datatype 'a poll = Ready 'a | Pending

text \<open>A read buffer with what has been read into it; the task to wake when there is more.\<close>

record ReadBuf =
  filled :: "byte list"
  capacity :: nat

type_synonym task = nat

record ('s, 'a, 'c) tokio_stream =
  tokio_peer_addr :: "'s \<Rightarrow> io_error + 'a"
  tokio_peer_cred :: "'s \<Rightarrow> io_error + 'c"
  tokio_poll_read :: "task \<Rightarrow> ReadBuf \<Rightarrow> 's \<Rightarrow> ((io_error + unit) poll \<times> ReadBuf) \<times> 's"
  tokio_poll_write :: "task \<Rightarrow> byte list \<Rightarrow> 's \<Rightarrow> (io_error + nat) poll \<times> 's"
  tokio_poll_flush :: "task \<Rightarrow> 's \<Rightarrow> (io_error + unit) poll \<times> 's"
  tokio_poll_shutdown :: "task \<Rightarrow> 's \<Rightarrow> (io_error + unit) poll \<times> 's"

section \<open>The wrapper\<close>

datatype 's UnixStream = UnixStream (stream: 's)

record ('a, 'c) UdsConnectInfo =
  peer_addr :: "'a option"
  peer_cred :: "'c option"

text \<open>\<open>Result::ok\<close>.\<close>

definition ok :: "'e + 'a \<Rightarrow> 'a option" where
  "ok r = (case r of Inl _ \<Rightarrow> None | Inr x \<Rightarrow> Some x)"

definition connect_info :: "('s, 'a, 'c) tokio_stream \<Rightarrow> 's UnixStream \<Rightarrow> ('a, 'c) UdsConnectInfo" where
  "connect_info T self =
     \<lparr>peer_addr = ok (tokio_peer_addr T (stream self)), peer_cred = ok (tokio_peer_cred T (stream self))\<rparr>"

definition poll_read ::
  "('s, 'a, 'c) tokio_stream \<Rightarrow> task \<Rightarrow> ReadBuf \<Rightarrow> 's UnixStream \<Rightarrow>
   ((io_error + unit) poll \<times> ReadBuf) \<times> 's UnixStream" where
  "poll_read T cx buf self = (case tokio_poll_read T cx buf (stream self) of (x, s) \<Rightarrow> (x, UnixStream s))"

definition poll_write ::
  "('s, 'a, 'c) tokio_stream \<Rightarrow> task \<Rightarrow> byte list \<Rightarrow> 's UnixStream \<Rightarrow> (io_error + nat) poll \<times> 's UnixStream" where
  "poll_write T cx buf self = (case tokio_poll_write T cx buf (stream self) of (x, s) \<Rightarrow> (x, UnixStream s))"

definition poll_flush ::
  "('s, 'a, 'c) tokio_stream \<Rightarrow> task \<Rightarrow> 's UnixStream \<Rightarrow> (io_error + unit) poll \<times> 's UnixStream" where
  "poll_flush T cx self = (case tokio_poll_flush T cx (stream self) of (x, s) \<Rightarrow> (x, UnixStream s))"

definition poll_shutdown ::
  "('s, 'a, 'c) tokio_stream \<Rightarrow> task \<Rightarrow> 's UnixStream \<Rightarrow> (io_error + unit) poll \<times> 's UnixStream" where
  "poll_shutdown T cx self = (case tokio_poll_shutdown T cx (stream self) of (x, s) \<Rightarrow> (x, UnixStream s))"

section \<open>Transparency\<close>

text \<open>
  Any sequence of polls sees through the wrapper what it would see of the stream itself, and
  leaves the same stream behind; the addresses it is known by are those of the stream it was
  made of, as long as Tokio's polls do not change them.
\<close>

datatype io_op =
    Read task ReadBuf
  | Write task "byte list"
  | Flush task
  | Shutdown task

datatype io_result =
    DidRead "(io_error + unit) poll" ReadBuf
  | DidWrite "(io_error + nat) poll"
  | DidEnd "(io_error + unit) poll"

fun wrapped_step :: "('s, 'a, 'c) tokio_stream \<times> io_op \<Rightarrow> ('s UnixStream, io_result) prog" where
  "wrapped_step (T, Read cx buf) = (\<lambda>s. case poll_read T cx buf s of ((p, b), t) \<Rightarrow> (Inr (DidRead p b), t))"
| "wrapped_step (T, Write cx buf) = (\<lambda>s. case poll_write T cx buf s of (p, t) \<Rightarrow> (Inr (DidWrite p), t))"
| "wrapped_step (T, Flush cx) = (\<lambda>s. case poll_flush T cx s of (p, t) \<Rightarrow> (Inr (DidEnd p), t))"
| "wrapped_step (T, Shutdown cx) = (\<lambda>s. case poll_shutdown T cx s of (p, t) \<Rightarrow> (Inr (DidEnd p), t))"

fun stream_step :: "('s, 'a, 'c) tokio_stream \<times> io_op \<Rightarrow> ('s, io_result) prog" where
  "stream_step (T, Read cx buf) = (\<lambda>s. case tokio_poll_read T cx buf s of ((p, b), t) \<Rightarrow> (Inr (DidRead p b), t))"
| "stream_step (T, Write cx buf) = (\<lambda>s. case tokio_poll_write T cx buf s of (p, t) \<Rightarrow> (Inr (DidWrite p), t))"
| "stream_step (T, Flush cx) = (\<lambda>s. case tokio_poll_flush T cx s of (p, t) \<Rightarrow> (Inr (DidEnd p), t))"
| "stream_step (T, Shutdown cx) = (\<lambda>s. case tokio_poll_shutdown T cx s of (p, t) \<Rightarrow> (Inr (DidEnd p), t))"

definition wraps :: "('s, 'a, 'c) tokio_stream \<Rightarrow> ('a, 'c) UdsConnectInfo \<Rightarrow> 's UnixStream \<Rightarrow> 's \<Rightarrow> bool" where
  "wraps T i u s \<longleftrightarrow> u = UnixStream s \<and> connect_info T u = i"

text \<open>Tokio's law: a stream keeps its peer.\<close>

definition keeps_peer :: "('s, 'a, 'c) tokio_stream \<Rightarrow> bool" where
  "keeps_peer T \<longleftrightarrow> (\<forall>op s r t. stream_step (T, op) s = (r, t) \<longrightarrow>
     tokio_peer_addr T t = tokio_peer_addr T s \<and> tokio_peer_cred T t = tokio_peer_cred T s)"

lemma wrapped_step_stream:
  "wrapped_step (T, op) (UnixStream s) = (case stream_step (T, op) s of (r, t) \<Rightarrow> (r, UnixStream t))"
  by (cases op)
     (simp_all add: poll_read_def poll_write_def poll_flush_def poll_shutdown_def split: prod.split)

lemma stream_step_returns: "\<exists>v t. stream_step (T, op) s = (Inr v, t)"
  by (cases op) (auto split: prod.split)

interpretation uds: implements wrapped_step stream_step "wraps T i" "\<lambda>_. False" "\<lambda>x. fst x = T \<and> keeps_peer T"
  for T :: "('s, 'a, 'c) tokio_stream" and i
proof
  fix s a x r t
  assume w: "wraps T i s a" and x: "fst x = T \<and> keeps_peer T" and run: "wrapped_step x s = (r, t)"
  obtain op where op: "x = (T, op)" using x by (cases x) simp
  obtain q b where b: "stream_step (T, op) a = (q, b)" by fastforce
  with x have "tokio_peer_addr T b = tokio_peer_addr T a" "tokio_peer_cred T b = tokio_peer_cred T a"
    unfolding keeps_peer_def by blast+
  with w op b run show "(\<exists>e. r = Inl e \<and> False) \<or> (\<exists>b. stream_step x a = (r, b) \<and> wraps T i t b)"
    by (auto simp: wraps_def wrapped_step_stream connect_info_def)
qed simp

lemma wrapper_transparent:
  assumes "keeps_peer T" and "run_ops (\<lambda>_. False) stream_step (map (Pair T) ops) s = (qs, b)"
  shows "\<exists>t. run_ops (\<lambda>_. False) wrapped_step (map (Pair T) ops) (UnixStream s) = (qs, t) \<and>
    wraps T (connect_info T (UnixStream s)) t b"
proof -
  obtain rs t where t: "run_ops (\<lambda>_. False) wrapped_step (map (Pair T) ops) (UnixStream s) = (rs, t)" by fastforce
  have "wraps T (connect_info T (UnixStream s)) (UnixStream s) s" by (simp add: wraps_def)
  from uds.runs_refine [OF this _ t assms(2)] assms(1) t show ?thesis by auto
qed

end
