(* ===== verification/Greeter.thy ===== *)
theory Greeter
  imports Uds
begin

text \<open>
  The prototype of a service over a Unix domain socket,
  \<^verbatim>\<open>architecture/prototypes/integration/pt_rust_grpc_ipc\<close>, on which the daemon and its client
  were built: a server that greets, in its form over a socket of the Internet
  (\<^verbatim>\<open>Cargo/src/main.rs\<close>) and over a socket in the file system
  (\<^verbatim>\<open>Bazel/pt/grpc/cargo_style/server.rs\<close>), and its client. The transport is Tonic's: it calls
  the handler for each request, and attaches what \<open>connect_info\<close> tells of the connection.
\<close>

section \<open>The server's own wrapper\<close>

text \<open>
  The wrapper of Tokio's stream was first written here, in the server's module \<^verbatim>\<open>unix\<close>.
\<close>

datatype 's PtUnixStream = PtUnixStream (pt_stream: 's)

record ('a, 'c) PtConnectInfo =
  pt_peer_addr :: "'a option"
  pt_peer_cred :: "'c option"

definition pt_connect_info :: "('s, 'a, 'c) tokio_stream \<Rightarrow> 's PtUnixStream \<Rightarrow> ('a, 'c) PtConnectInfo" where
  "pt_connect_info T self =
     \<lparr>pt_peer_addr = ok (tokio_peer_addr T (pt_stream self)), pt_peer_cred = ok (tokio_peer_cred T (pt_stream self))\<rparr>"

definition pt_poll_read ::
  "('s, 'a, 'c) tokio_stream \<Rightarrow> task \<Rightarrow> ReadBuf \<Rightarrow> 's PtUnixStream \<Rightarrow>
   ((io_error + unit) poll \<times> ReadBuf) \<times> 's PtUnixStream" where
  "pt_poll_read T cx buf self = apsnd PtUnixStream (tokio_poll_read T cx buf (pt_stream self))"

definition pt_poll_write ::
  "('s, 'a, 'c) tokio_stream \<Rightarrow> task \<Rightarrow> byte list \<Rightarrow> 's PtUnixStream \<Rightarrow> (io_error + nat) poll \<times> 's PtUnixStream" where
  "pt_poll_write T cx buf self = apsnd PtUnixStream (tokio_poll_write T cx buf (pt_stream self))"

definition pt_poll_flush ::
  "('s, 'a, 'c) tokio_stream \<Rightarrow> task \<Rightarrow> 's PtUnixStream \<Rightarrow> (io_error + unit) poll \<times> 's PtUnixStream" where
  "pt_poll_flush T cx self = apsnd PtUnixStream (tokio_poll_flush T cx (pt_stream self))"

definition pt_poll_shutdown ::
  "('s, 'a, 'c) tokio_stream \<Rightarrow> task \<Rightarrow> 's PtUnixStream \<Rightarrow> (io_error + unit) poll \<times> 's PtUnixStream" where
  "pt_poll_shutdown T cx self = apsnd PtUnixStream (tokio_poll_shutdown T cx (pt_stream self))"

fun pt_step :: "('s, 'a, 'c) tokio_stream \<times> io_op \<Rightarrow> ('s PtUnixStream, io_result) prog" where
  "pt_step (T, Read cx buf) = (\<lambda>s. case pt_poll_read T cx buf s of ((p, b), t) \<Rightarrow> (Inr (DidRead p b), t))"
| "pt_step (T, Write cx buf) = (\<lambda>s. case pt_poll_write T cx buf s of (p, t) \<Rightarrow> (Inr (DidWrite p), t))"
| "pt_step (T, Flush cx) = (\<lambda>s. case pt_poll_flush T cx s of (p, t) \<Rightarrow> (Inr (DidEnd p), t))"
| "pt_step (T, Shutdown cx) = (\<lambda>s. case pt_poll_shutdown T cx s of (p, t) \<Rightarrow> (Inr (DidEnd p), t))"

text \<open>The two wrappers cannot be told apart: by their polls, whatever Tokio does, or by their peer.\<close>

definition same_stream :: "'s PtUnixStream \<Rightarrow> 's UnixStream \<Rightarrow> bool" where
  "same_stream u v \<longleftrightarrow> pt_stream u = stream v"

interpretation pt_uds: implements
  "pt_step :: ('s, 'a, 'c) tokio_stream \<times> io_op \<Rightarrow> ('s PtUnixStream, io_result) prog"
  wrapped_step same_stream "\<lambda>_. False" "\<lambda>_. True"
proof
  fix s :: "'s PtUnixStream" and a and x :: "('s, 'a, 'c) tokio_stream \<times> io_op" and r t
  assume w: "same_stream s a" and run: "pt_step x s = (r, t)"
  obtain T op where x: "x = (T, op)" by (cases x)
  from w run show "(\<exists>e. r = Inl e \<and> False) \<or> (\<exists>b. wrapped_step x a = (r, b) \<and> same_stream t b)"
    unfolding x
    by (cases op)
       (auto simp: same_stream_def pt_poll_read_def pt_poll_write_def pt_poll_flush_def pt_poll_shutdown_def
          poll_read_def poll_write_def poll_flush_def poll_shutdown_def apsnd_def map_prod_def split: prod.splits)
qed simp

lemma wrappers_agree:
  assumes "run_ops (\<lambda>_. False) pt_step xs (PtUnixStream s) = (rs, t)"
    and "run_ops (\<lambda>_. False) wrapped_step xs (UnixStream s) = (qs, b)"
  shows "rs = qs \<and> pt_stream t = stream b"
  using pt_uds.runs_refine [OF _ _ assms] by (auto simp: same_stream_def)

lemma connect_infos_agree:
  "pt_connect_info T (PtUnixStream s) =
     \<lparr>pt_peer_addr = peer_addr (connect_info T (UnixStream s)), pt_peer_cred = peer_cred (connect_info T (UnixStream s))\<rparr>"
  by (simp add: pt_connect_info_def connect_info_def)

section \<open>The server\<close>

record ('a, 'c) hello_request =
  conn_info :: "('a, 'c) PtConnectInfo option"
  hello_name :: string

definition hello_message :: "string \<Rightarrow> string" where
  "hello_message name = ''Hello '' @ name @ ''!''"

text \<open>
  The handler over the Internet, which uses the name only, and the one that reads the peer of
  the connection first.
\<close>

definition cargo_say_hello :: "string \<Rightarrow> ('w, unit + string) prog" where
  "cargo_say_hello name = ret (Inr (hello_message name))"

definition say_hello :: "('a, 'c) hello_request \<Rightarrow> ('w, unit + string) prog" where
  "say_hello request =
     bnd (expect UnwrapNone (conn_info request)) (\<lambda>_. ret (Inr (hello_message (hello_name request))))"

definition get_socket_name :: "string list \<Rightarrow> ('w, string) prog" where
  "get_socket_name args = (if length args = 2 then ret (args ! 1) else panic AssertionFailed)"

text \<open>
  \<open>arrivals\<close> are the requests with the connections they arrive on, each accepted and wrapped;
  \<open>served\<close> is how serving ends.
\<close>

definition arrive :: "('s, 'a, 'c) tokio_stream \<Rightarrow> 's \<times> string \<Rightarrow> ('a, 'c) hello_request" where
  "arrive T x = \<lparr>conn_info = Some (pt_connect_info T (PtUnixStream (fst x))), hello_name = snd x\<rparr>"

definition greet_all ::
  "('s, 'a, 'c) tokio_stream \<Rightarrow> ('s \<times> string) list \<Rightarrow> (fsys, (unit + string) result list) prog" where
  "greet_all T arrivals = (\<lambda>f.
     case run_ops (\<lambda>_. False) (\<lambda>x. say_hello (arrive T x)) arrivals f of (rs, g) \<Rightarrow> (Inr rs, g))"

definition greeter_main ::
  "('s, 'a, 'c) tokio_stream \<Rightarrow> (path \<Rightarrow> (fsys, io_error + unit) prog) \<Rightarrow> string list \<Rightarrow> ('s \<times> string) list \<Rightarrow>
   io_error + unit \<Rightarrow> (fsys, io_error + (unit + string) result list) prog" where
  "greeter_main T uds_bind args arrivals served =
     bnd (get_socket_name args) (\<lambda>path.
     bnd (expect UnwrapNone (path_parent (components path))) (\<lambda>dir.
     trying (create_dir_all dir) (\<lambda>_.
     trying (uds_bind (components path)) (\<lambda>_.
     bnd (greet_all T arrivals) (\<lambda>responses.
     trying (ret served) (\<lambda>_. ret (Inr responses)))))))"

text \<open>
  The server over the Internet listens on port 50051 of the loopback address, which is what
  its literal is parsed to.
\<close>

definition cargo_addr :: "16 word list \<times> 16 word" where
  "cargo_addr = ([0, 0, 0, 0, 0, 0, 0, 1], 50051)"

definition cargo_main ::
  "(16 word list \<times> 16 word \<Rightarrow> io_error + unit) \<Rightarrow> string list \<Rightarrow>
   ('w, io_error + (unit + string) result list) prog" where
  "cargo_main serve names =
     bnd (\<lambda>w. case run_ops (\<lambda>_. False) cargo_say_hello names w of
            (rs, w') \<Rightarrow> (Inr rs, w')) (\<lambda>responses.
     trying (ret (serve cargo_addr)) (\<lambda>_. ret (Inr responses)))"

section \<open>The client\<close>

definition client_get_socket_name :: "string list \<Rightarrow> ('w, string) prog" where
  "client_get_socket_name args = (if length args = 2 then ret (args ! 1) else panic AssertionFailed)"

text \<open>
  \<open>connect\<close> opens the socket of a path, and the call is answered by the handler at the other
  end; the client returns the response it prints.
\<close>

definition client_main ::
  "(path \<Rightarrow> (fsys, io_error + unit) prog) \<Rightarrow> (string \<Rightarrow> (fsys, unit + string) prog) \<Rightarrow> string list \<Rightarrow>
   (fsys, unit + string) prog" where
  "client_main connect call args =
     bnd (client_get_socket_name args) (\<lambda>path.
     bnd (connect (components path)) (\<lambda>channel.
     trying (ret (case channel of Inl _ \<Rightarrow> Inl () | Inr x \<Rightarrow> Inr x)) (\<lambda>_.
     trying (call ''Tonic'') (\<lambda>response. ret (Inr response)))))"

section \<open>Greetings\<close>

text \<open>
  Every connection is wrapped before the server sees it, so the handler always finds its
  connection's peer, never panics, and answers every request.
\<close>

lemma greet_all_run:
  "greet_all T arrivals f = (Inr (map (\<lambda>x. Inr (Inr (hello_message (snd x)))) arrivals), f)"
proof -
  have "run_ops (\<lambda>_. False) (\<lambda>x. say_hello (arrive T x)) arrivals f =
      (map (\<lambda>x. Inr (Inr (hello_message (snd x)))) arrivals, f)"
    by (induction arrivals) (simp_all add: say_hello_def arrive_def expect_def ret_def bnd_def)
  then show ?thesis by (simp add: greet_all_def)
qed

lemma greeter_answers:
  assumes "greeter_main T uds_bind args arrivals served f = (Inr (Inr rs), g)"
  shows "length args = 2 \<and> rs = map (\<lambda>x. Inr (Inr (hello_message (snd x)))) arrivals"
  using assms by (auto simp: greeter_main_def get_socket_name_def prog_inv greet_all_run split: if_splits)

lemma client_greeted:
  assumes "connect (components (args ! 1)) f = (Inr (Inr ()), g)" and "length args = 2"
  shows "client_main connect (\<lambda>name. say_hello (arrive T (s, name))) args f = (Inr (Inr ''Hello Tonic!''), g)"
  using assms
  by (simp add: client_main_def client_get_socket_name_def say_hello_def arrive_def expect_def hello_message_def
      trying_def ret_def bnd_def)

lemma cargo_answers:
  assumes "cargo_main serve names w = (Inr (Inr rs), w')"
  shows "rs = map (\<lambda>name. Inr (Inr (hello_message name))) names"
proof -
  have "run_ops (\<lambda>_. False) cargo_say_hello names v =
      (map (\<lambda>name. Inr (Inr (hello_message name))) names, v)" for v :: 'a
    by (induction names) (simp_all add: cargo_say_hello_def ret_def)
  with assms show ?thesis by (auto simp: cargo_main_def prog_inv)
qed

lemma get_socket_name_panics:
  "get_socket_name args w = (r, w') \<Longrightarrow> (r = Inl (Panicked AssertionFailed) \<longleftrightarrow> length args \<noteq> 2)"
  by (auto simp: get_socket_name_def prog_inv split: if_splits)

end
