(* ===== verification/Prototypes.thy ===== *)
theory Prototypes
  imports JniEnv
begin

text \<open>
  Two prototypes from which the agent was built, under
  \<^verbatim>\<open>src/architecture/prototypes/integration\<close>: an agent that only says that it is there
  (\<^verbatim>\<open>pt_rust_jvmti_agent/pt/agent/lib.rs\<close>), and a program that runs the main function of a
  Java library compiled ahead of time (\<^verbatim>\<open>pt_graal_shadow_vm/pt/svm/rust/myapp.rs\<close>).
\<close>

section \<open>The agent\<close>

text \<open>The state is what has been printed, line by line.\<close>

definition println :: "string \<Rightarrow> (string list, unit) prog" where
  "println line = update (\<lambda>out. out @ [line])"

definition pt_Agent_OnLoad :: "(string list, 32 word) prog" where
  "pt_Agent_OnLoad = seq (println ''Hello, from `Agent_OnLoad()`, implemented in Rust.'') (ret 0)"

definition pt_Agent_OnAttach :: "(string list, 32 word) prog" where
  "pt_Agent_OnAttach = seq (println ''Hello, from `Agent_OnAttach()`, implemented in Rust.'') (ret 0)"

definition pt_Agent_OnUnload :: "(string list, unit) prog" where
  "pt_Agent_OnUnload = println ''Hello, from `Agent_OnUnload()`, implemented in Rust.''"

lemma pt_agent_prints:
  "bnd pt_Agent_OnLoad (\<lambda>rc. bnd pt_Agent_OnAttach (\<lambda>ra. bnd pt_Agent_OnUnload (\<lambda>_. ret (rc, ra)))) out =
     (Inr (0, 0), out @ map (\<lambda>f. ''Hello, from `'' @ f @ ''()`, implemented in Rust.'')
        [''Agent_OnLoad'', ''Agent_OnAttach'', ''Agent_OnUnload''])"
  by (simp add: pt_Agent_OnLoad_def pt_Agent_OnAttach_def pt_Agent_OnUnload_def println_def prog_simps)

section \<open>The shadow VM\<close>

text \<open>\<open>run_main\<close> is the entry point of the compiled library; it is given one argument.\<close>

definition myapp_main :: "(32 word \<Rightarrow> byte list list \<Rightarrow> ('w, unit) prog) \<Rightarrow> ('w, unit) prog" where
  "myapp_main run_main = bnd (unwrap_ok (cstring_new ''myapp'')) (\<lambda>arg0. run_main 1 [arg0])"

lemma myapp_runs_main: "myapp_main run_main w = run_main 1 [''myapp''] w"
proof -
  have "cstring_new ''myapp'' = Inr ''myapp''" by (simp add: cstring_new_def cstr_ok_def)
  then show ?thesis by (simp add: myapp_main_def prog_simps)
qed

end
