(* ===== verification/Spec2Isabelle.thy ===== *)
theory Spec2Isabelle
  imports Threads Pipes Unpackers Svm Replay Greeter Prototypes
begin

text \<open>
  A verification development for PhasicJ, a JVMTI agent that instruments the classes of a
  Java program and reports its run-time events, and the daemon that records them.

  \<^bold>\<open>The program.\<close> The JVM loads the agent's shared library and calls \<open>Agent_OnLoad\<close>. The
  agent parses its option string, stores the configuration in memory of the JVM, claims
  capabilities, registers callbacks, enables their events, unpacks an embedded jar and puts
  it on the boot class path, and starts a channel to a worker thread. From then on the JVM
  calls back: at its start, to have a method called that enables the instrumentation; for
  each class, to have it replaced by what an external program makes of it; at its death.
  Instrumented code calls native methods, which send an event over the channel. The daemon
  serves a socket and appends each event it is sent to a table of a SQLite database.

  \<^bold>\<open>How it is modelled.\<close> A function of the code is a state-passing program (\<open>Prelude\<close>): it
  returns a value or a fault, with the state it has reached either way. A fault is a panic,
  one constructor for each message, or undefined behaviour, so that the soundness of the
  \<open>unsafe\<close> code is part of what is proved. An \<open>io::Result\<close> is a sum. Machine integers are
  words where they can wrap or are converted; lengths of buffers are natural numbers with
  the conversions written out. The raw memory of the JVM is a partial map from pointers to
  blocks of bytes, every access of which is checked.

  \<^bold>\<open>The theories\<close>, with the files under \<^verbatim>\<open>src/phasicj\<close> they model:

  \<^item> \<open>Prelude\<close>: programs, faults, pre- and postconditions (\<open>triple\<close>, and \<open>yields\<close> for
    programs that return), and two locales: \<open>implements\<close>, by which the simulation of single
    operations gives that of whole runs, and \<open>guarded_invariant\<close>, by which what legal steps keep
    is kept along every trace.
  \<^item> \<open>Pest\<close>, \<open>ConfGrammar\<close>: the operators of the Pest grammar notation as its documentation
    has them, and the rules of \<^verbatim>\<open>agent/conf/src/PjAgentConfLang.pest\<close>, each with the language
    it accepts. \<open>Conf\<close>: \<^verbatim>\<open>agent/conf/src/lib.rs\<close>, the pass over the parse tree, against a
    declarative account of option strings (\<open>conf_of_options\<close>), and the console
    \<^verbatim>\<open>agent/conf/src/conf_test_repl.rs\<close>.
  \<^item> \<open>FileSystem\<close>: paths and the operations of \<open>std::fs\<close> that are used, each of which may
    fail by a plan of faults in the state. \<open>RtEmbed\<close>: \<^verbatim>\<open>agent/rt/embed/lib.rs\<close> and
    \<^verbatim>\<open>agent/experimental/svm/rust/embed/lib.rs\<close>, the unpacking of embedded files, through the
    locale \<open>unpacker\<close>. \<open>Unpackers\<close>: the same unpacking by several processes at once. \<open>Debug\<close>: \<^verbatim>\<open>agent/debug.rs\<close>.
  \<^item> \<open>Recorder\<close>: \<^verbatim>\<open>agent/recorder.rs\<close> and the native methods of \<^verbatim>\<open>agent/jvm/entrypoints.rs\<close>:
    the mutex with its poisoning, the channels and the workers with the panic that ends one, as
    a step relation over interleaved operations, and the locale \<open>event_sink\<close> of what a caller relies on.
  \<^item> \<open>Utf8\<close>, \<open>Jvm\<close>: \<open>CStr\<close> and UTF-8; the state shared with the JVM, the tables of JVMTI and
    JNI functions, and their laws. \<open>JvmtiEnv\<close>, \<open>JniEnv\<close>: the wrappers of
    \<^verbatim>\<open>agent/jvm/jvmti_env.rs\<close> and \<^verbatim>\<open>agent/jvm/jni_env.rs\<close>; a reference JVM for the examples.
  \<^item> \<open>EnvStorage\<close>: \<^verbatim>\<open>agent/jvm/env_storage.rs\<close>, the configuration as the bytes of a C structure.
    \<open>Instrumenter\<close>: \<^verbatim>\<open>agent/instr/rust/lib.rs\<close>. \<open>Events\<close>: the callbacks of
    \<^verbatim>\<open>agent/jvm/events.rs\<close>. \<open>Setup\<close>: \<^verbatim>\<open>agent/jvm/setup.rs\<close>. \<open>Agent\<close>: \<^verbatim>\<open>agent/agent.rs\<close> and the
    entry points of \<^verbatim>\<open>agent/jvm/entrypoints.rs\<close>.
  \<^item> \<open>Lifecycle\<close>: the agent under the events the JVM delivers, native calls and workers.
    \<open>Service\<close>: its progress and its memory over whole sequences of them. \<open>Readers\<close>: the two
    steps of \<open>EnvStorage::of\<close> on many threads, as a step relation, interleaved with events.
    \<open>HookTurns\<close>: the class file load hook of \<^verbatim>\<open>agent/jvm/events.rs\<close> cut into turns, from one
    access to shared state to the next, which in sequence are the hook. \<open>Threads\<close>: the turns of
    any number of calls interleaved with each other and with events, and who owns which block.
  \<^item> \<open>Pipes\<close>: the system calls of \<^verbatim>\<open>agent/instr/rust/lib.rs\<close> and of its child,
    \<^verbatim>\<open>agent/instr/cli/Cli.java\<close>, over two bounded pipes, and the locale \<open>running_down\<close> of systems
    that come to rest.
  \<^item> \<open>Svm\<close>: \<^verbatim>\<open>agent/experimental/svm/rust/lib.rs\<close>, the instrumenter inside the process, on the
    Java entry points of \<^verbatim>\<open>agent/instr/experimental/svm/Instrumenter.java\<close>.
  \<^item> \<open>Daemon\<close>: \<^verbatim>\<open>daemon/main.rs\<close>, \<^verbatim>\<open>daemon/rtevents.rs\<close>, \<^verbatim>\<open>daemon/cli.rs\<close>: the start as a program,
    and serving, which never returns, as a step relation (\<open>serves\<close>) over the connections
    accepted, the requests handled and the kill of the process. \<open>Replay\<close>: the replay client,
    \<^verbatim>\<open>daemon/tests/sqlite_replay_client/main.rs\<close>.
  \<^item> \<open>Uds\<close>: \<^verbatim>\<open>services/util/tonic/uds.rs\<close>, the socket wrapper, which any sequence of polls
    cannot tell from the stream in it. \<open>Greeter\<close>: the prototype under
    \<^verbatim>\<open>src/architecture/prototypes/integration/pt_rust_grpc_ipc\<close> of serving over that wrapper.
    \<open>Prototypes\<close>: those of an agent and of running compiled Java, \<^verbatim>\<open>pt_rust_jvmti_agent\<close> and
    \<^verbatim>\<open>pt_graal_shadow_vm\<close> beside it.

  \<^bold>\<open>What is proved.\<close> Options: the accepted strings are exactly those of a declarative
  language, with the configuration they denote and the panic of the first invalid option;
  no internal check fires, and every parse tree is well typed. Storage: any sequence of \<open>init\<close>, \<open>of\<close> and \<open>free\<close> is that of an
  optional cell, without undefined behaviour. Channel: in every interleaving the calls
  return or panic as a protocol of three phases says, and every event is handled or queued.
  Load: all or nothing in its result, no event enabled without what it relies on, and
  success on a JVM that obliges. Hook: no undefined behaviour on named classes, a class
  replaced only by the instrumenter's output on its bytes. Life cycle: these kept by every
  sequence of events up to the first that fails, which is a callback's panic or one of two
  mishaps that JVMTI and JNI allow and the code does not guard against (\<open>mishap\<close>); and the end
  after the death of the VM. Service: on a JVM that obliges every servable event returns, from
  the load to the death of the VM; of the memory JVMTI allocates the agent holds the structure
  and the path, as long as the events return; readers on any threads get the
  configuration of the options until the VM dies. Threads: however the turns of class load
  hooks interleave, each hands over its own class in memory of its own. Pipes: with the bundled instrumenter the call always returns, in a bounded number
  of system calls, with what the hook is proved about. The
  in-process instrumenter gives the Java instrumenter's class and returns its memory; the
  daemon's log is the acknowledged requests, at every moment and however it ends, and a replay
  ends and copies it. Several theorems show what goes wrong instead:
  a truncated jar taken for the whole, a class without a name, a missing static method, a
  null slice, an isolate leaked, a database that can be served once only, a path read after the death
  of the VM has released it, a jar truncated by another agent that starts at the same time, a class load blocked by an instrumenter that writes while it reads.

  \<^bold>\<open>Arguments and laws.\<close> What is not in the repository is an argument: the JVM (\<open>jvmti_laws\<close>,
  \<open>jni_laws\<close>, \<open>vm_laws\<close>, from the interface documentation, leave open whether a call fails;
  \<open>jvmti_obliging\<close> and \<open>vm_obliging\<close> are added only where something is claimed to succeed),
  the operating system that starts processes, the embedded jar and its hash, GraalVM
  (\<open>graal_laws\<close>, \<open>unmanaged_laws\<close>), SQLite (\<open>sqlite_laws\<close>, of databases in files of their own) and the binding of sockets. Each
  set of laws has an instance on which the theorems are applied. A started process is an
  argument of the instrumenter by what comes of its input; \<open>Pipes\<close> justifies this for the
  bundled program, whose bytecode library is an argument.

  \<^bold>\<open>Bounds.\<close> All recursions are structural or have a measure, with no fuel, but for the loop of
  the replay client, which ends when SQLite says so: it is a partial function, and proved to
  return. The loop of the
  worker is a round that a step relation repeats, with a theorem that it drains its channel.
  In sequence a call of the hook takes seven turns at most. The capacity of a pipe is any number, not zero.
  The parser's repetitions consume input at every turn. The target has 64-bit pointers.

  \<^bold>\<open>Not modelled.\<close> Log messages; the scheduling of threads below the granularity of a mutex
  and of a turn, so that two dumps of classes to files do not overlap, and a turn that blocks,
  as one that runs an instrumenter may (\<open>Pipes\<close>), is a turn that is not taken; the memory of
  the process outside the JVM's, such as the queue of the channel and the path that the set-up
  leaks; the panic of \<open>thread::spawn\<close> where the system has no thread to give; the Tokio
  runtime and the gRPC transport; generated code; the Java instrumenter and runtime, but for
  the entry points above; the test programs; the other prototypes under
  \<^verbatim>\<open>src/architecture\<close>, which are Java or build rules; \<^verbatim>\<open>agent/jvm/thread_storage.rs\<close>, an
  empty structure.
\<close>

end
